(* ===== verification/GoPrelude.thy ===== *)
theory GoPrelude
  imports Main "HOL-Library.Word" "HOL-Library.Monad_Syntax" "HOL-Library.AList"
begin

unbundle bit_operations_syntax

text \<open>
  Shared vocabulary of the development: the machine integers and byte slices of the Go
  sources, the functions of Go's package \<^verbatim>\<open>encoding/binary\<close> that the sources use
  (big-endian reads and writes of 16 and 32 bits), checked indexing, the error values,
  and the generic lemmas on words, byte lists and association lists that the component
  theories rely on.
\<close>

section \<open>Types\<close>

type_synonym byte = "8 word"
type_synonym u16 = "16 word"
type_synonym u32 = "32 word"
type_synonym u64 = "64 word"
type_synonym bytes = "byte list"
type_synonym ip4 = "byte \<times> byte \<times> byte \<times> byte"

named_theorems go_defs \<open>definitions of the small pure helpers\<close>
named_theorems go_len \<open>lengths of the results of byte-slice operations\<close>
named_theorems be_simps \<open>reads of byte slices after writes\<close>

section \<open>Errors\<close>

text \<open>
  Go's \<^verbatim>\<open>error\<close> values: the sentinels the sources compare with \<^verbatim>\<open>errors.Is\<close>, errors
  made by \<^verbatim>\<open>errors.New\<close>, errors that come back from code outside the program (system
  calls, DLL procedures, the network library), and \<^verbatim>\<open>errors.Join\<close>.  A Go result
  \<^verbatim>\<open>error\<close> that may be \<^verbatim>\<open>nil\<close> is a \<^typ>\<open>'e option\<close>.  A panic (a nil
  dereference) ends the function and its callers like an error that every caller returns at
  once, and is modelled as one: \<open>GoPanic\<close>.
\<close>

datatype go_error =
    ContextCanceled
  | ContextDeadlineExceeded
  | ErrShutdownFailOpenLimitReached
  | ErrNotImplemented
  | ErrNew string
  | ExternalError nat
  | ErrJoin "go_error list"
  | GoPanic string

text \<open>\<^verbatim>\<open>errors.Is(err, target)\<close> looks through \<^verbatim>\<open>errors.Join\<close>.\<close>

fun errors_is :: "go_error \<Rightarrow> go_error \<Rightarrow> bool" where
  "errors_is (ErrJoin es) t = (ErrJoin es = t \<or> list_ex (\<lambda>e. errors_is e t) es)"
| "errors_is e t = (e = t)"

text \<open>\<^verbatim>\<open>errors.Is\<close> on a possibly nil error.\<close>

definition is_err :: "go_error option \<Rightarrow> go_error \<Rightarrow> bool" where
  "is_err e t = (case e of None \<Rightarrow> False | Some x \<Rightarrow> errors_is x t)"

lemma is_err_None [simp]: "is_err None t = False"
  by (simp add: is_err_def)

lemma is_err_Some [simp]: "is_err (Some e) t = errors_is e t"
  by (simp add: is_err_def)

section \<open>Checked indexing\<close>

text \<open>\<^verbatim>\<open>data[i]\<close> panics out of range: \<^const>\<open>None\<close> is the panic.\<close>

definition byte_at :: "bytes \<Rightarrow> nat \<Rightarrow> byte option" where
  "byte_at d i = (if i < length d then Some (d ! i) else None)"

text \<open>\<^verbatim>\<open>data[lo:hi]\<close> panics unless \<^verbatim>\<open>lo <= hi <= len(data)\<close>.\<close>

definition slice :: "bytes \<Rightarrow> nat \<Rightarrow> nat \<Rightarrow> bytes option" where
  "slice d lo hi = (if lo \<le> hi \<and> hi \<le> length d then Some (take (hi - lo) (drop lo d)) else None)"

lemma byte_at_ok [simp]: "i < length d \<Longrightarrow> byte_at d i = Some (d ! i)"
  by (simp add: byte_at_def)

lemma slice_ok [simp]:
  "lo \<le> hi \<Longrightarrow> hi \<le> length d \<Longrightarrow> slice d lo hi = Some (take (hi - lo) (drop lo d))"
  by (simp add: slice_def)

section \<open>Big-endian integers\<close>

text \<open>
  \<^verbatim>\<open>binary.BigEndian.Uint16(data[i:i+2])\<close> and \<^verbatim>\<open>Uint32(data[i:i+4])\<close>, and the
  corresponding \<^verbatim>\<open>PutUint16\<close> and \<^verbatim>\<open>PutUint32\<close>; the offset of the sub-slice is the
  argument.  The callers check the length of the slice first.
\<close>

definition be16 :: "bytes \<Rightarrow> nat \<Rightarrow> u16" where
  "be16 d i = push_bit 8 (ucast (d ! i)) OR ucast (d ! (i + 1))"

definition be32 :: "bytes \<Rightarrow> nat \<Rightarrow> u32" where
  "be32 d i = push_bit 24 (ucast (d ! i)) OR push_bit 16 (ucast (d ! (i + 1)))
     OR push_bit 8 (ucast (d ! (i + 2))) OR ucast (d ! (i + 3))"

definition put_be16 :: "bytes \<Rightarrow> nat \<Rightarrow> u16 \<Rightarrow> bytes" where
  "put_be16 d i v = d[i := ucast (drop_bit 8 v), i + 1 := ucast v]"

definition put_be32 :: "bytes \<Rightarrow> nat \<Rightarrow> u32 \<Rightarrow> bytes" where
  "put_be32 d i v = d[i := ucast (drop_bit 24 v), i + 1 := ucast (drop_bit 16 v),
     i + 2 := ucast (drop_bit 8 v), i + 3 := ucast v]"

lemma length_put_be16 [simp, go_len]: "length (put_be16 d i v) = length d"
  by (simp add: put_be16_def)

lemma length_put_be32 [simp, go_len]: "length (put_be32 d i v) = length d"
  by (simp add: put_be32_def)

lemma be16_combine:
  "(push_bit 8 (ucast (ucast (drop_bit 8 v :: u16) :: byte)) OR ucast (ucast v :: byte)) = (v :: u16)"
  by (rule bit_word_eqI) (auto simp: bit_simps)

lemma be32_combine:
  "(push_bit 24 (ucast (ucast (drop_bit 24 v :: u32) :: byte))
     OR push_bit 16 (ucast (ucast (drop_bit 16 v) :: byte))
     OR push_bit 8 (ucast (ucast (drop_bit 8 v) :: byte)) OR ucast (ucast v :: byte)) = (v :: u32)"
proof (rule bit_word_eqI)
  fix n assume "n < LENGTH(32)"
  then consider "n < 8" | "8 \<le> n" "n < 16" | "16 \<le> n" "n < 24" | "24 \<le> n" "n < 32"
    by fastforce
  then show "bit (push_bit 24 (ucast (ucast (drop_bit 24 v :: u32) :: byte))
     OR push_bit 16 (ucast (ucast (drop_bit 16 v) :: byte))
     OR push_bit 8 (ucast (ucast (drop_bit 8 v) :: byte)) OR ucast (ucast v :: byte) :: u32) n = bit v n"
    by cases (auto simp: bit_simps)
qed

lemma be16_put_be16 [be_simps]: "i + 1 < length d \<Longrightarrow> be16 (put_be16 d i v) i = v"
  by (simp add: be16_def put_be16_def be16_combine)

lemma be32_put_be32 [be_simps]: "i + 3 < length d \<Longrightarrow> be32 (put_be32 d i v) i = v"
  by (simp add: be32_def put_be32_def be32_combine)

lemma nth_put_be16 [be_simps]:
  "k \<noteq> i \<Longrightarrow> k \<noteq> i + 1 \<Longrightarrow> put_be16 d i v ! k = d ! k"
  by (simp add: put_be16_def)

lemma nth_put_be32 [be_simps]:
  "k \<noteq> i \<Longrightarrow> k \<noteq> i + 1 \<Longrightarrow> k \<noteq> i + 2 \<Longrightarrow> k \<noteq> i + 3 \<Longrightarrow> put_be32 d i v ! k = d ! k"
  by (simp add: put_be32_def)

lemma unat_be16: "unat (be16 d i) = 256 * unat (d ! i) + unat (d ! (i + 1))"
proof -
  have "be16 d i = push_bit 8 (ucast (d ! i)) + ucast (d ! (i + 1))"
    unfolding be16_def
    by (rule disjunctive_add_eq_or [symmetric], rule bit_word_eqI)
      (auto simp: bit_simps dest: bit_imp_le_length)
  moreover have "unat (d ! i) < 256" "unat (d ! (i + 1)) < 256"
    using unsigned_less [of "d ! i"] unsigned_less [of "d ! (i + 1)"] by simp_all
  ultimately show ?thesis
    by (simp add: unat_word_ariths push_bit_eq_mult unsigned_ucast_eq take_bit_eq_mod)
qed

lemma take_put_be16: "i + 1 < n \<Longrightarrow> take n (put_be16 d i v) = put_be16 (take n d) i v"
  by (simp add: put_be16_def take_update_swap)

lemma take_put_be32: "i + 3 < n \<Longrightarrow> take n (put_be32 d i v) = put_be32 (take n d) i v"
  by (simp add: put_be32_def take_update_swap)

lemma nth_update_other [be_simps]: "k \<noteq> i \<Longrightarrow> xs[i := x] ! k = xs ! k"
  by simp

lemma ucast_u16_u32: "(ucast (x :: u16) :: u32) = word_of_nat (unat x)"
  by (rule of_nat_unat [symmetric])

lemma ucast_byte_u32: "(ucast (x :: byte) :: u32) = word_of_nat (unat x)"
  by (rule of_nat_unat [symmetric])

lemma unat_of_nat32: "n < 2 ^ 32 \<Longrightarrow> unat (word_of_nat n :: u32) = n"
  by (simp add: unsigned_of_nat take_bit_nat_eq_self)

lemma unat_byte_less: "unat (b :: byte) < 256"
  using unsigned_less [of b] by simp

lemma unat_u16_less: "unat (v :: u16) < 65536"
  using unsigned_less [of v] by simp

lemma unat_u32_less: "unat (v :: u32) < 4294967296"
  using unsigned_less [of v] by simp

lemma unat_not_u16: "unat (NOT x :: u16) = 65535 - unat x"
proof -
  have "NOT x = 65535 - x" by (simp add: not_eq_complement)
  moreover have "x \<le> 65535"
    unfolding word_le_nat_alt using unat_u16_less [of x] by simp
  ultimately show ?thesis by (simp add: unat_sub)
qed


section \<open>Decimal numerals, as \<^verbatim>\<open>%d\<close> prints them\<close>

definition digit_char :: "nat \<Rightarrow> char" where
  "digit_char d = char_of (48 + d)"

fun show_nat :: "nat \<Rightarrow> string" where
  "show_nat n = (if n < 10 then [digit_char n] else show_nat (n div 10) @ [digit_char (n mod 10)])"

declare show_nat.simps [simp del]

definition show_int :: "int \<Rightarrow> string" where
  "show_int i = (if i < 0 then ''-'' @ show_nat (nat (- i)) else show_nat (nat i))"

end
