(* ===== verification/ReassemblyCorrect.thy ===== *)
theory ReassemblyCorrect
  imports Reassembly
begin

text \<open>
  Correctness of the reassembly buffer: the representation invariant, the abstract map from
  stream offsets to bytes, and the refinement proof of \<^verbatim>\<open>Push\<close>.
\<close>

section \<open>Segments as intervals of naturals\<close>

definition soff :: "segment \<Rightarrow> nat" where
  "soff s = unat (offset s)"

definition sfin :: "segment \<Rightarrow> nat" where
  "sfin s = soff s + length (sdata s)"

text \<open>Sorted, pairwise separated by a gap, non-empty, and inside \<^term>\<open>{lo..<hi}\<close>.\<close>

definition segs_ok :: "nat \<Rightarrow> nat \<Rightarrow> segment list \<Rightarrow> bool" where
  "segs_ok lo hi ss \<longleftrightarrow> sorted_wrt (\<lambda>s t. sfin s < soff t) ss
     \<and> (\<forall>s\<in>set ss. lo \<le> soff s \<and> sdata s \<noteq> [] \<and> sfin s \<le> hi)"

fun smap :: "segment list \<Rightarrow> nat \<Rightarrow> byte option" where
  "smap [] i = None"
| "smap (s # ss) i = (if soff s \<le> i \<and> i < sfin s then Some (sdata s ! (i - soff s)) else smap ss i)"

definition seg_bytes :: "segment list \<Rightarrow> nat" where
  "seg_bytes ss = sum_list (map (\<lambda>s. length (sdata s)) ss)"

lemma seg_bytes_simps [simp]:
  "seg_bytes [] = 0"
  "seg_bytes (s # ss) = length (sdata s) + seg_bytes ss"
  "seg_bytes (xs @ ys) = seg_bytes xs + seg_bytes ys"
  by (simp_all add: seg_bytes_def)

lemma segs_ok_Nil [simp]: "segs_ok lo hi []"
  by (simp add: segs_ok_def)

lemma segs_ok_Cons:
  "segs_ok lo hi (s # ss) \<longleftrightarrow> lo \<le> soff s \<and> sdata s \<noteq> [] \<and> sfin s \<le> hi
     \<and> segs_ok (Suc (sfin s)) hi ss"
  by (auto simp: segs_ok_def sfin_def Suc_le_eq)

lemma segs_ok_append:
  "segs_ok lo hi (xs @ ys) \<longleftrightarrow> segs_ok lo hi xs \<and> segs_ok lo hi ys
     \<and> (\<forall>x\<in>set xs. \<forall>y\<in>set ys. sfin x < soff y)"
  by (auto simp: segs_ok_def sorted_wrt_append)

lemma segs_ok_mono: "segs_ok lo hi ss \<Longrightarrow> lo' \<le> lo \<Longrightarrow> hi \<le> hi' \<Longrightarrow> segs_ok lo' hi' ss"
  by (fastforce simp: segs_ok_def)

lemma segs_ok_bytes: "segs_ok lo hi ss \<Longrightarrow> lo \<le> hi \<Longrightarrow> lo + seg_bytes ss \<le> hi"
proof (induction ss arbitrary: lo)
  case (Cons s ss)
  then have s: "lo \<le> soff s" "sfin s \<le> hi" and ss: "segs_ok (sfin s) hi ss"
    by (auto simp: segs_ok_Cons intro: segs_ok_mono)
  have "sfin s + seg_bytes ss \<le> hi" using Cons.IH [OF ss] s by simp
  with s show ?case by (simp add: sfin_def)
qed simp

lemma smap_append:
  "smap (xs @ ys) i = (case smap xs i of None \<Rightarrow> smap ys i | Some v \<Rightarrow> Some v)"
  by (induction xs) auto

lemma smap_NoneI: "(\<And>s. s \<in> set ss \<Longrightarrow> \<not> (soff s \<le> i \<and> i < sfin s)) \<Longrightarrow> smap ss i = None"
  by (induction ss) auto

lemma smap_below: "segs_ok lo hi ss \<Longrightarrow> i < lo \<Longrightarrow> smap ss i = None"
  by (rule smap_NoneI) (auto simp: segs_ok_def)

lemma smap_above: "segs_ok lo hi ss \<Longrightarrow> hi \<le> i \<Longrightarrow> smap ss i = None"
  by (rule smap_NoneI) (auto simp: segs_ok_def)

lemma smap_SomeI: "s \<in> set ss \<Longrightarrow> soff s \<le> i \<Longrightarrow> i < sfin s \<Longrightarrow> smap ss i \<noteq> None"
  by (induction ss) auto

section \<open>Words and naturals\<close>

lemma unat_len32: "length d < 2 ^ 32 \<Longrightarrow> unat (len32 d) = length d"
  by (simp add: len32_def unat_of_nat32)

lemma unat_add32: "unat a + unat b < 2 ^ 32 \<Longrightarrow> unat (a + b :: u32) = unat a + unat b"
  by (simp add: unat_word_ariths)

lemma unat_diff32: "b \<le> a \<Longrightarrow> unat (a - b :: u32) = unat a - unat b"
  by (simp add: unat_sub)

lemma unat_seg_end:
  assumes "sfin s < 2 ^ 32"
  shows "unat (seg_end s) = sfin s"
proof -
  have "unat (len32 (sdata s)) = length (sdata s)"
    using assms by (intro unat_len32) (simp add: sfin_def)
  with assms show ?thesis
    by (simp add: seg_end_def sfin_def soff_def unat_add32)
qed

lemma seg_end_ok: "segs_ok lo hi ss \<Longrightarrow> hi < 2 ^ 32 \<Longrightarrow> s \<in> set ss \<Longrightarrow> unat (seg_end s) = sfin s"
  by (rule unat_seg_end) (auto simp: segs_ok_def)

lemma sum_len32:
  "(\<Sum>s\<leftarrow>ss. len32 (sdata s)) = word_of_nat (seg_bytes ss)"
  by (induction ss) (simp_all add: len32_def)

section \<open>The search and the loops\<close>

lemma sort_search_spec:
  assumes "i \<le> j" and mono: "\<And>k l. k \<le> l \<Longrightarrow> l < j \<Longrightarrow> f k \<Longrightarrow> f l"
  shows "i \<le> sort_search f i j \<and> sort_search f i j \<le> j
    \<and> (\<forall>k. i \<le> k \<and> k < sort_search f i j \<longrightarrow> \<not> f k)
    \<and> (\<forall>k. sort_search f i j \<le> k \<and> k < j \<longrightarrow> f k)"
  using assms
proof (induction f i j rule: sort_search.induct)
  case (1 f i j)
  let ?h = "(i + j) div 2"
  note eq = sort_search.simps [of f i j]
  consider (stop) "\<not> i < j" | (low) "i < j" "f ?h" | (high) "i < j" "\<not> f ?h" by blast
  then show ?case
  proof cases
    case stop
    then show ?thesis using "1.prems" eq by auto
  next
    case low
    then have h: "i \<le> ?h" "?h < j" by auto
    have r: "sort_search f i j = sort_search f i ?h" using low eq by (simp add: Let_def)
    have "f k" if "?h \<le> k" "k < j" for k
      using "1.prems"(2) [OF that] low by blast
    moreover have "i \<le> sort_search f i ?h \<and> sort_search f i ?h \<le> ?h
      \<and> (\<forall>k. i \<le> k \<and> k < sort_search f i ?h \<longrightarrow> \<not> f k)
      \<and> (\<forall>k. sort_search f i ?h \<le> k \<and> k < ?h \<longrightarrow> f k)"
      using "1.IH"(2) [OF low(1) refl] low(2) h "1.prems"(2) by force
    ultimately show ?thesis unfolding r using h by (metis leI less_imp_le order_trans)
  next
    case high
    then have h: "?h + 1 \<le> j" "i \<le> ?h" by auto
    have r: "sort_search f i j = sort_search f (?h + 1) j" using high eq by (simp add: Let_def)
    have "\<not> f k" if "k < ?h + 1" for k
      using "1.prems"(2) [of k ?h] high that h by fastforce
    moreover have "\<forall>k. ?h + 1 \<le> k \<and> k < sort_search f (?h + 1) j \<longrightarrow> \<not> f k"
      and "\<forall>k. sort_search f (?h + 1) j \<le> k \<and> k < j \<longrightarrow> f k"
      and "?h + 1 \<le> sort_search f (?h + 1) j" and "sort_search f (?h + 1) j \<le> j"
      using "1.IH"(1) [OF high(1) refl high(2)] h "1.prems"(2) by force+
    ultimately show ?thesis unfolding r using h(2) by (meson leI order_trans le_add1)
  qed
qed

lemma segs_ok_nth: "segs_ok lo hi ss \<Longrightarrow> k < l \<Longrightarrow> l < length ss \<Longrightarrow> sfin (ss ! k) < soff (ss ! l)"
  by (auto simp: segs_ok_def sorted_wrt_iff_nth_less)

lemma soff_le_sfin: "soff s \<le> sfin s"
  by (simp add: sfin_def)

lemma right_loop_spec:
  assumes "right_loop ss r ne = (r', ne')" "r \<le> length ss" "segs_ok lo hi ss" "hi < 2 ^ 32"
  shows "r \<le> r' \<and> r' \<le> length ss
    \<and> (\<forall>k. r \<le> k \<and> k < r' \<longrightarrow> soff (ss ! k) \<le> unat ne)
    \<and> (\<forall>k. r' \<le> k \<and> k < length ss \<longrightarrow> unat ne' < soff (ss ! k))
    \<and> unat ne' = (if r < r' then max (unat ne) (sfin (ss ! (r' - 1))) else unat ne)"
  using assms
proof (induction ss r ne arbitrary: r' ne' rule: right_loop.induct)
  case (1 ss r ne)
  let ?s = "ss ! r"
  let ?ne = "if seg_end ?s > ne then seg_end ?s else ne"
  note eq = right_loop.simps [of ss r ne]
  consider (stop) "r = length ss" | (beyond) "r < length ss" "offset ?s > ne"
    | (go) "r < length ss" "\<not> offset ?s > ne"
    using "1.prems"(2) by force
  then show ?case
  proof cases
    case stop
    with "1.prems" eq show ?thesis by auto
  next
    case beyond
    then have "r' = r" "ne' = ne" using "1.prems" eq by auto
    moreover have "unat ne < soff (ss ! k)" if "r \<le> k" "k < length ss" for k
      using segs_ok_nth [OF "1.prems"(3), of r k] soff_le_sfin [of ?s] beyond(2) that
      by (cases "k = r") (auto simp: soff_def word_less_nat_alt)
    ultimately show ?thesis using "1.prems"(2) by auto
  next
    case go
    then have here: "soff ?s \<le> unat ne"
      by (simp add: soff_def word_le_nat_alt not_less)
    have "unat (seg_end ?s) = sfin ?s"
      using "1.prems"(3,4) go(1) by (auto intro: seg_end_ok)
    then have ne: "unat ?ne = max (unat ne) (sfin ?s)"
      by (simp add: word_less_nat_alt)
    have "right_loop ss (r + 1) ?ne = (r', ne')"
      using "1.prems"(1) eq go by simp
    from "1.IH" [OF go this] "1.prems" go(1)
    have IH: "r + 1 \<le> r'" "r' \<le> length ss"
      and touch: "\<And>k. r + 1 \<le> k \<Longrightarrow> k < r' \<Longrightarrow> soff (ss ! k) \<le> max (unat ne) (sfin ?s)"
      and rest: "\<forall>k. r' \<le> k \<and> k < length ss \<longrightarrow> unat ne' < soff (ss ! k)"
      and val: "unat ne' = (if r + 1 < r' then max (max (unat ne) (sfin ?s)) (sfin (ss ! (r' - 1)))
                            else max (unat ne) (sfin ?s))"
      unfolding ne by auto
    have "soff (ss ! k) \<le> unat ne" if "r \<le> k" "k < r'" for k
      using touch [of k] segs_ok_nth [OF "1.prems"(3), of r k] IH here that
      by (cases "k = r") auto
    moreover have "unat ne' = max (unat ne) (sfin (ss ! (r' - 1)))"
    proof (cases "r + 1 < r'")
      case True
      then have "sfin ?s \<le> sfin (ss ! (r' - 1))"
        using segs_ok_nth [OF "1.prems"(3), of r "r' - 1"] soff_le_sfin [of "ss ! (r' - 1)"] IH
        by linarith
      with True val show ?thesis by simp
    next
      case False
      then have "r' - 1 = r" using IH by simp
      with False val show ?thesis by simp
    qed
    ultimately show ?thesis using IH rest by auto
  qed
qed

lemma length_copy_at: "k + length src \<le> length dst \<Longrightarrow> length (copy_at dst k src) = length dst"
  by (simp add: copy_at_def)

lemma nth_copy_at:
  assumes "k + length src \<le> length dst" "i < length dst"
  shows "copy_at dst k src ! i = (if k \<le> i \<and> i < k + length src then src ! (i - k) else dst ! i)"
  using assms by (auto simp: copy_at_def nth_append min_def)

lemma copy_segs_spec:
  assumes "segs_ok (unat ns) (unat ns + length m) ss" "unat ns + length m < 2 ^ 32"
  shows "length (copy_segs ss ns m) = length m \<and> (\<forall>i < length m. copy_segs ss ns m ! i
           = (case smap ss (unat ns + i) of Some v \<Rightarrow> v | None \<Rightarrow> m ! i))"
  using assms
proof (induction ss ns m rule: copy_segs.induct)
  case (1 s ss ns m)
  let ?k = "unat (offset s - ns)" and ?m = "copy_at m (unat (offset s - ns)) (sdata s)"
  have s: "unat ns \<le> soff s" "sfin s \<le> unat ns + length m"
    and ss: "segs_ok (Suc (sfin s)) (unat ns + length m) ss"
    using "1.prems"(1) by (auto simp: segs_ok_Cons)
  have k: "?k = soff s - unat ns"
    using s(1) by (simp add: soff_def unat_diff32 word_le_nat_alt)
  have fits: "?k + length (sdata s) \<le> length m"
    using s k by (simp add: sfin_def)
  have len: "length ?m = length m" using fits by (rule length_copy_at)
  have IH: "length (copy_segs ss ns ?m) = length m" "\<And>i. i < length m \<Longrightarrow>
      copy_segs ss ns ?m ! i = (case smap ss (unat ns + i) of Some v \<Rightarrow> v | None \<Rightarrow> ?m ! i)"
    using "1.IH" "1.prems"(2) segs_ok_mono [OF ss, of "unat ns" "unat ns + length m"] s soff_le_sfin [of s]
    unfolding len by auto
  have "copy_segs ss ns ?m ! i = (case smap (s # ss) (unat ns + i) of Some v \<Rightarrow> v | None \<Rightarrow> m ! i)"
    if i: "i < length m" for i
  proof (cases "soff s \<le> unat ns + i \<and> unat ns + i < sfin s")
    case True
    then have "smap ss (unat ns + i) = None" by (intro smap_below [OF ss]) simp
    moreover have "?m ! i = sdata s ! (unat ns + i - soff s)"
      using True i fits k s by (auto simp: nth_copy_at sfin_def add.commute [of i])
    ultimately show ?thesis using True by (simp add: IH(2) [OF i])
  next
    case False
    then have "?m ! i = m ! i"
      using i fits k s by (auto simp: nth_copy_at sfin_def)
    with False show ?thesis by (auto simp: IH(2) [OF i] split: option.split)
  qed
  with IH show ?case by simp
qed simp

lemma compact_loop_spec:
  assumes "compact_loop ss c cl = (ss', c', cl')" "segs_ok (length c) hi ss" "hi < 2 ^ 32"
    "length c \<le> hi" "unat cl = length c"
  shows "unat cl' = length c' \<and> segs_ok (Suc (length c')) hi ss' \<and> length c' \<le> hi
    \<and> length c' + seg_bytes ss' = length c + seg_bytes ss
    \<and> (\<forall>i. (if i < length c' then Some (c' ! i) else smap ss' i)
          = (if i < length c then Some (c ! i) else smap ss i))"
  using assms
proof (induction ss c cl rule: compact_loop.induct)
  case (1 s ss c cl)
  show ?case
  proof (cases "offset s = cl")
    case True
    then have at: "soff s = length c" using "1.prems"(5) by (simp add: soff_def)
    have s: "sfin s \<le> hi" "segs_ok (Suc (sfin s)) hi ss"
      using "1.prems"(2) by (auto simp: segs_ok_Cons)
    have fin: "sfin s = length (c @ sdata s)" using at by (simp add: sfin_def)
    have "unat (len32 (sdata s)) = length (sdata s)"
      using s(1) fin "1.prems"(3) by (intro unat_len32) simp
    then have "unat (cl + len32 (sdata s)) = length (c @ sdata s)"
      using "1.prems"(3,5) s(1) fin by (simp add: unat_add32)
    moreover have "segs_ok (length (c @ sdata s)) hi ss"
      using s(2) fin by (auto intro: segs_ok_mono)
    ultimately have IH: "unat cl' = length c' \<and> segs_ok (Suc (length c')) hi ss' \<and> length c' \<le> hi
      \<and> length c' + seg_bytes ss' = length (c @ sdata s) + seg_bytes ss
      \<and> (\<forall>i. (if i < length c' then Some (c' ! i) else smap ss' i)
          = (if i < length (c @ sdata s) then Some ((c @ sdata s) ! i) else smap ss i))"
      using "1.IH" True "1.prems" s(1) fin by simp
    moreover have "(if i < length (c @ sdata s) then Some ((c @ sdata s) ! i) else smap ss i)
        = (if i < length c then Some (c ! i) else smap (s # ss) i)" for i
      using at fin by (auto simp: nth_append sfin_def)
    ultimately show ?thesis by simp
  next
    case False
    then have "soff s \<noteq> length c"
      using "1.prems"(5) by (metis soff_def unsigned_word_eqI)
    then show ?thesis using "1.prems" False by (auto simp: segs_ok_Cons)
  qed
next
  case (2 c cl)
  then show ?case by auto
qed

section \<open>Replacing the touched segments by one block\<close>

text \<open>
  The geometry of the insertion, over naturals: the segments split into those before the
  fragment \<^term>\<open>{x..<e}\<close>, the run it touches and those after; the block that replaces the
  run covers the fragment and the run, and nothing else.
\<close>

definition run_start :: "nat \<Rightarrow> segment list \<Rightarrow> nat" where
  "run_start x M = (if M \<noteq> [] \<and> soff (hd M) < x then soff (hd M) else x)"

definition run_fin :: "nat \<Rightarrow> segment list \<Rightarrow> nat" where
  "run_fin e M = (if M \<noteq> [] then max e (sfin (last M)) else e)"

definition touches :: "nat \<Rightarrow> nat \<Rightarrow> segment list \<Rightarrow> segment list \<Rightarrow> segment list \<Rightarrow> bool" where
  "touches x e A M B \<longleftrightarrow> (\<forall>s\<in>set A. sfin s < x) \<and> (\<forall>s\<in>set M. x \<le> sfin s \<and> soff s \<le> e)
     \<and> (\<forall>s\<in>set B. run_fin e M < soff s)"

lemma run_bounds:
  assumes ok: "segs_ok lo hi (A @ M @ B)" and t: "touches x e A M B"
    and x: "lo \<le> x" "x < e" "e \<le> hi"
  shows "lo \<le> run_start x M" "run_start x M \<le> x" "e \<le> run_fin e M" "run_fin e M \<le> hi"
    and "segs_ok (run_start x M) (run_fin e M) M"
proof -
  have M: "segs_ok lo hi M" using ok by (simp add: segs_ok_append)
  show "lo \<le> run_start x M" "run_start x M \<le> x" "e \<le> run_fin e M" "run_fin e M \<le> hi"
    using M x by (auto simp: run_start_def run_fin_def segs_ok_def)
  show "segs_ok (run_start x M) (run_fin e M) M"
  proof (cases M rule: rev_cases)
    case (snoc M' l)
    have first: "run_start x M \<le> soff s" if "s \<in> set M" for s
    proof (cases M)
      case (Cons h M'')
      with M that have "soff h \<le> soff s"
        by (fastforce simp: segs_ok_Cons segs_ok_def sfin_def)
      with Cons show ?thesis by (simp add: run_start_def)
    qed (use that in simp)
    have last: "sfin s \<le> sfin l" if "s \<in> set M" for s
      using M that snoc by (fastforce simp: segs_ok_append sfin_def)
    have "sfin s \<le> run_fin e M" if "s \<in> set M" for s
      using last [OF that] snoc by (simp add: run_fin_def)
    with first M show ?thesis by (simp add: segs_ok_def)
  qed simp
qed

lemma run_covered:
  assumes ok: "segs_ok lo hi (A @ M @ B)" and t: "touches x e A M B" and "x < e"
    and i: "run_start x M \<le> i" "i < run_fin e M" "\<not> (x \<le> i \<and> i < e)"
  shows "smap M i \<noteq> None"
proof (cases "i < x")
  case True
  with i have M: "M \<noteq> []" "run_start x M = soff (hd M)" by (auto simp: run_start_def split: if_splits)
  then have "x \<le> sfin (hd M)" using t by (auto simp: touches_def)
  with True i M show ?thesis by (intro smap_SomeI [of "hd M"]) auto
next
  case False
  with i have M: "M \<noteq> []" "e \<le> i" "i < sfin (last M)" by (auto simp: run_fin_def split: if_splits)
  then have "soff (last M) \<le> e" using t by (auto simp: touches_def)
  with M show ?thesis by (intro smap_SomeI [of "last M"]) auto
qed

lemma replace_run:
  assumes ok: "segs_ok lo hi (A @ M @ B)" and t: "touches x e A M B"
    and x: "lo \<le> x" "x < e" "e \<le> hi"
    and new: "soff new = run_start x M" "sfin new = run_fin e M"
    and content: "\<And>i. run_start x M \<le> i \<Longrightarrow> i < run_fin e M \<Longrightarrow> sdata new ! (i - soff new)
        = (if x \<le> i \<and> i < e then p ! (i - x) else case smap M i of Some v \<Rightarrow> v | None \<Rightarrow> 0)"
  shows "segs_ok lo hi (A @ new # B)"
    and "smap (A @ new # B) i = (if x \<le> i \<and> i < e then Some (p ! (i - x)) else smap (A @ M @ B) i)"
proof -
  note b = run_bounds [OF ok t x]
  have A: "segs_ok lo hi A" "\<And>s. s \<in> set A \<Longrightarrow> sfin s < x"
    and B: "segs_ok lo hi B" "\<And>s. s \<in> set B \<Longrightarrow> run_fin e M < soff s"
    using ok t by (auto simp: segs_ok_append touches_def)
  have len: "sdata new \<noteq> []" using new b x by (auto simp: sfin_def)
  have A_new: "sfin s < run_start x M" if "s \<in> set A" for s
  proof (cases "M \<noteq> [] \<and> soff (hd M) < x")
    case True
    then have "sfin s < soff (hd M)" using ok that by (auto simp: segs_ok_append)
    with True show ?thesis by (simp add: run_start_def)
  qed (use A(2) [OF that] in \<open>auto simp: run_start_def\<close>)
  have "sfin s < soff s'" if "s \<in> set A" "s' \<in> set B" for s s'
    using ok that by (auto simp: segs_ok_append)
  with A B A_new len new b show "segs_ok lo hi (A @ new # B)"
    by (auto simp: segs_ok_def sorted_wrt_append)
  show "smap (A @ new # B) i = (if x \<le> i \<and> i < e then Some (p ! (i - x)) else smap (A @ M @ B) i)"
  proof (cases "run_start x M \<le> i \<and> i < run_fin e M")
    case True
    then have "smap A i = None" using A_new by (intro smap_NoneI) fastforce
    moreover have "smap B i = None" using True B(2) by (intro smap_NoneI) fastforce
    moreover have "x \<le> i \<and> i < e \<or> smap M i \<noteq> None"
      using run_covered [OF ok t x(2)] True by blast
    ultimately show ?thesis using True new content [of i]
      by (auto simp: smap_append split: option.splits)
  next
    case False
    then have "smap M i = None"
      using smap_below [OF b(5)] smap_above [OF b(5)] by (metis leI)
    moreover have "\<not> (x \<le> i \<and> i < e)" using False b by auto
    ultimately show ?thesis using False new by (auto simp: smap_append split: option.splits)
  qed
qed

section \<open>The invariant and the abstraction\<close>

definition abs_buf :: "buffer \<Rightarrow> nat \<Rightarrow> byte option" where
  "abs_buf b i = (if i < length (contig b) then Some (contig b ! i) else smap (segments b) i)"

text \<open>
  The invariant: \<^verbatim>\<open>contigLen\<close> is the length of the prefix, every separate segment lies
  beyond a gap, everything lies inside the window, and \<^verbatim>\<open>totalBytes\<close> counts what is held.
\<close>

definition buf_inv :: "buffer \<Rightarrow> bool" where
  "buf_inv b \<longleftrightarrow> unat (contigLen b) = length (contig b)
     \<and> length (contig b) \<le> unat (maxBytes b)
     \<and> segs_ok (Suc (length (contig b))) (unat (maxBytes b)) (segments b)
     \<and> unat (totalBytes b) = length (contig b) + seg_bytes (segments b)"

lemma max_lt: "unat (maxBytes b) < 2 ^ 32"
  using unat_u32_less [of "maxBytes b"] by simp

lemma search_split:
  assumes ok: "segs_ok lo hi ss"
    and i: "i = sort_search (\<lambda>k. offset (ss ! k) \<ge> off) 0 (length ss)"
  shows "i \<le> length ss" "k < i \<Longrightarrow> soff (ss ! k) < unat off"
    "i \<le> k \<Longrightarrow> k < length ss \<Longrightarrow> unat off \<le> soff (ss ! k)"
proof -
  have mono: "offset (ss ! l) \<ge> off" if "k \<le> l" "l < length ss" "offset (ss ! k) \<ge> off" for k l
    using segs_ok_nth [OF ok, of k l] soff_le_sfin [of "ss ! k"] that
    by (cases "k = l") (auto simp: word_le_nat_alt soff_def)
  have spec: "0 \<le> i \<and> i \<le> length ss \<and> (\<forall>k. 0 \<le> k \<and> k < i \<longrightarrow> \<not> off \<le> offset (ss ! k))
      \<and> (\<forall>k. i \<le> k \<and> k < length ss \<longrightarrow> off \<le> offset (ss ! k))"
    unfolding i by (rule sort_search_spec) (use mono in auto)
  show "i \<le> length ss" using spec by blast
  show "soff (ss ! k) < unat off" if "k < i"
    using spec that by (simp add: soff_def word_le_nat_alt not_le)
  show "unat off \<le> soff (ss ! k)" if "i \<le> k" "k < length ss"
    using spec that by (simp add: soff_def word_le_nat_alt)
qed

text \<open>The split of the segment list that the search and the loop of \<^verbatim>\<open>Push\<close> compute.\<close>

lemma push_split:
  assumes ok: "segs_ok lo hi ss" and hi: "hi < 2 ^ 32" and e: "unat off + length p \<le> hi"
    and i: "i = sort_search (\<lambda>k. offset (ss ! k) \<ge> off) 0 (length ss)"
    and left: "left = (if i > 0 \<and> seg_end (ss ! (i - 1)) \<ge> off then i - 1 else i)"
    and ne1: "ne1 = (if left < i \<and> seg_end (ss ! left) > off + len32 p then seg_end (ss ! left)
                    else off + len32 p)"
    and right: "right_loop ss i ne1 = (right, ne)"
  defines "A \<equiv> take left ss" and "M \<equiv> take (right - left) (drop left ss)" and "B \<equiv> drop right ss"
  shows "ss = A @ M @ B" "left \<le> right" "right \<le> length ss"
    "touches (unat off) (unat off + length p) A M B"
    "unat (if left < i \<and> offset (ss ! left) < off then offset (ss ! left) else off)
       = run_start (unat off) M"
    "unat ne = run_fin (unat off + length p) M"
    "(right > left) = (M \<noteq> [])"
proof -
  let ?x = "unat off" and ?e = "unat off + length p"
  note il = search_split(1) [OF ok i] and low = search_split(2) [OF ok i]
    and high = search_split(3) [OF ok i]
  have en: "unat (seg_end (ss ! k)) = sfin (ss ! k)" if "k < length ss" for k
    using seg_end_ok [OF ok hi] that by simp
  have e32: "unat (off + len32 p) = ?e"
    using e hi by (simp add: unat_add32 unat_len32)
  have li: "left \<le> i" "i \<le> left + 1" unfolding left by auto
  have left_touch: "?x \<le> sfin (ss ! left)" if "left < i"
    using that left en il by (auto simp: word_le_nat_alt split: if_splits)
  have before: "sfin (ss ! k) < ?x" if "k < left" for k
  proof (cases "left < i")
    case True
    then show ?thesis using segs_ok_nth [OF ok that] low [of left] il by linarith
  next
    case False
    then have l: "left = i" "i > 0" using li that by auto
    then have last: "sfin (ss ! (i - 1)) < ?x"
      using left en [of "i - 1"] il by (auto simp: word_le_nat_alt not_le split: if_splits)
    have "k = i - 1 \<or> sfin (ss ! k) < soff (ss ! (i - 1))"
      using segs_ok_nth [OF ok, of k "i - 1"] that l il by linarith
    with last soff_le_sfin [of "ss ! (i - 1)"] show ?thesis by auto
  qed
  have ne1': "unat ne1 = (if left < i then max ?e (sfin (ss ! left)) else ?e)"
    unfolding ne1 using e32 en il by (auto simp: word_less_nat_alt max_def)
  from right_loop_spec [OF right il ok hi]
  have r: "i \<le> right" "right \<le> length ss"
    and in_run: "\<And>k. i \<le> k \<Longrightarrow> k < right \<Longrightarrow> soff (ss ! k) \<le> unat ne1"
    and past: "\<And>k. right \<le> k \<Longrightarrow> k < length ss \<Longrightarrow> unat ne < soff (ss ! k)"
    and ne: "unat ne = (if i < right then max (unat ne1) (sfin (ss ! (right - 1))) else unat ne1)"
    by blast+
  show "left \<le> right" "right \<le> length ss" using li r by auto
  show ss: "ss = A @ M @ B"
    unfolding A_def M_def B_def using li r
    by (metis append_take_drop_id append_assoc drop_drop le_add_diff_inverse2 order_trans take_add
        add.commute)
  have lenM: "length M = right - left" unfolding M_def using r li by simp
  have nthM: "M ! k = ss ! (left + k)" if "k < length M" for k
    using that lenM li r unfolding M_def by simp
  have gt: "M \<noteq> [] \<Longrightarrow> left < right" using lenM by (cases M) auto
  then show "(right > left) = (M \<noteq> [])" using lenM by auto
  have run: "?x \<le> sfin (ss ! k) \<and> soff (ss ! k) \<le> ?e" if "left \<le> k" "k < right" for k
  proof (cases "k < i")
    case True
    then have "k = left" "left < i" using li that by auto
    then show ?thesis using left_touch low [of k] by simp
  next
    case False
    then have k: "i \<le> k" "k < length ss" using that r by auto
    have "soff (ss ! k) \<le> ?e"
    proof (cases "left < i")
      case True
      then show ?thesis
        using in_run [OF k(1) that(2)] ne1' segs_ok_nth [OF ok, of left k] k by auto
    qed (use in_run [OF k(1) that(2)] ne1' in simp)
    with high [OF k] soff_le_sfin [of "ss ! k"] show ?thesis by linarith
  qed
  have lastM: "M \<noteq> [] \<Longrightarrow> last M = ss ! (right - 1)"
    using nthM [of "length M - 1"] lenM gt by (simp add: last_conv_nth)
  have hdM: "M \<noteq> [] \<Longrightarrow> hd M = ss ! left"
    using nthM [of 0] by (simp add: hd_conv_nth)
  show ne': "unat ne = run_fin ?e M"
  proof (cases "M = []")
    case True
    then have "right = left" "left = i" using lenM li r by auto
    then show ?thesis using True ne ne1' by (simp add: run_fin_def)
  next
    case False
    have "left < i \<Longrightarrow> i < right \<Longrightarrow> sfin (ss ! left) \<le> sfin (ss ! (right - 1))"
      using segs_ok_nth [OF ok, of left "right - 1"] soff_le_sfin [of "ss ! (right - 1)"] r li
      by linarith
    moreover have "\<not> i < right \<Longrightarrow> left < i \<and> right - 1 = left"
      using gt [OF False] li r by auto
    ultimately show ?thesis
      using False lastM ne ne1' by (auto simp: run_fin_def max_def)
  qed
  show "unat (if left < i \<and> offset (ss ! left) < off then offset (ss ! left) else off)
       = run_start ?x M"
  proof (cases "left < i")
    case True
    then have "M \<noteq> []" using lenM r by auto
    with True hdM low [of left] show ?thesis
      by (auto simp: run_start_def soff_def word_less_nat_alt)
  next
    case False
    then have "left = i" using li by simp
    then have "\<not> (M \<noteq> [] \<and> soff (hd M) < ?x)" using hdM gt high [of i] r by auto
    with False show ?thesis by (simp add: run_start_def)
  qed
  have "\<forall>s\<in>set A. sfin s < ?x"
    unfolding A_def using before li r by (auto simp: in_set_conv_nth)
  moreover have "\<forall>s\<in>set M. ?x \<le> sfin s \<and> soff s \<le> ?e"
    using run nthM lenM by (auto simp: in_set_conv_nth)
  moreover have "\<forall>s\<in>set B. run_fin ?e M < soff s"
    unfolding B_def using past ne' by (auto simp: in_set_conv_nth)
  ultimately show "touches ?x ?e A M B" by (simp add: touches_def)
qed

text \<open>The content of the merged block: the fragment over the touched segments.\<close>

lemma merged_content:
  assumes M: "segs_ok (unat ns) (unat ne) M" and le: "unat ns \<le> unat off"
    "unat off + length p \<le> unat ne"
  defines "m \<equiv> copy_at (copy_segs M ns (replicate (unat (ne - ns)) 0)) (unat (off - ns)) p"
  shows "length m = unat ne - unat ns"
    and "unat ns \<le> i \<Longrightarrow> i < unat ne \<Longrightarrow> m ! (i - unat ns)
      = (if unat off \<le> i \<and> i < unat off + length p then p ! (i - unat off)
         else case smap M i of Some v \<Rightarrow> v | None \<Rightarrow> 0)"
proof -
  let ?c = "copy_segs M ns (replicate (unat (ne - ns)) 0)"
  have n: "unat (ne - ns) = unat ne - unat ns" "unat (off - ns) = unat off - unat ns"
    using le by (simp_all add: unat_diff32 word_le_nat_alt)
  have "segs_ok (unat ns) (unat ns + length (replicate (unat (ne - ns)) (0 :: byte))) M"
    using M le by (simp add: n)
  from copy_segs_spec [OF this] have c: "length ?c = unat ne - unat ns"
    "\<And>k. k < unat ne - unat ns \<Longrightarrow>
       ?c ! k = (case smap M (unat ns + k) of Some v \<Rightarrow> v | None \<Rightarrow> 0)"
    using le unat_u32_less [of ne] by (auto simp: n split: option.split)
  have fits: "unat (off - ns) + length p \<le> length ?c" unfolding c(1) using le n by simp
  show "length m = unat ne - unat ns"
    unfolding m_def using length_copy_at [OF fits] c(1) by simp
  show "m ! (i - unat ns)
      = (if unat off \<le> i \<and> i < unat off + length p then p ! (i - unat off)
         else case smap M i of Some v \<Rightarrow> v | None \<Rightarrow> 0)"
    if i: "unat ns \<le> i" "i < unat ne"
    using nth_copy_at [OF fits, of "i - unat ns"] i le c
    by (auto simp: m_def n)
qed

text \<open>The bytes the fragment puts into the abstract stream.\<close>

definition put_bytes :: "nat \<Rightarrow> bytes \<Rightarrow> (nat \<Rightarrow> byte option) \<Rightarrow> nat \<Rightarrow> byte option" where
  "put_bytes x p f i = (if x \<le> i \<and> i < x + length p then Some (p ! (i - x)) else f i)"

lemma abs_contig_segs:
  assumes "length (contig b) \<le> x" and "\<And>i. smap ss i = put_bytes x p (smap (segments b)) i"
  shows "(if i < length (contig b) then Some (contig b ! i) else smap ss i)
    = put_bytes x p (abs_buf b) i"
  using assms by (auto simp: put_bytes_def abs_buf_def)

lemma compact_spec:
  assumes "segs_ok (length (contig b)) (unat (maxBytes b)) (segments b)"
    and "length (contig b) \<le> unat (maxBytes b)" and "unat (contigLen b) = length (contig b)"
    and "unat (totalBytes b) = length (contig b) + seg_bytes (segments b)"
  shows "buf_inv (compact b)" "abs_buf (compact b) = abs_buf b"
    "baseSeq (compact b) = baseSeq b" "maxBytes (compact b) = maxBytes b"
    "hadOverlap (compact b) = hadOverlap b" "hadOutOfOrder (compact b) = hadOutOfOrder b"
proof -
  obtain ss c cl where e: "compact_loop (segments b) (contig b) (contigLen b) = (ss, c, cl)"
    by (metis prod_cases3)
  note spec = compact_loop_spec [OF e assms(1) max_lt assms(2,3)]
  show "abs_buf (compact b) = abs_buf b"
  proof
    fix i
    have "(if i < length c then Some (c ! i) else smap ss i)
      = (if i < length (contig b) then Some (contig b ! i) else smap (segments b) i)"
      using spec by blast
    moreover have "contig (compact b) = c" "segments (compact b) = ss"
      by (simp_all add: compact_def e)
    ultimately show "abs_buf (compact b) i = abs_buf b i"
      by (simp only: abs_buf_def)
  qed
  show "buf_inv (compact b)" "baseSeq (compact b) = baseSeq b" "maxBytes (compact b) = maxBytes b"
    "hadOverlap (compact b) = hadOverlap b" "hadOutOfOrder (compact b) = hadOutOfOrder b"
    using spec assms(4) by (auto simp: compact_def e buf_inv_def)
qed

lemma push_segment_spec:
  assumes inv: "buf_inv b" and p: "p \<noteq> []"
    and lo: "length (contig b) \<le> unat off" and hi: "unat off + length p \<le> unat (maxBytes b)"
  shows "fst (push_segment b off p) = None \<and> buf_inv (snd (push_segment b off p))
    \<and> abs_buf (snd (push_segment b off p)) = put_bytes (unat off) p (abs_buf b)
    \<and> baseSeq (snd (push_segment b off p)) = baseSeq b
    \<and> maxBytes (snd (push_segment b off p)) = maxBytes b
    \<and> hadOutOfOrder (snd (push_segment b off p)) = hadOutOfOrder b
    \<and> (hadOverlap b \<longrightarrow> hadOverlap (snd (push_segment b off p)))"
proof -
  define ss where "ss = segments b"
  define i where "i = sort_search (\<lambda>k. offset (ss ! k) \<ge> off) 0 (length ss)"
  define left where "left = (if i > 0 \<and> seg_end (ss ! (i - 1)) \<ge> off then i - 1 else i)"
  define ns where "ns = (if left < i \<and> offset (ss ! left) < off then offset (ss ! left) else off)"
  define ne1 where "ne1 = (if left < i \<and> seg_end (ss ! left) > off + len32 p
    then seg_end (ss ! left) else off + len32 p)"
  obtain right ne where rl: "right_loop ss i ne1 = (right, ne)" by fastforce
  define A M B where "A = take left ss" and "M = take (right - left) (drop left ss)"
    and "B = drop right ss"
  define m where "m = copy_at (copy_segs M ns (replicate (unat (ne - ns)) 0)) (unat (off - ns)) p"
  define new where "new = \<lparr>offset = ns, sdata = m\<rparr>"
  define total where "total = totalBytes b - (\<Sum>s\<leftarrow>M. len32 (sdata s)) + (ne - ns)"
  let ?b = "(if right > left then b\<lparr>hadOverlap := True\<rparr> else b)"
  have code: "push_segment b off p = (if total > maxBytes b then (Some ErrBufferFull, ?b)
      else (None, compact (?b\<lparr>segments := A @ [new] @ B, totalBytes := total\<rparr>)))"
    unfolding push_segment_def Let_def ss_def [symmetric] i_def [symmetric] left_def [symmetric]
      ns_def [symmetric] ne1_def [symmetric] rl prod.case total_def new_def m_def A_def M_def B_def
    by (rule refl)
  have I: "unat (contigLen b) = length (contig b)" "length (contig b) \<le> unat (maxBytes b)"
    "segs_ok (Suc (length (contig b))) (unat (maxBytes b)) ss"
    "unat (totalBytes b) = length (contig b) + seg_bytes ss"
    using inv by (simp_all add: buf_inv_def ss_def)
  have ok: "segs_ok (length (contig b)) (unat (maxBytes b)) ss"
    using I(3) by (rule segs_ok_mono) auto
  note sp = push_split [OF ok max_lt hi i_def left_def ne1_def rl, folded A_def M_def B_def ns_def]
  have x: "unat off < unat off + length p" using p by simp
  have ok': "segs_ok (length (contig b)) (unat (maxBytes b)) (A @ M @ B)" using ok sp(1) by simp
  note rb = run_bounds [OF ok' sp(4) lo x hi, folded sp(5,6)]
  note mc = merged_content [OF rb(5) rb(2,3), folded m_def]
  have new: "soff new = run_start (unat off) M" "sfin new = run_fin (unat off + length p) M"
    using rb mc(1) sp(5,6) by (simp_all add: soff_def sfin_def new_def)
  note rr = replace_run [OF ok' sp(4) lo x hi new, of p]
  have content: "\<And>k. run_start (unat off) M \<le> k \<Longrightarrow> k < run_fin (unat off + length p) M \<Longrightarrow>
      sdata new ! (k - soff new) = (if unat off \<le> k \<and> k < unat off + length p
        then p ! (k - unat off) else case smap M k of Some v \<Rightarrow> v | None \<Rightarrow> 0)"
    using mc(2) sp(5,6) new by (simp add: new_def)
  have ok2: "segs_ok (length (contig b)) (unat (maxBytes b)) (A @ [new] @ B)"
    using rr(1) content by simp
  have "totalBytes b = word_of_nat (length (contig b) + seg_bytes ss)"
    using I(4) by (metis of_nat_unat ucast_id)
  then have tot: "total = word_of_nat (length (contig b) + seg_bytes (A @ [new] @ B))"
    using rb mc(1) sp(1) by (simp add: total_def sum_len32 new_def)
  have bound: "length (contig b) + seg_bytes (A @ [new] @ B) \<le> unat (maxBytes b)"
    by (rule segs_ok_bytes [OF ok2 I(2)])
  have ut: "unat total = length (contig b) + seg_bytes (A @ [new] @ B)"
    unfolding tot using bound max_lt [of b] by (intro unat_of_nat32) linarith
  then have fits: "\<not> total > maxBytes b" using bound by (simp add: word_less_nat_alt)
  define b' where "b' = ?b\<lparr>segments := A @ [new] @ B, totalBytes := total\<rparr>"
  have b': "contig b' = contig b" "contigLen b' = contigLen b" "maxBytes b' = maxBytes b"
    "segments b' = A @ [new] @ B" "totalBytes b' = total" "baseSeq b' = baseSeq b"
    "hadOutOfOrder b' = hadOutOfOrder b" "hadOverlap b \<Longrightarrow> hadOverlap b'"
    by (simp_all add: b'_def)
  have "smap (A @ [new] @ B) k = put_bytes (unat off) p (smap (segments b)) k" for k
    using rr(2) content sp(1) by (simp add: put_bytes_def ss_def)
  from abs_contig_segs [OF lo this]
  have "abs_buf b' = put_bytes (unat off) p (abs_buf b)"
    by (intro ext) (simp only: abs_buf_def [of b'] b')
  then show ?thesis
    using compact_spec [of b'] ok2 I ut fits b' unfolding code b'_def [symmetric] by simp
qed

section \<open>Push as a whole\<close>

text \<open>
  The abstract \<^verbatim>\<open>Push\<close>: bytes at or beyond the frontier are written, bytes before it
  are kept.
\<close>

definition stream_put :: "nat \<Rightarrow> nat \<Rightarrow> bytes \<Rightarrow> (nat \<Rightarrow> byte option) \<Rightarrow> nat \<Rightarrow> byte option" where
  "stream_put front x p f i = (if front \<le> i \<and> x \<le> i \<and> i < x + length p
     then Some (p ! (i - x)) else f i)"

definition push_at :: "buffer \<Rightarrow> u32 \<Rightarrow> nat" where
  "push_at b sq = unat (sq - baseSeq b)"

text \<open>What a call that does not fail establishes, and what a call that fails preserves.\<close>

definition push_ok :: "buffer \<Rightarrow> nat \<Rightarrow> bytes \<Rightarrow> buffer \<Rightarrow> bool" where
  "push_ok b x p b' \<longleftrightarrow> buf_inv b' \<and> baseSeq b' = baseSeq b \<and> maxBytes b' = maxBytes b
     \<and> abs_buf b' = stream_put (length (contig b)) x p (abs_buf b)"

definition same_content :: "buffer \<Rightarrow> buffer \<Rightarrow> bool" where
  "same_content b b' \<longleftrightarrow> baseSeq b' = baseSeq b \<and> maxBytes b' = maxBytes b
     \<and> contig b' = contig b \<and> contigLen b' = contigLen b \<and> segments b' = segments b
     \<and> totalBytes b' = totalBytes b"

lemma same_content_inv: "same_content b b' \<Longrightarrow> buf_inv b \<Longrightarrow> buf_inv b' \<and> abs_buf b' = abs_buf b"
  by (auto simp: same_content_def buf_inv_def abs_buf_def fun_eq_iff)

lemma put_bytes_stream:
  "front \<le> x \<Longrightarrow> put_bytes x p f = stream_put front x p f"
  by (auto simp: put_bytes_def stream_put_def fun_eq_iff)

lemma stream_put_drop:
  "x \<le> front \<Longrightarrow> front \<le> x + length p \<Longrightarrow>
    stream_put front front (drop (front - x) p) f = stream_put front x p f"
  by (auto simp: stream_put_def fun_eq_iff)

lemma append_spec:
  assumes inv: "buf_inv b" and ss: "segments b = []"
    and hi: "length (contig b) + length p \<le> unat (maxBytes b)"
  defines "b' \<equiv> b\<lparr>contig := contig b @ p, contigLen := contigLen b + len32 p,
      totalBytes := totalBytes b + len32 p\<rparr>"
  shows "push_ok b (length (contig b)) p b'" "\<not> totalBytes b + len32 p > maxBytes b"
proof -
  have n: "unat (contigLen b + len32 p) = length (contig b) + length p"
    "unat (totalBytes b + len32 p) = length (contig b) + length p"
    using inv ss hi max_lt [of b] by (simp_all add: buf_inv_def unat_add32 unat_len32)
  then show "\<not> totalBytes b + len32 p > maxBytes b"
    using hi by (simp add: word_less_nat_alt)
  show "push_ok b (length (contig b)) p b'"
    using n inv ss hi
    by (auto simp: b'_def push_ok_def buf_inv_def abs_buf_def stream_put_def fun_eq_iff nth_append)
qed

lemma push_trimmed_spec:
  assumes inv: "buf_inv b" and p: "p \<noteq> []" and lo: "length (contig b) \<le> unat off"
    and len: "unat off + length p < 2 ^ 32"
  shows "if unat off + length p > unat (maxBytes b) then push_trimmed b off p = (Some ErrBufferFull, b)
    else fst (push_trimmed b off p) = None \<and> push_ok b (unat off) p (snd (push_trimmed b off p))
      \<and> (hadOverlap b \<longrightarrow> hadOverlap (snd (push_trimmed b off p)))"
proof -
  have en: "unat (off + len32 p) = unat off + length p"
    using len by (simp add: unat_add32 unat_len32)
  have cl: "unat (contigLen b) = length (contig b)" using inv by (simp add: buf_inv_def)
  show ?thesis
  proof (cases "unat off + length p > unat (maxBytes b)")
    case True
    then show ?thesis using en by (simp add: push_trimmed_def word_less_nat_alt)
  next
    case False
    then have fits: "\<not> off + len32 p > maxBytes b" using en by (simp add: word_less_nat_alt)
    let ?b1 = "if off \<noteq> contigLen b then b\<lparr>hadOutOfOrder := True\<rparr> else b"
    have b1: "buf_inv ?b1" "contig ?b1 = contig b" "maxBytes ?b1 = maxBytes b"
      "baseSeq ?b1 = baseSeq b" "abs_buf ?b1 = abs_buf b" "hadOverlap ?b1 = hadOverlap b"
      using inv by (auto simp: buf_inv_def abs_buf_def fun_eq_iff)
    show ?thesis
    proof (cases "off = contigLen b \<and> segments b = []")
      case True
      then show ?thesis
        using append_spec [OF inv, of p] False fits cl by (simp add: push_trimmed_def)
    next
      case seg: False
      have "length (contig ?b1) \<le> unat off" "unat off + length p \<le> unat (maxBytes ?b1)"
        using b1 lo False by auto
      from push_segment_spec [OF b1(1) p this] put_bytes_stream [OF lo]
      have "fst (push_segment ?b1 off p) = None \<and> push_ok b (unat off) p (snd (push_segment ?b1 off p))
          \<and> (hadOverlap b \<longrightarrow> hadOverlap (snd (push_segment ?b1 off p)))"
        unfolding push_ok_def b1 by simp
      moreover have "push_trimmed b off p = push_segment ?b1 off p"
        using fits seg by (auto simp: push_trimmed_def)
      ultimately show ?thesis using False by simp
    qed
  qed
qed

lemma Push_spec:
  fixes sq :: u32
  assumes inv: "buf_inv b" and len: "length p < 2 ^ 32"
  defines "x \<equiv> push_at b sq"
  shows "fst (Push b sq p) = (if p = [] then None
       else if maxBytes b = 0 then Some ErrBufferFull
       else if unat (maxBytes b) \<le> x then Some ErrOutOfWindow
       else if x + length p \<le> length (contig b) then None
       else if unat (maxBytes b) < x + length p then Some ErrBufferFull else None)
    \<and> (fst (Push b sq p) = None \<longrightarrow> push_ok b x p (snd (Push b sq p)))
    \<and> (fst (Push b sq p) \<noteq> None \<longrightarrow> same_content b (snd (Push b sq p)))"
proof -
  let ?off = "sq - baseSeq b"
  have x: "unat ?off = x" by (simp add: x_def push_at_def)
  have cl: "unat (contigLen b) = length (contig b)" "length (contig b) \<le> unat (maxBytes b)"
    using inv by (simp_all add: buf_inv_def)
  have same: "same_content b b" "push_ok b x p b" if "x + length p \<le> length (contig b) \<or> p = []"
    using inv that by (auto simp: same_content_def push_ok_def stream_put_def fun_eq_iff)
  consider (empty) "p = []" | (zero) "p \<noteq> []" "maxBytes b = 0"
    | (window) "p \<noteq> []" "maxBytes b \<noteq> 0" "unat (maxBytes b) \<le> x"
    | (wrap) "p \<noteq> []" "maxBytes b \<noteq> 0" "x < unat (maxBytes b)" "2 ^ 32 \<le> x + length p"
    | (old) "p \<noteq> []" "maxBytes b \<noteq> 0" "x < unat (maxBytes b)" "x + length p < 2 ^ 32"
        "x + length p \<le> length (contig b)"
    | (trim) "p \<noteq> []" "maxBytes b \<noteq> 0" "x < unat (maxBytes b)" "x + length p < 2 ^ 32"
        "length (contig b) < x + length p" "x < length (contig b)"
    | (new) "p \<noteq> []" "maxBytes b \<noteq> 0" "x < unat (maxBytes b)" "x + length p < 2 ^ 32"
        "length (contig b) < x + length p" "length (contig b) \<le> x"
    by linarith
  then show ?thesis
  proof cases
    case empty
    then show ?thesis using same by (simp add: Push_def)
  next
    case zero
    then show ?thesis by (simp add: Push_def same_content_def)
  next
    case window
    then show ?thesis using x by (simp add: Push_def word_le_nat_alt same_content_def)
  next
    case wrap
    then have "unat (?off + len32 p) = x + length p - 2 ^ 32"
      using x len unat_u32_less [of ?off] by (simp add: unat_word_ariths unat_len32 mod_if)
    moreover have "x + length p - 2 ^ 32 < x" using wrap(4) len by linarith
    ultimately have "?off + len32 p < ?off" using x by (simp add: word_less_nat_alt)
    then show ?thesis
      using wrap x cl max_lt [of b] by (simp add: Push_def word_le_nat_alt same_content_def)
  next
    case old
    then have "unat (?off + len32 p) = x + length p" using x len by (simp add: unat_add32 unat_len32)
    then show ?thesis
      using old x cl same by (simp add: Push_def word_le_nat_alt word_less_nat_alt)
  next
    case trim
    let ?b = "b\<lparr>hadOverlap := True\<rparr>" and ?p = "drop (length (contig b) - x) p"
    have en: "unat (?off + len32 p) = x + length p"
      using trim x len by (simp add: unat_add32 unat_len32)
    have diff: "unat (contigLen b - ?off) = length (contig b) - x"
      using trim x cl by (simp add: unat_diff32 word_le_nat_alt)
    have p: "?p \<noteq> []" "length (contig b) + length ?p = x + length p" using trim by auto
    then have "unat (contigLen b + len32 ?p) = x + length p"
      using trim cl by (simp add: unat_add32 unat_len32)
    then have nowrap: "\<not> contigLen b + len32 ?p < contigLen b"
      using p cl by (simp add: word_less_nat_alt)
    have code: "Push b sq p = push_trimmed ?b (contigLen b) ?p"
      using trim x cl en p nowrap
      by (simp add: Push_def Let_def word_le_nat_alt word_less_nat_alt diff)
    have inv': "buf_inv ?b" and eq: "contig ?b = contig b" "maxBytes ?b = maxBytes b"
      using inv by (auto simp: buf_inv_def)
    have "stream_put (length (contig b)) (length (contig b)) ?p (abs_buf b)
        = stream_put (length (contig b)) x p (abs_buf b)"
      using trim by (intro stream_put_drop) auto
    moreover have "abs_buf ?b = abs_buf b" by (auto simp: abs_buf_def fun_eq_iff)
    ultimately show ?thesis
      using push_trimmed_spec [OF inv' p(1), of "contigLen b"] trim cl p unfolding code
      by (auto simp: push_ok_def same_content_def split: if_splits)
  next
    case new
    have en: "unat (?off + len32 p) = x + length p"
      using new x len by (simp add: unat_add32 unat_len32)
    have code: "Push b sq p = push_trimmed b ?off p"
      using new x cl en by (simp add: Push_def Let_def word_le_nat_alt word_less_nat_alt)
    show ?thesis
      using push_trimmed_spec [OF inv new(1), of ?off] new x unfolding code
      by (auto simp: same_content_def split: if_splits)
  qed
qed

end
