(* ===== verification/ReassemblyProps.thy ===== *)
theory ReassemblyProps
  imports ReassemblyCorrect
begin

text \<open>
  What the reassembly buffer promises to its client: the properties of single calls, of
  whole sequences of calls on a fresh buffer, and of the two flags that tell the worker
  whether the held packets can be trimmed.  The interface is the locale \<^verbatim>\<open>reassembler\<close>,
  interpreted on the model of the code.
\<close>

section \<open>Flags\<close>

lemma flags_compact [simp]:
  "hadOverlap (compact b) = hadOverlap b" "hadOutOfOrder (compact b) = hadOutOfOrder b"
  by (simp_all add: compact_def split: prod.split)

lemma push_segment_flags:
  "hadOutOfOrder (snd (push_segment b off p)) = hadOutOfOrder b"
  "hadOverlap b \<Longrightarrow> hadOverlap (snd (push_segment b off p))"
  by (simp_all add: push_segment_def Let_def split: prod.split)

lemma push_trimmed_flags:
  assumes "fst (push_trimmed b off p) = None"
  shows "hadOutOfOrder (snd (push_trimmed b off p)) = (hadOutOfOrder b \<or> off \<noteq> contigLen b)"
    and "hadOverlap b \<Longrightarrow> hadOverlap (snd (push_trimmed b off p))"
  using assms by (auto simp: push_trimmed_def push_segment_flags split: if_splits)

text \<open>Until a fragment arrives out of order, nothing is stored beyond the prefix.\<close>

definition flag_inv :: "buffer \<Rightarrow> bool" where
  "flag_inv b \<longleftrightarrow> (hadOutOfOrder b \<or> segments b = [])"

lemma push_trimmed_flag_inv:
  "flag_inv b \<Longrightarrow> flag_inv (snd (push_trimmed b off p))"
  by (auto simp: flag_inv_def push_trimmed_def push_segment_flags)

lemma Push_flag_inv: "flag_inv b \<Longrightarrow> flag_inv (snd (Push b sq p))"
  by (auto simp: Push_def Let_def intro!: push_trimmed_flag_inv) (auto simp: flag_inv_def)

lemma New_flag_inv [simp]: "flag_inv (New base mx)"
  by (simp add: flag_inv_def New_def)

lemma New_inv [simp]: "buf_inv (New base mx)"
  by (simp add: buf_inv_def New_def)

text \<open>A call that leaves both flags down found the fragment old or exactly at the frontier.\<close>

lemma Push_in_order:
  assumes inv: "buf_inv b" "segments b = []" and ok: "Push b sq p = (None, b')"
    and flags: "\<not> hadOutOfOrder b'" "\<not> hadOverlap b'" and len: "length p < 2 ^ 32"
  shows "b' = b \<and> (p = [] \<or> push_at b sq + length p \<le> length (contig b))
    \<or> push_at b sq = length (contig b) \<and> contig b' = contig b @ p \<and> segments b' = []"
proof -
  let ?off = "sq - baseSeq b"
  have cl: "unat (contigLen b) = length (contig b)" using inv by (simp add: buf_inv_def)
  consider "p = []" | "p \<noteq> []" "?off + len32 p \<le> contigLen b" "\<not> ?off + len32 p < ?off"
    | "p \<noteq> []" "\<not> ?off + len32 p \<le> contigLen b" "?off < contigLen b"
    | "p \<noteq> []" "\<not> ?off + len32 p \<le> contigLen b" "\<not> ?off < contigLen b"
      "push_trimmed b ?off p = (None, b')"
    using ok by (auto simp: Push_def Let_def split: if_splits)
  then show ?thesis
  proof cases
    case 1
    then show ?thesis using ok by (simp add: Push_def)
  next
    case 2
    then have b: "b' = b" using ok by (auto simp: Push_def Let_def split: if_splits)
    have "unat ?off + length p < 2 ^ 32"
    proof (rule ccontr)
      assume "\<not> ?thesis"
      then have "unat (?off + len32 p) = unat ?off + length p - 2 ^ 32"
        using len unat_u32_less [of ?off] by (simp add: unat_word_ariths unat_len32 mod_if)
      with 2(3) \<open>\<not> unat ?off + length p < 2 ^ 32\<close> len show False
        by (simp add: word_less_nat_alt)
    qed
    then have "unat (?off + len32 p) = unat ?off + length p" by (simp add: unat_add32 unat_len32)
    with 2 b cl show ?thesis by (simp add: push_at_def word_le_nat_alt)
  next
    case 3
    let ?b = "b\<lparr>hadOverlap := True\<rparr>" and ?p = "drop (unat (contigLen b - ?off)) p"
    have "hadOverlap b'"
      using ok 3 push_trimmed_flags(2) [of ?b "contigLen b" ?p]
      by (auto simp: Push_def Let_def split: if_splits)
    with flags show ?thesis by simp
  next
    case 4
    then have off: "?off = contigLen b"
      using push_trimmed_flags(1) [of b ?off p] flags by auto
    then have "push_at b sq = length (contig b)" using cl by (simp add: push_at_def)
    with 4 inv(2) show ?thesis by (auto simp: push_trimmed_def off split: if_splits)
  qed
qed

section \<open>The interface\<close>

text \<open>The state after any number of calls, whatever they return.\<close>

fun push_all :: "('b \<Rightarrow> u32 \<Rightarrow> bytes \<Rightarrow> 'e option \<times> 'b) \<Rightarrow> 'b \<Rightarrow> (u32 \<times> bytes) list \<Rightarrow> 'b" where
  "push_all push b [] = b"
| "push_all push b (f # fs) = push_all push (snd (push b (fst f) (snd f))) fs"

text \<open>A fragment that is a cut of the byte stream \<^term>\<open>S\<close> at offset \<^term>\<open>x\<close>.\<close>

definition cut_of :: "(nat \<Rightarrow> byte) \<Rightarrow> nat \<Rightarrow> bytes \<Rightarrow> bool" where
  "cut_of S x p \<longleftrightarrow> (\<forall>k < length p. p ! k = S (x + k))"

lemma cut_of_Nil [simp]: "cut_of S x []"
  by (simp add: cut_of_def)

lemma cut_of_Cons [simp]: "cut_of S x (a # p) \<longleftrightarrow> a = S x \<and> cut_of S (Suc x) p"
  by (auto simp: cut_of_def nth_Cons split: nat.splits)

text \<open>
  What the worker relies on: a buffer is a partial stream, of which it shows the maximal
  prefix and the number of bytes held; a call writes the fragment's bytes that lie at or
  beyond the prefix, or fails and changes nothing; fragments inside the window do not fail.
\<close>

locale reassembler =
  fixes push :: "'b \<Rightarrow> u32 \<Rightarrow> bytes \<Rightarrow> 'e option \<times> 'b"
    and view :: "'b \<Rightarrow> nat \<Rightarrow> byte option"
    and front :: "'b \<Rightarrow> bytes"
    and held :: "'b \<Rightarrow> nat"
    and pos :: "'b \<Rightarrow> u32 \<Rightarrow> nat"
    and window :: "'b \<Rightarrow> nat"
    and good :: "'b \<Rightarrow> bool"
  assumes push_good: "good b \<Longrightarrow> length p < 2 ^ 32 \<Longrightarrow> good (snd (push b s p))"
    and push_pos: "good b \<Longrightarrow> length p < 2 ^ 32 \<Longrightarrow> pos (snd (push b s p)) = pos b"
    and push_window: "good b \<Longrightarrow> length p < 2 ^ 32 \<Longrightarrow> window (snd (push b s p)) = window b"
    and push_view: "good b \<Longrightarrow> length p < 2 ^ 32 \<Longrightarrow> view (snd (push b s p)) =
        (if fst (push b s p) = None then stream_put (length (front b)) (pos b s) p (view b) else view b)"
    and push_fits: "good b \<Longrightarrow> length p < 2 ^ 32 \<Longrightarrow> pos b s + length p \<le> window b \<Longrightarrow>
        fst (push b s p) = None"
    and front_view: "good b \<Longrightarrow> i < length (front b) \<Longrightarrow> view b i = Some (front b ! i)"
    and front_end: "good b \<Longrightarrow> view b (length (front b)) = None"
    and held_view: "good b \<Longrightarrow> held b = card (dom (view b))"
    and view_window: "good b \<Longrightarrow> dom (view b) \<subseteq> {..<window b}"
begin

definition agrees :: "(nat \<Rightarrow> byte) \<Rightarrow> 'b \<Rightarrow> bool" where
  "agrees S b \<longleftrightarrow> (\<forall>i v. view b i = Some v \<longrightarrow> v = S i)"

lemma finite_view: "good b \<Longrightarrow> finite (dom (view b))"
  using view_window finite_subset by blast

lemma held_window: "good b \<Longrightarrow> held b \<le> window b"
  using card_mono [OF _ view_window [of b]] by (simp add: held_view)

lemma front_le_held: "good b \<Longrightarrow> length (front b) \<le> held b"
proof -
  assume g: "good b"
  have "{..<length (front b)} \<subseteq> dom (view b)" using front_view [OF g] by auto
  from card_mono [OF finite_view [OF g] this] show ?thesis by (simp add: held_view [OF g])
qed

lemma view_mono:
  assumes "good b" "length p < 2 ^ 32"
  shows "dom (view b) \<subseteq> dom (view (snd (push b s p)))"
  using assms by (auto simp: push_view stream_put_def)

lemma held_mono:
  assumes "good b" "length p < 2 ^ 32"
  shows "held b \<le> held (snd (push b s p))"
  using card_mono [OF finite_view view_mono [OF assms]] push_good [OF assms] assms
  by (simp add: held_view)

lemma front_prefix:
  assumes "good b" "length p < 2 ^ 32"
  shows "take (length (front b)) (front (snd (push b s p))) = front b"
proof -
  let ?b = "snd (push b s p)"
  have g: "good ?b" using assms by (rule push_good)
  have same: "view ?b i = view b i" if "i < length (front b)" for i
    using that assms by (simp add: push_view stream_put_def)
  have "\<not> length (front ?b) < length (front b)"
    using front_end [OF g] same front_view [OF assms(1)] by fastforce
  moreover have "front ?b ! i = front b ! i" if "i < length (front b)" for i
    using same [OF that] front_view [OF assms(1) that] front_view [OF g, of i] calculation that
    by simp
  ultimately show ?thesis by (intro nth_equalityI) auto
qed

lemma push_agrees:
  assumes "good b" "length p < 2 ^ 32" "agrees S b" "cut_of S (pos b s) p"
  shows "agrees S (snd (push b s p))"
  using assms by (auto simp: agrees_def push_view stream_put_def cut_of_def split: if_splits)

lemma push_covers:
  assumes "good b" "length p < 2 ^ 32" "pos b s + length p \<le> window b"
    "pos b s \<le> i" "i < pos b s + length p"
  shows "i \<in> dom (view (snd (push b s p)))"
  using assms front_view [of b i]
  by (cases "i < length (front b)") (auto simp: push_view push_fits stream_put_def)

lemma push_all_agrees:
  assumes "good b" "agrees S b"
    and "\<forall>f\<in>set fs. length (snd f) < 2 ^ 32 \<and> cut_of S (pos b (fst f)) (snd f)"
  shows "good (push_all push b fs) \<and> agrees S (push_all push b fs)"
  using assms
  by (induction fs arbitrary: b) (auto simp: push_good push_agrees push_pos)

lemma push_all_good:
  assumes "good b" "\<forall>f\<in>set fs. length (snd f) < 2 ^ 32"
  shows "good (push_all push b fs) \<and> window (push_all push b fs) = window b"
  using assms by (induction fs arbitrary: b) (auto simp: push_good push_window)

lemma push_all_covers:
  assumes "good b" and "\<forall>f\<in>set fs. length (snd f) < 2 ^ 32 \<and> pos b (fst f) + length (snd f) \<le> window b"
  shows "good (push_all push b fs) \<and> dom (view b) \<subseteq> dom (view (push_all push b fs))
    \<and> (\<forall>f\<in>set fs. {pos b (fst f)..<pos b (fst f) + length (snd f)} \<subseteq> dom (view (push_all push b fs)))"
  using assms
proof (induction fs arbitrary: b)
  case (Cons f fs)
  let ?b = "snd (push b (fst f) (snd f))"
  have f: "length (snd f) < 2 ^ 32" "pos b (fst f) + length (snd f) \<le> window b"
    using Cons.prems(2) by auto
  have b: "good ?b" "pos ?b = pos b" "window ?b = window b"
    using Cons.prems(1) f by (auto simp: push_good push_pos push_window)
  have IH: "good (push_all push ?b fs)" "dom (view ?b) \<subseteq> dom (view (push_all push ?b fs))"
    "\<forall>g\<in>set fs. {pos b (fst g)..<pos b (fst g) + length (snd g)} \<subseteq> dom (view (push_all push ?b fs))"
    using Cons.IH [OF b(1)] Cons.prems(2) b by auto
  have "{pos b (fst f)..<pos b (fst f) + length (snd f)} \<subseteq> dom (view ?b)"
    using push_covers [OF Cons.prems(1) f] by (meson atLeastLessThan_iff subsetI)
  with IH(2) have "{pos b (fst f)..<pos b (fst f) + length (snd f)}
      \<subseteq> dom (view (push_all push ?b fs))" by (rule subset_trans [rotated])
  moreover have "dom (view b) \<subseteq> dom (view (push_all push ?b fs))"
    using view_mono [OF Cons.prems(1) f(1)] IH(2) by (rule subset_trans)
  ultimately show ?case using IH(1,3) by simp
qed simp

lemma agrees_front: "good b \<Longrightarrow> agrees S b \<Longrightarrow> front b = map S [0..<length (front b)]"
  by (intro nth_equalityI) (auto simp: agrees_def front_view)

lemma covered_front:
  assumes "good b" "{..<n} \<subseteq> dom (view b)"
  shows "n \<le> length (front b)"
  using assms front_end [of b] by (meson domIff leI lessThan_iff subsetD)

end

section \<open>The code provides the interface\<close>

lemma Push_good:
  assumes "buf_inv b" "length p < 2 ^ 32"
  shows "buf_inv (snd (Push b sq p))" "baseSeq (snd (Push b sq p)) = baseSeq b"
    "maxBytes (snd (Push b sq p)) = maxBytes b"
    "abs_buf (snd (Push b sq p)) = (if fst (Push b sq p) = None
       then stream_put (length (contig b)) (push_at b sq) p (abs_buf b) else abs_buf b)"
proof -
  have "buf_inv (snd (Push b sq p)) \<and> baseSeq (snd (Push b sq p)) = baseSeq b \<and>
    maxBytes (snd (Push b sq p)) = maxBytes b \<and> abs_buf (snd (Push b sq p)) =
      (if fst (Push b sq p) = None
       then stream_put (length (contig b)) (push_at b sq) p (abs_buf b) else abs_buf b)"
  proof (cases "fst (Push b sq p) = None")
    case True
    then show ?thesis using Push_spec [OF assms, of sq] by (simp add: push_ok_def)
  next
    case False
    then have same: "same_content b (snd (Push b sq p))"
      using Push_spec [OF assms, of sq] by blast
    then show ?thesis
      using same_content_inv [OF same assms(1)] False by (auto simp: same_content_def)
  qed
  then show "buf_inv (snd (Push b sq p))" "baseSeq (snd (Push b sq p)) = baseSeq b"
    "maxBytes (snd (Push b sq p)) = maxBytes b"
    "abs_buf (snd (Push b sq p)) = (if fst (Push b sq p) = None
       then stream_put (length (contig b)) (push_at b sq) p (abs_buf b) else abs_buf b)"
    by blast+
qed

lemma Push_fits:
  assumes "buf_inv b" "length p < 2 ^ 32" "push_at b sq + length p \<le> unat (maxBytes b)"
  shows "fst (Push b sq p) = None"
proof (cases "p = []")
  case False
  then have "0 < length p" by simp
  then have "0 < unat (maxBytes b)" "\<not> unat (maxBytes b) \<le> push_at b sq"
    using assms(3) by linarith+
  then have "maxBytes b \<noteq> 0" "\<not> unat (maxBytes b) \<le> push_at b sq" by auto
  then show ?thesis using Push_spec [OF assms(1,2), of sq] assms(3) by auto
qed (simp add: Push_def)

lemma dom_smap: "dom (smap ss) = (\<Union>s\<in>set ss. {soff s..<sfin s})"
  by (induction ss) (auto simp: dom_def split: if_splits)

lemma card_smap: "segs_ok lo hi ss \<Longrightarrow> card (dom (smap ss)) = seg_bytes ss"
proof (induction ss arbitrary: lo)
  case (Cons s ss)
  then have ok: "segs_ok (Suc (sfin s)) hi ss" by (simp add: segs_ok_Cons)
  have "dom (smap (s # ss)) = {soff s..<sfin s} \<union> dom (smap ss)"
    by (auto simp: dom_smap)
  moreover have "{soff s..<sfin s} \<inter> dom (smap ss) = {}"
    using smap_below [OF ok] by (auto simp: dom_def)
  moreover have "finite (dom (smap ss))" by (simp add: dom_smap)
  ultimately have "card (dom (smap (s # ss))) = card {soff s..<sfin s} + card (dom (smap ss))"
    by (simp only: card_Un_disjoint finite_atLeastLessThan)
  then show ?case
    by (simp only: Cons.IH [OF ok] card_atLeastLessThan seg_bytes_simps sfin_def diff_add_inverse)
qed (simp add: dom_def)

lemma held_card:
  assumes "buf_inv b"
  shows "unat (totalBytes b) = card (dom (abs_buf b))" "dom (abs_buf b) \<subseteq> {..<unat (maxBytes b)}"
proof -
  have ok: "segs_ok (Suc (length (contig b))) (unat (maxBytes b)) (segments b)"
    using assms by (simp add: buf_inv_def)
  have d: "dom (abs_buf b) = {..<length (contig b)} \<union> dom (smap (segments b))"
    using smap_below [OF ok] by (auto simp: abs_buf_def dom_def)
  moreover have "{..<length (contig b)} \<inter> dom (smap (segments b)) = {}"
    using smap_below [OF ok] by (auto simp: dom_def)
  ultimately show "unat (totalBytes b) = card (dom (abs_buf b))"
    using assms card_smap [OF ok] by (simp add: buf_inv_def card_Un_disjoint dom_smap)
  show "dom (abs_buf b) \<subseteq> {..<unat (maxBytes b)}"
    unfolding d using assms smap_above [OF ok] by (auto simp: buf_inv_def dom_def not_less)
      (metis not_le option.distinct(1))
qed

lemma abs_frontier: "buf_inv b \<Longrightarrow> abs_buf b (length (contig b)) = None"
  unfolding buf_inv_def by (auto simp: abs_buf_def intro: smap_below)

interpretation buf: reassembler Push abs_buf Contiguous "\<lambda>b. unat (TotalBytes b)" push_at
  "\<lambda>b. unat (maxBytes b)" buf_inv
  by unfold_locales
    (auto simp: Push_good Push_fits push_at_def fun_eq_iff Contiguous_def TotalBytes_def held_card
      abs_frontier, auto simp: abs_buf_def dest: held_card(2))

section \<open>Properties\<close>

lemma New_simps [simp]:
  "abs_buf (New base mx) = Map.empty" "push_at (New base mx) sq = unat (sq - base)"
  "maxBytes (New base mx) = mx" "contig (New base mx) = []"
  "baseSeq (New base mx) = base" "Contiguous (New base mx) = []"
  by (auto simp: abs_buf_def New_def push_at_def fun_eq_iff Contiguous_def)

text \<open>C4. Refinement: on a well-formed buffer a call of \<^verbatim>\<open>Push\<close> that returns nil leaves a
  well-formed buffer whose stream is the old one with exactly the fragment's bytes at or
  beyond the contiguous prefix written over it; a call that fails changes neither the
  stream nor any content field.\<close>

theorem push_refines_stream_update:
  assumes "buf_inv b" and "length p < 2 ^ 32"
  shows "buf_inv (snd (Push b sq p))
    \<and> (fst (Push b sq p) = None \<longrightarrow> abs_buf (snd (Push b sq p))
         = stream_put (length (Contiguous b)) (unat (sq - baseSeq b)) p (abs_buf b))
    \<and> (fst (Push b sq p) \<noteq> None \<longrightarrow> same_content b (snd (Push b sq p)))"
  using Push_spec [OF assms, of sq] Push_good(1) [OF assms]
  by (auto simp: push_ok_def Contiguous_def push_at_def)

lemma push_refines_stream_update_witness:
  "buf_inv (snd (Push (New 1000 64) 1005 [70, 71]))"
  using push_refines_stream_update [of "New 1000 64" "[70, 71]" 1005] by simp

text \<open>The result of \<^verbatim>\<open>Push\<close> on every branch: nil for an empty fragment, ErrBufferFull
  when the buffer has no room at all, ErrOutOfWindow when the fragment starts beyond the
  window, nil for a fragment already in the prefix, and ErrBufferFull exactly when the
  fragment ends beyond the window; in particular the byte count check after merging never
  rejects a fragment that fits the window.\<close>

theorem push_result_exact:
  assumes "buf_inv b" and "length p < 2 ^ 32"
  shows "fst (Push b sq p) = (let x = unat (sq - baseSeq b); mx = unat (maxBytes b) in
     if p = [] then None else if mx = 0 then Some ErrBufferFull
     else if mx \<le> x then Some ErrOutOfWindow
     else if x + length p \<le> length (Contiguous b) then None
     else if mx < x + length p then Some ErrBufferFull else None)"
  using Push_spec [OF assms, of sq]
  by (simp add: Contiguous_def push_at_def Let_def unsigned_eq_0_iff)

lemma push_result_exact_witness: "fst (Push (New 1000 8) 1010 [120]) = Some ErrOutOfWindow"
  using push_result_exact [of "New 1000 8" "[120]" 1010] by simp

text \<open>C17. Every buffer the program can reach is well formed and within its limits: after any
  sequence of calls on a fresh buffer, whatever they returned, the invariant holds,
  \<^verbatim>\<open>TotalBytes\<close> is the number of distinct stream positions held and at most
  \<^verbatim>\<open>maxBytes\<close>, and the contiguous prefix is maximal.\<close>

theorem reassembly_reachable_invariant:
  assumes "\<forall>f\<in>set fs. length (snd f) < 2 ^ 32"
  shows "let b = push_all Push (New base mx) fs in
    buf_inv b \<and> unat (TotalBytes b) = card (dom (abs_buf b)) \<and> unat (TotalBytes b) \<le> unat mx
    \<and> length (Contiguous b) \<le> unat (TotalBytes b) \<and> abs_buf b (length (Contiguous b)) = None"
proof -
  let ?b = "push_all Push (New base mx) fs"
  have g: "buf_inv ?b" "unat (maxBytes ?b) = unat mx"
    using buf.push_all_good [OF New_inv assms, of base mx] by auto
  show ?thesis
    using g buf.held_view [OF g(1)] buf.held_window [OF g(1)] buf.front_le_held [OF g(1)]
      buf.front_end [OF g(1)] by (simp add: Let_def)
qed

lemma reassembly_reachable_invariant_witness:
  "buf_inv (push_all Push (New 0 16) [(4, [1, 2]), (0, [9]), (40, [3])])"
  using reassembly_reachable_invariant [of "[(4, [1, 2]), (0, [9]), (40, [3])]" 0 16] by (simp add: Let_def)

lemma push_all_prefix:
  assumes "\<forall>f\<in>set fs. length (snd f) < 2 ^ 32 \<and> cut_of S (unat (fst f - base)) (snd f)"
  shows "Contiguous (push_all Push (New base mx) fs)
    = map S [0..<length (Contiguous (push_all Push (New base mx) fs))]"
proof -
  let ?b = "push_all Push (New base mx) fs"
  have "buf.agrees S (New base mx)" by (simp add: buf.agrees_def)
  then have "buf_inv ?b \<and> buf.agrees S ?b"
    using assms by (intro buf.push_all_agrees) auto
  then show ?thesis by (blast intro: buf.agrees_front)
qed

text \<open>C15. No corruption: when every fragment is a cut of one byte stream, in any order, with
  any overlaps and duplicates and whether or not some calls fail, the contiguous prefix is a
  prefix of that stream.\<close>

theorem reassembly_prefix_of_stream:
  assumes "\<forall>f\<in>set fs. length (snd f) < 2 ^ 32 \<and> cut_of S (unat (fst f - base)) (snd f)"
  shows "Contiguous (push_all Push (New base mx) fs)
    = map S [0..<length (Contiguous (push_all Push (New base mx) fs))]"
using assms by (rule push_all_prefix)

lemma reassembly_prefix_of_stream_witness:
  "Contiguous (push_all Push (New 100 16) [(102, [2, 3]), (100, [0, 1])])
   = map word_of_nat [0..<length (Contiguous (push_all Push (New 100 16) [(102, [2, 3]), (100, [0, 1])]))]"
  by (rule reassembly_prefix_of_stream [of _ word_of_nat 100 16])
    auto

text \<open>C16. Completeness: fragments of one stream that lie in the window and together cover its
  first \<^term>\<open>n\<close> bytes leave those bytes in the contiguous prefix, whatever the order of
  arrival and however they overlap.\<close>

theorem reassembly_complete:
  assumes "\<forall>f\<in>set fs. length (snd f) < 2 ^ 32 \<and> cut_of S (unat (fst f - base)) (snd f)
      \<and> unat (fst f - base) + length (snd f) \<le> unat mx"
    and "{..<n} \<subseteq> (\<Union>f\<in>set fs. {unat (fst f - base)..<unat (fst f - base) + length (snd f)})"
  shows "take n (Contiguous (push_all Push (New base mx) fs)) = map S [0..<n]"
proof -
  let ?b = "push_all Push (New base mx) fs"
  have "buf_inv ?b \<and> dom (abs_buf (New base mx)) \<subseteq> dom (abs_buf ?b)
    \<and> (\<forall>f\<in>set fs. {push_at (New base mx) (fst f)..<push_at (New base mx) (fst f) + length (snd f)}
         \<subseteq> dom (abs_buf ?b))"
    using assms(1) by (intro buf.push_all_covers) auto
  then have g: "buf_inv ?b" and "{..<n} \<subseteq> dom (abs_buf ?b)"
    using assms(2) by fastforce+
  then have "n \<le> length (Contiguous ?b)" by (intro buf.covered_front)
  moreover have "Contiguous ?b = map S [0..<length (Contiguous ?b)]"
    using assms(1) by (intro push_all_prefix) blast
  ultimately show ?thesis by (metis take_map take_upt add_0)
qed

lemma reassembly_complete_witness:
  "take 4 (Contiguous (push_all Push (New 100 16) [(102, [2, 3]), (100, [0, 1, 2])]))
   = map word_of_nat [0..<4]"
  by (rule reassembly_complete) auto

text \<open>Precedence of conflicting data: a byte of the contiguous prefix is never replaced,
  but a byte still waiting beyond it is replaced by any later fragment that covers it.\<close>

theorem conflicting_bytes_precedence:
  assumes "buf_inv b" and "length p < 2 ^ 32" and "fst (Push b sq p) = None"
    and "unat (sq - baseSeq b) \<le> i" and "i < unat (sq - baseSeq b) + length p"
  shows "abs_buf (snd (Push b sq p)) i = (if i < length (Contiguous b) then Some (Contiguous b ! i)
     else Some (p ! (i - unat (sq - baseSeq b))))"
  using Push_good(4) [OF assms(1,2), of sq] assms(3-5)
  by (simp add: stream_put_def push_at_def Contiguous_def abs_buf_def)

lemma conflicting_bytes_precedence_witness:
  "abs_buf (snd (Push (New 0 16) 4 [9])) 4 = Some 9"
proof -
  have "fst (Push (New 0 16) 4 [9]) = None" by code_simp
  from conflicting_bytes_precedence [OF New_inv _ this, of 4] show ?thesis by simp
qed

text \<open>The Linux design note asks that overlapping out-of-order data keep the earliest
  bytes; the code keeps the latest: two fragments at offset 4 disagree, the gap before them is
  filled last, and the prefix then shows the second fragment's byte.\<close>

theorem out_of_order_overlap_keeps_latest:
  "Contiguous (push_all Push (New 0 16) [(4, [65, 66]), (4, [67]), (0, [1, 2, 3, 4])])
     = [1, 2, 3, 4, 67, 66]"
  by code_simp

end
