(* ===== verification/TlsDetect.thy ===== *)
theory TlsDetect
  imports GoPrelude
begin

text \<open>
  Detection of a TLS ClientHello at the start of a contiguous buffer
  (\<^verbatim>\<open>internal/tls/tls.go\<close>).
\<close>

datatype result = ResultNeedMore | ResultMismatch | ResultMatch

text \<open>\<^verbatim>\<open>uint16(buf[i])<<8 | uint16(buf[i+1])\<close> is \<^const>\<open>be16\<close>.\<close>

definition DetectClientHelloRecord :: "bytes \<Rightarrow> u16 \<times> result" where
  "DetectClientHelloRecord buf = (
     if length buf < 6 then (0, ResultNeedMore)
     else if buf ! 0 \<noteq> 0x16 then (0, ResultMismatch)
     else let ver = be16 buf 1 in
       if ver < 0x0301 \<or> ver > 0x0304 then (0, ResultMismatch)
       else if buf ! 5 \<noteq> 0x01 then (0, ResultMismatch)
       else let recordLen = be16 buf 3 in
         if recordLen = 0 then (0, ResultMismatch) else (recordLen, ResultMatch))"

text \<open>What a ClientHello record header is, byte by byte.\<close>

definition client_hello_header :: "bytes \<Rightarrow> bool" where
  "client_hello_header h \<longleftrightarrow> 6 \<le> length h \<and> h ! 0 = 0x16 \<and> h ! 1 = 3
     \<and> h ! 2 \<in> {1, 2, 3, 4} \<and> (h ! 3 \<noteq> 0 \<or> h ! 4 \<noteq> 0) \<and> h ! 5 = 1"

lemma be16_version:
  "(be16 h 1 < 0x0301 \<or> be16 h 1 > 0x0304) \<longleftrightarrow> \<not> (h ! 1 = 3 \<and> h ! 2 \<in> {1, 2, 3, 4})"
proof -
  let ?a = "unat (h ! 1)" and ?b = "unat (h ! 2)"
  have b: "?b < 256" by (rule unat_byte_less)
  have u: "unat (be16 h 1) = 256 * ?a + ?b"
    by (simp add: unat_be16 numeral_2_eq_2)
  have "(be16 h 1 < 0x0301 \<or> be16 h 1 > 0x0304)
      \<longleftrightarrow> 256 * ?a + ?b < 769 \<or> 772 < 256 * ?a + ?b"
    unfolding word_less_nat_alt u by simp
  also have "\<dots> \<longleftrightarrow> \<not> (?a = 3 \<and> 1 \<le> ?b \<and> ?b \<le> 4)"
    using b by presburger
  also have "\<dots> \<longleftrightarrow> \<not> (?a = 3 \<and> (?b = 1 \<or> ?b = 2 \<or> ?b = 3 \<or> ?b = 4))"
    by presburger
  also have "\<dots> \<longleftrightarrow> \<not> (h ! 1 = 3 \<and> h ! 2 \<in> {1, 2, 3, 4})"
    by (simp add: word_unat_eq_iff)
  finally show ?thesis .
qed

lemma be16_eq_0: "be16 h i = 0 \<longleftrightarrow> h ! i = 0 \<and> h ! (i + 1) = 0"
proof -
  have "be16 h i = 0 \<longleftrightarrow> unat (be16 h i) = 0" by (simp add: unsigned_eq_0_iff)
  then show ?thesis by (simp add: unat_be16 unsigned_eq_0_iff)
qed

text \<open>C24. Detection is exact: with fewer than six bytes the answer is NeedMore; otherwise it is
  Match, with the big-endian record length at offset 3, exactly on a handshake record of
  version 3.1 to 3.4 that starts a ClientHello and announces a non-empty record, and
  Mismatch on everything else.\<close>

theorem detect_exact:
  "DetectClientHelloRecord h = (if length h < 6 then (0, ResultNeedMore)
     else if client_hello_header h then (be16 h 3, ResultMatch) else (0, ResultMismatch))"
  unfolding DetectClientHelloRecord_def client_hello_header_def Let_def be16_version be16_eq_0
  by auto

lemma header_append:
  assumes "6 \<le> length h"
  shows "client_hello_header (h @ more) = client_hello_header h" "be16 (h @ more) 3 = be16 h 3"
proof -
  have "(h @ more) ! k = h ! k" if "k \<le> 5" for k
    using that assms by (simp add: nth_append)
  then show "client_hello_header (h @ more) = client_hello_header h" "be16 (h @ more) 3 = be16 h 3"
    using assms by (simp_all add: client_hello_header_def be16_def)
qed

text \<open>The decision is final: more data never changes an answer other than NeedMore.\<close>

theorem detect_stable:
  assumes "snd (DetectClientHelloRecord h) \<noteq> ResultNeedMore"
  shows "DetectClientHelloRecord (h @ more) = DetectClientHelloRecord h"
proof -
  have "6 \<le> length h" using assms by (auto simp: detect_exact split: if_splits)
  then show ?thesis by (simp add: detect_exact header_append)
qed

lemma detect_stable_witness:
  "DetectClientHelloRecord ([0x16, 3, 1, 0, 5, 1] @ [7]) = (5, ResultMatch)"
proof -
  have d: "DetectClientHelloRecord [0x16, 3, 1, 0, 5, 1] = (5, ResultMatch)" by code_simp
  show ?thesis by (subst detect_stable) (simp_all add: d)
qed

end
