(* ===== verification/Packet.thy ===== *)
theory Packet
  imports GoPrelude
begin

text \<open>
  The packet component (\<^verbatim>\<open>internal/packet/packet.go\<close>): the packet record with its decoded
  metadata, the IPv4/TCP decoder, and the in-place header field writers.  Reads whose index
  depends on the packet's own header fields go through the checked reads of the prelude, so
  that an out-of-range index (a run-time panic in Go) is the value \<^const>\<open>None\<close>, and the
  decoder is shown never to panic.  \<^verbatim>\<open>IPHeaderLen\<close>, \<^verbatim>\<open>TCPHeaderLen\<close> and
  \<^verbatim>\<open>PayloadOffset\<close> are Go \<^verbatim>\<open>int\<close>s; the only code that writes them computes them from
  header nibbles, so they are naturals here.
\<close>

section \<open>Data\<close>

datatype source = SourceUnknown | SourceCaptured | SourceInjected

record meta =
  SrcIP :: ip4
  DstIP :: ip4
  SrcPort :: u16
  DstPort :: u16
  Proto :: byte
  Seq :: u32
  Ack :: u32
  Flags :: byte
  IPHeaderLen :: nat
  TCPHeaderLen :: nat
  PayloadOffset :: nat

record packet =
  Data :: bytes
  Addr :: bytes
  Meta :: meta
  Source :: source
  NFQID :: u32

definition zero_meta :: meta where
  "zero_meta = \<lparr>SrcIP = (0, 0, 0, 0), DstIP = (0, 0, 0, 0), SrcPort = 0, DstPort = 0,
     Proto = 0, Seq = 0, Ack = 0, Flags = 0, IPHeaderLen = 0, TCPHeaderLen = 0,
     PayloadOffset = 0\<rparr>"

definition protoTCP :: byte where [go_defs]: "protoTCP = 6"
definition TCPFlagFIN :: byte where [go_defs]: "TCPFlagFIN = 1"
definition TCPFlagSYN :: byte where [go_defs]: "TCPFlagSYN = 2"
definition TCPFlagRST :: byte where [go_defs]: "TCPFlagRST = 4"
definition TCPFlagPSH :: byte where [go_defs]: "TCPFlagPSH = 8"
definition TCPFlagACK :: byte where [go_defs]: "TCPFlagACK = 16"

datatype decode_error = ErrNotIPv4 | ErrNotTCP | ErrTooShort | ErrIPv4Fragment

section \<open>Accessors\<close>

definition Payload :: "packet \<Rightarrow> bytes" where
  "Payload p = (if PayloadOffset (Meta p) = 0 \<or> PayloadOffset (Meta p) > length (Data p)
     then [] else drop (PayloadOffset (Meta p)) (Data p))"

definition HasFlag :: "packet \<Rightarrow> byte \<Rightarrow> bool" where
  "HasFlag p flag \<longleftrightarrow> Flags (Meta p) AND flag \<noteq> 0"

section \<open>The decoder\<close>

definition get_be16 :: "bytes \<Rightarrow> nat \<Rightarrow> u16 option" where
  "get_be16 d i = (case slice d i (i + 2) of None \<Rightarrow> None | Some s \<Rightarrow> Some (be16 s 0))"

definition get_be32 :: "bytes \<Rightarrow> nat \<Rightarrow> u32 option" where
  "get_be32 d i = (case slice d i (i + 4) of None \<Rightarrow> None | Some s \<Rightarrow> Some (be32 s 0))"

text \<open>\<^verbatim>\<open>copy(ip[:], data[i:i+4])\<close> into a \<^verbatim>\<open>[4]byte\<close> array.\<close>

definition get_ip4 :: "bytes \<Rightarrow> nat \<Rightarrow> ip4 option" where
  "get_ip4 d i = (case slice d i (i + 4) of None \<Rightarrow> None
     | Some s \<Rightarrow> Some (s ! 0, s ! 1, s ! 2, s ! 3))"

text \<open>
  The decoder returns the error (or none) and the packet with the metadata written so far:
  the last length check comes after the addresses, ports and sequence numbers are stored.
  The outer option is the panic of an out-of-range index.
\<close>

definition DecodeIPv4TCP :: "packet \<Rightarrow> (decode_error option \<times> packet) option" where
  "DecodeIPv4TCP pkt = (let d = Data pkt in
     if length d < 20 then Some (Some ErrTooShort, pkt) else do {
     vihl \<leftarrow> byte_at d 0;
     if drop_bit 4 vihl \<noteq> 4 then Some (Some ErrNotIPv4, pkt) else
     let ihl = unat (vihl AND 0x0f) * 4 in
     if ihl < 20 \<or> length d < ihl + 20 then Some (Some ErrTooShort, pkt) else do {
     flagsOffset \<leftarrow> get_be16 d 6;
     if flagsOffset AND 0x1fff \<noteq> 0 \<or> flagsOffset AND 0x2000 \<noteq> 0
     then Some (Some ErrIPv4Fragment, pkt) else do {
     proto \<leftarrow> byte_at d 9;
     if proto \<noteq> protoTCP then Some (Some ErrNotTCP, pkt) else do {
     src \<leftarrow> get_ip4 d 12;
     dst \<leftarrow> get_ip4 d 16;
     sport \<leftarrow> get_be16 d ihl;
     dport \<leftarrow> get_be16 d (ihl + 2);
     sq \<leftarrow> get_be32 d (ihl + 4);
     ak \<leftarrow> get_be32 d (ihl + 8);
     let m1 = (Meta pkt)\<lparr>SrcIP := src, DstIP := dst, Proto := protoTCP, IPHeaderLen := ihl,
                SrcPort := sport, DstPort := dport, Seq := sq, Ack := ak\<rparr>;
     offb \<leftarrow> byte_at d (ihl + 12);
     let dataOffset = unat (drop_bit 4 offb) * 4;
     if dataOffset < 20 \<or> length d < ihl + dataOffset
     then Some (Some ErrTooShort, pkt\<lparr>Meta := m1\<rparr>) else do {
     fl \<leftarrow> byte_at d (ihl + 13);
     Some (None, pkt\<lparr>Meta := m1\<lparr>Flags := fl, TCPHeaderLen := dataOffset,
                              PayloadOffset := ihl + dataOffset\<rparr>\<rparr>)
     }}}}})"

section \<open>Header field readers and writers\<close>

definition IPv4ID :: "bytes \<Rightarrow> u16" where
  "IPv4ID d = (if length d < 6 then 0 else be16 d 4)"

definition SetIPv4ID :: "bytes \<Rightarrow> u16 \<Rightarrow> bytes" where
  "SetIPv4ID d i = (if length d < 6 then d else put_be16 d 4 i)"

definition SetIPv4TotalLength :: "bytes \<Rightarrow> u16 \<Rightarrow> bytes" where
  "SetIPv4TotalLength d tot = (if length d < 4 then d else put_be16 d 2 tot)"

definition SetIPv4ChecksumZero :: "bytes \<Rightarrow> bytes" where
  "SetIPv4ChecksumZero d = (if length d < 12 then d else d[10 := 0, 11 := 0])"

definition SetIPv4Checksum :: "bytes \<Rightarrow> u16 \<Rightarrow> bytes" where
  "SetIPv4Checksum d s = (if length d < 12 then d else put_be16 d 10 s)"

definition SetTCPSeq :: "bytes \<Rightarrow> nat \<Rightarrow> u32 \<Rightarrow> bytes" where
  "SetTCPSeq d h sq = (if length d < h + 8 then d else put_be32 d (h + 4) sq)"

definition SetTCPChecksumZero :: "bytes \<Rightarrow> nat \<Rightarrow> bytes" where
  "SetTCPChecksumZero d h = (if length d < h + 18 then d else d[h + 16 := 0, h + 17 := 0])"

definition SetTCPChecksum :: "bytes \<Rightarrow> nat \<Rightarrow> u16 \<Rightarrow> bytes" where
  "SetTCPChecksum d h s = (if length d < h + 18 then d else put_be16 d (h + 16) s)"

definition SetTCPFlags :: "bytes \<Rightarrow> nat \<Rightarrow> byte \<Rightarrow> bytes" where
  "SetTCPFlags d h fl = (if length d < h + 14 then d else d[h + 13 := fl])"

section \<open>Lemmas\<close>

lemmas setter_defs = SetIPv4ID_def SetIPv4TotalLength_def SetIPv4ChecksumZero_def
  SetIPv4Checksum_def SetTCPSeq_def SetTCPChecksumZero_def SetTCPChecksum_def SetTCPFlags_def

lemma length_setters [simp, go_len]:
  "length (SetIPv4ID d i) = length d"
  "length (SetIPv4TotalLength d t) = length d"
  "length (SetIPv4ChecksumZero d) = length d"
  "length (SetIPv4Checksum d s) = length d"
  "length (SetTCPSeq d h sq) = length d"
  "length (SetTCPChecksumZero d h) = length d"
  "length (SetTCPChecksum d h s) = length d"
  "length (SetTCPFlags d h fl) = length d"
  by (simp_all add: setter_defs)

lemma get_be16_ok [simp]: "i + 2 \<le> length d \<Longrightarrow> get_be16 d i = Some (be16 d i)"
  by (simp add: get_be16_def be16_def)

lemma get_be32_ok [simp]: "i + 4 \<le> length d \<Longrightarrow> get_be32 d i = Some (be32 d i)"
  by (simp add: get_be32_def be32_def)

lemma get_ip4_ok [simp]:
  "i + 4 \<le> length d \<Longrightarrow> get_ip4 d i = Some (d ! i, d ! (i + 1), d ! (i + 2), d ! (i + 3))"
  by (simp add: get_ip4_def)

lemma length_Payload_le: "length (Payload p) \<le> length (Data p)"
  by (simp add: Payload_def)

lemma nibble_le: "unat (b AND 0x0f :: byte) \<le> 15"
proof -
  have "unat (b AND 0x0f) \<le> unat (0x0f :: byte)"
    by (rule word_and_le1 [THEN word_le_nat_alt [THEN iffD1]])
  then show ?thesis by simp
qed


section \<open>What the decoder accepts\<close>

text \<open>The header lengths a packet's bytes announce, in bytes.\<close>

definition ip_hlen :: "bytes \<Rightarrow> nat" where
  "ip_hlen d = unat (d ! 0 AND 0x0f) * 4"

definition tcp_hlen :: "bytes \<Rightarrow> nat" where
  "tcp_hlen d = unat (drop_bit 4 (d ! (ip_hlen d + 12))) * 4"

text \<open>
  The abstract specification of a decodable packet: an unfragmented IPv4 packet that
  carries TCP and has room for both headers.
\<close>

definition valid_tcp4 :: "bytes \<Rightarrow> bool" where
  "valid_tcp4 d \<longleftrightarrow> 20 \<le> length d \<and> drop_bit 4 (d ! 0) = 4
     \<and> 20 \<le> ip_hlen d \<and> ip_hlen d + 20 \<le> length d
     \<and> be16 d 6 AND 0x3fff = 0 \<and> d ! 9 = 6
     \<and> 20 \<le> tcp_hlen d \<and> ip_hlen d + tcp_hlen d \<le> length d"

definition decoded_meta :: "bytes \<Rightarrow> meta" where
  "decoded_meta d = \<lparr>SrcIP = (d ! 12, d ! 13, d ! 14, d ! 15),
     DstIP = (d ! 16, d ! 17, d ! 18, d ! 19),
     SrcPort = be16 d (ip_hlen d), DstPort = be16 d (ip_hlen d + 2), Proto = 6,
     Seq = be32 d (ip_hlen d + 4), Ack = be32 d (ip_hlen d + 8),
     Flags = d ! (ip_hlen d + 13), IPHeaderLen = ip_hlen d, TCPHeaderLen = tcp_hlen d,
     PayloadOffset = ip_hlen d + tcp_hlen d\<rparr>"

lemma frag_mask: "(v AND 0x3fff = 0) = (v AND 0x1fff = 0 \<and> v AND 0x2000 = (0 :: u16))"
proof -
  have "v AND 0x3fff = (v AND 0x1fff) OR (v AND (0x2000 :: u16))"
    by (simp flip: bit.conj_disj_distrib)
  then show ?thesis
    by (metis or_eq_0_iff)
qed

lemma DecodeIPv4TCP_eq:
  "DecodeIPv4TCP pkt = Some (let d = Data pkt in
     if length d < 20 then (Some ErrTooShort, pkt)
     else if drop_bit 4 (d ! 0) \<noteq> 4 then (Some ErrNotIPv4, pkt)
     else if ip_hlen d < 20 \<or> length d < ip_hlen d + 20 then (Some ErrTooShort, pkt)
     else if be16 d 6 AND 0x3fff \<noteq> 0 then (Some ErrIPv4Fragment, pkt)
     else if d ! 9 \<noteq> 6 then (Some ErrNotTCP, pkt)
     else if tcp_hlen d < 20 \<or> length d < ip_hlen d + tcp_hlen d
       then (Some ErrTooShort, pkt\<lparr>Meta := (decoded_meta d)\<lparr>Flags := Flags (Meta pkt),
              TCPHeaderLen := TCPHeaderLen (Meta pkt),
              PayloadOffset := PayloadOffset (Meta pkt)\<rparr>\<rparr>)
     else (None, pkt\<lparr>Meta := decoded_meta d\<rparr>))"
proof (cases "length (Data pkt) < 20")
  case True
  then show ?thesis by (simp add: DecodeIPv4TCP_def)
next
  case long: False
  then have b0: "byte_at (Data pkt) 0 = Some (Data pkt ! 0)"
    and b9: "byte_at (Data pkt) 9 = Some (Data pkt ! 9)"
    and b6: "get_be16 (Data pkt) 6 = Some (be16 (Data pkt) 6)"
    by (auto intro!: byte_at_ok get_be16_ok)
  note early = DecodeIPv4TCP_def Let_def b0 b6 b9 long ip_hlen_def [symmetric] protoTCP_def
  consider (version) "drop_bit 4 (Data pkt ! 0) \<noteq> 4"
    | (ihl) "drop_bit 4 (Data pkt ! 0) = 4"
        "ip_hlen (Data pkt) < 20 \<or> length (Data pkt) < ip_hlen (Data pkt) + 20"
    | (frag) "drop_bit 4 (Data pkt ! 0) = 4"
        "\<not> (ip_hlen (Data pkt) < 20 \<or> length (Data pkt) < ip_hlen (Data pkt) + 20)"
        "be16 (Data pkt) 6 AND 0x3fff \<noteq> 0"
    | (proto) "drop_bit 4 (Data pkt ! 0) = 4"
        "\<not> (ip_hlen (Data pkt) < 20 \<or> length (Data pkt) < ip_hlen (Data pkt) + 20)"
        "be16 (Data pkt) 6 AND 0x3fff = 0" "Data pkt ! 9 \<noteq> 6"
    | (tcp) "drop_bit 4 (Data pkt ! 0) = 4"
        "\<not> (ip_hlen (Data pkt) < 20 \<or> length (Data pkt) < ip_hlen (Data pkt) + 20)"
        "be16 (Data pkt) 6 AND 0x3fff = 0" "Data pkt ! 9 = 6"
    by blast
  then show ?thesis
  proof cases
    case tcp
    then have len: "ip_hlen (Data pkt) + 20 \<le> length (Data pkt)" by simp
    then have "byte_at (Data pkt) (ip_hlen (Data pkt) + 12) = Some (Data pkt ! (ip_hlen (Data pkt) + 12))"
      "byte_at (Data pkt) (ip_hlen (Data pkt) + 13) = Some (Data pkt ! (ip_hlen (Data pkt) + 13))"
      by (auto intro!: byte_at_ok)
    with tcp len show ?thesis
      by (simp add: early frag_mask decoded_meta_def tcp_hlen_def)
  qed (simp_all add: early frag_mask)
qed

lemma ip_hlen_le: "ip_hlen d \<le> 60"
  using nibble_le [of "d ! 0"] by (simp add: ip_hlen_def)

lemma tcp_hlen_le: "tcp_hlen d \<le> 60"
  using unat_byte_less [of "d ! (ip_hlen d + 12)"]
  by (simp add: tcp_hlen_def drop_bit_eq_div unat_div)

lemma decoded_meta_lens:
  "IPHeaderLen (decoded_meta d) = ip_hlen d" "TCPHeaderLen (decoded_meta d) = tcp_hlen d"
  by (simp_all add: decoded_meta_def)

lemma decode_total:
  "\<exists>e p. DecodeIPv4TCP pkt = Some (e, p) \<and> p = pkt\<lparr>Meta := Meta p\<rparr>"
  by (auto simp: DecodeIPv4TCP_eq Let_def)

lemma decode_okD:
  assumes "DecodeIPv4TCP pkt = Some (None, p)"
  shows "valid_tcp4 (Data pkt)" "p = pkt\<lparr>Meta := decoded_meta (Data pkt)\<rparr>"
  using assms by (auto simp: DecodeIPv4TCP_eq Let_def valid_tcp4_def split: if_splits)

lemma decode_okI:
  "valid_tcp4 (Data pkt) \<Longrightarrow> DecodeIPv4TCP pkt = Some (None, pkt\<lparr>Meta := decoded_meta (Data pkt)\<rparr>)"
  by (auto simp: DecodeIPv4TCP_eq Let_def valid_tcp4_def)

text \<open>What the engine may assume of a packet that the decoder accepted.\<close>

definition meta_ok :: "packet \<Rightarrow> bool" where
  "meta_ok p \<longleftrightarrow> 20 \<le> IPHeaderLen (Meta p) \<and> IPHeaderLen (Meta p) \<le> 60
     \<and> even (IPHeaderLen (Meta p)) \<and> 20 \<le> TCPHeaderLen (Meta p) \<and> TCPHeaderLen (Meta p) \<le> 60
     \<and> PayloadOffset (Meta p) = IPHeaderLen (Meta p) + TCPHeaderLen (Meta p)
     \<and> PayloadOffset (Meta p) \<le> length (Data p)"

lemma decoded_meta_ok:
  assumes "valid_tcp4 (Data pkt)"
  shows "meta_ok (pkt\<lparr>Meta := decoded_meta (Data pkt)\<rparr>)"
proof -
  have "even (ip_hlen (Data pkt))" by (simp add: ip_hlen_def)
  then show ?thesis
    using assms ip_hlen_le [of "Data pkt"] tcp_hlen_le [of "Data pkt"]
    by (simp add: meta_ok_def decoded_meta_def valid_tcp4_def)
qed

lemma meta_ok_payload:
  assumes "meta_ok p"
  shows "Payload p = drop (IPHeaderLen (Meta p) + TCPHeaderLen (Meta p)) (Data p)"
    and "length (Payload p) + (IPHeaderLen (Meta p) + TCPHeaderLen (Meta p)) = length (Data p)"
  using assms by (auto simp: meta_ok_def Payload_def)

text \<open>An IPv4 header with room for the announced header and the fixed part of a TCP header.\<close>

definition room_for_headers :: "bytes \<Rightarrow> bool" where
  "room_for_headers d \<longleftrightarrow> 20 \<le> length d \<and> drop_bit 4 (d ! 0) = 4 \<and> 20 \<le> ip_hlen d \<and> ip_hlen d + 20 \<le> length d"

text \<open>C23. The decoder never panics, whatever the bytes; it changes nothing but the metadata; it
  returns nil exactly for the unfragmented IPv4 packets that carry TCP and have room for both
  announced headers, and the metadata then are the fields of the two headers; and each of its
  four errors stands for what its name says: not IPv4 for another version, a fragment for a
  fragment offset or the more-fragments flag, not TCP for another protocol in an unfragmented
  packet, too short for a packet cut off, or announcing less than the minimum, in the IPv4
  header or in the TCP header.\<close>

theorem decode_exact:
  "\<exists>e p. DecodeIPv4TCP pkt = Some (e, p) \<and> p = pkt\<lparr>Meta := Meta p\<rparr>
     \<and> (e = None \<longleftrightarrow> valid_tcp4 (Data pkt))
     \<and> (e = None \<longrightarrow> Meta p = decoded_meta (Data pkt))
     \<and> (e = Some ErrNotIPv4 \<longleftrightarrow> 20 \<le> length (Data pkt) \<and> drop_bit 4 (Data pkt ! 0) \<noteq> 4)
     \<and> (e = Some ErrIPv4Fragment \<longleftrightarrow> room_for_headers (Data pkt) \<and> be16 (Data pkt) 6 AND 0x3fff \<noteq> 0)
     \<and> (e = Some ErrNotTCP \<longleftrightarrow> room_for_headers (Data pkt) \<and> be16 (Data pkt) 6 AND 0x3fff = 0 \<and> Data pkt ! 9 \<noteq> 6)
     \<and> (e = Some ErrTooShort \<longleftrightarrow> length (Data pkt) < 20
         \<or> drop_bit 4 (Data pkt ! 0) = 4 \<and> \<not> room_for_headers (Data pkt)
         \<or> room_for_headers (Data pkt) \<and> be16 (Data pkt) 6 AND 0x3fff = 0 \<and> Data pkt ! 9 = 6
           \<and> (tcp_hlen (Data pkt) < 20 \<or> length (Data pkt) < ip_hlen (Data pkt) + tcp_hlen (Data pkt)))"
  unfolding DecodeIPv4TCP_eq Let_def valid_tcp4_def room_for_headers_def by (cases pkt) auto

text \<open>An example packet: IPv4 and TCP headers of 20 bytes and the payload bytes given.\<close>

definition sample_packet :: "u32 \<Rightarrow> byte \<Rightarrow> bytes \<Rightarrow> packet" where
  "sample_packet sq fl payload = \<lparr>Data =
     [0x45, 0, 0, 0, 0x12, 0x34, 0x40, 0, 64, 6, 0, 0, 10, 0, 0, 1, 1, 1, 1, 1]
     @ [0x9c, 0x40, 0x01, 0xbb, ucast (drop_bit 24 sq), ucast (drop_bit 16 sq),
        ucast (drop_bit 8 sq), ucast sq, 0, 0, 0, 9, 0x50, fl, 1, 0, 0, 0, 0, 0] @ payload,
     Addr = replicate 256 0, Meta = zero_meta, Source = SourceCaptured, NFQID = 0\<rparr>"

lemma decode_exact_witness:
  "(\<exists>p. DecodeIPv4TCP (sample_packet 7 0x18 [1, 2, 3]) = Some (None, p)
     \<and> Meta p = decoded_meta (Data (sample_packet 7 0x18 [1, 2, 3])))
   \<and> (\<exists>p. DecodeIPv4TCP ((sample_packet 7 0x18 [])\<lparr>Data := 0x65 # replicate 19 0\<rparr>) = Some (Some ErrNotIPv4, p))"
proof -
  have "valid_tcp4 (Data (sample_packet 7 0x18 [1, 2, 3]))" "drop_bit 4 (0x65 :: byte) \<noteq> 4" by code_simp+
  with decode_exact [of "sample_packet 7 0x18 [1, 2, 3]"] decode_exact [of "(sample_packet 7 0x18 [])\<lparr>Data := 0x65 # replicate 19 0\<rparr>"]
  show ?thesis by auto
qed

text \<open>The bounds on which the engine's slicing rests: a decoded packet has header lengths
  of 20 to 60 bytes, its payload offset is their sum and within the data, and headers and
  payload together are the whole packet.\<close>

theorem decode_bounds:
  assumes "DecodeIPv4TCP pkt = Some (None, p)"
  shows "IPHeaderLen (Meta p) \<in> {20..60} \<and> TCPHeaderLen (Meta p) \<in> {20..60}
    \<and> PayloadOffset (Meta p) = IPHeaderLen (Meta p) + TCPHeaderLen (Meta p)
    \<and> take (PayloadOffset (Meta p)) (Data p) @ Payload p = Data p
    \<and> Payload p = drop (PayloadOffset (Meta p)) (Data pkt)"
proof -
  from decode_okD [OF assms] have "meta_ok p" and d: "Data p = Data pkt"
    using decoded_meta_ok by (metis, simp)
  then show ?thesis by (auto simp: meta_ok_def Payload_def)
qed

lemma decode_bounds_witness:
  "PayloadOffset (decoded_meta (Data (sample_packet 7 0x18 [1, 2, 3]))) = 40"
proof -
  let ?p = "sample_packet 7 0x18 [1, 2, 3]"
  have "valid_tcp4 (Data ?p)" by code_simp
  from decode_bounds [OF decode_okI [OF this]]
  have "PayloadOffset (decoded_meta (Data ?p))
      = IPHeaderLen (decoded_meta (Data ?p)) + TCPHeaderLen (decoded_meta (Data ?p))" by simp
  also have "\<dots> = 40" by code_simp
  finally show ?thesis .
qed

end
