(* ===== verification/FlowTable.thy ===== *)
theory FlowTable
  imports Packet Reassembly
begin

text \<open>
  Flow keys, flow states and the flow table (\<^verbatim>\<open>internal/flow/flow.go\<close>).  The table is a
  Go map from keys to pointers; here it is an association list with distinct keys, a lookup
  returns the state the pointer refers to, and \<^verbatim>\<open>Store\<close> is the write through that
  pointer.  Go iterates over a map in an unspecified order: the iterations of the worker take
  the order as an argument.
\<close>

section \<open>Keys\<close>

record key =
  KSrcIP :: ip4
  KDstIP :: ip4
  KSrcPort :: u16
  KDstPort :: u16
  KProto :: byte

definition KeyFromMeta :: "meta \<Rightarrow> key" where
  "KeyFromMeta m = \<lparr>KSrcIP = SrcIP m, KDstIP = DstIP m, KSrcPort = SrcPort m,
     KDstPort = DstPort m, KProto = Proto m\<rparr>"

section \<open>Flow states\<close>

datatype state = StateNew | StateCollecting | StateSplitReady | StateInjected
  | StatePassThrough | StateClosed

text \<open>Times are nanoseconds; nil pointers are \<^const>\<open>None\<close>; \<^verbatim>\<open>HeldPackets\<close> never holds nil,
  since the engine drops nil packets before it decodes them.\<close>

record flow_state =
  State :: state
  BaseSeq :: u32
  LastActive :: int
  CollectStart :: int
  FirstPayloadLen :: nat
  Template :: "packet option"
  HeldPackets :: "packet list"
  Reassembler :: "buffer option"
  Processed :: bool

definition new_flow_state :: "int \<Rightarrow> flow_state" where
  "new_flow_state now = \<lparr>State = StateNew, BaseSeq = 0, LastActive = now, CollectStart = 0,
     FirstPayloadLen = 0, Template = None, HeldPackets = [], Reassembler = None,
     Processed = False\<rparr>"

section \<open>The table\<close>

record table =
  items :: "(key \<times> flow_state) list"

definition NewTable :: table where
  "NewTable = \<lparr>items = []\<rparr>"

definition Len :: "table \<Rightarrow> nat" where
  "Len t = length (items t)"

definition Get :: "table \<Rightarrow> key \<Rightarrow> flow_state option" where
  "Get t k = map_of (items t) k"

definition Store :: "table \<Rightarrow> key \<Rightarrow> flow_state \<Rightarrow> table" where
  "Store t k st = t\<lparr>items := AList.update k st (items t)\<rparr>"

definition GetOrCreate :: "table \<Rightarrow> key \<Rightarrow> int \<Rightarrow> flow_state \<times> table" where
  "GetOrCreate t k now = (case Get t k of
     Some st \<Rightarrow> (st, t)
   | None \<Rightarrow> let st = new_flow_state now in (st, Store t k st))"

definition Delete :: "table \<Rightarrow> key \<Rightarrow> table" where
  "Delete t k = t\<lparr>items := AList.delete k (items t)\<rparr>"

text \<open>\<^verbatim>\<open>Range\<close> visits the entries present when the iteration reaches them, in the order
  \<^term>\<open>ks\<close>; the callback may change the visited entry and delete entries.\<close>

fun Range :: "key list \<Rightarrow> ('s \<Rightarrow> table) \<Rightarrow> (key \<Rightarrow> flow_state \<Rightarrow> 's \<Rightarrow> 's) \<Rightarrow> 's \<Rightarrow> 's" where
  "Range [] tab fn s = s"
| "Range (k # ks) tab fn s = (case Get (tab s) k of
     None \<Rightarrow> Range ks tab fn s
   | Some st \<Rightarrow> Range ks tab fn (fn k st s))"

lemma Range_induct:
  assumes "P s" "\<And>k st u. P u \<Longrightarrow> Get (tab u) k = Some st \<Longrightarrow> P (fn k st u)"
  shows "P (Range ks tab fn s)"
  using assms(1) by (induction ks arbitrary: s) (auto intro: assms(2) split: option.split)

definition Keys :: "table \<Rightarrow> key list" where
  "Keys t = map fst (items t)"

definition table_ok :: "table \<Rightarrow> bool" where
  "table_ok t \<longleftrightarrow> distinct (Keys t)"

text \<open>A sum over the table's entries.\<close>

definition total_of :: "(flow_state \<Rightarrow> int) \<Rightarrow> table \<Rightarrow> int" where
  "total_of f t = sum_list (map (f \<circ> snd) (items t))"

section \<open>The interface the worker relies on\<close>

locale flow_table =
  fixes get :: "'t \<Rightarrow> 'k \<Rightarrow> 'v option"
    and store :: "'t \<Rightarrow> 'k \<Rightarrow> 'v \<Rightarrow> 't"
    and remove :: "'t \<Rightarrow> 'k \<Rightarrow> 't"
    and count :: "'t \<Rightarrow> nat"
    and measure_of :: "('v \<Rightarrow> int) \<Rightarrow> 't \<Rightarrow> int"
    and good :: "'t \<Rightarrow> bool"
  assumes get_store: "get (store t k v) = (get t)(k \<mapsto> v)"
    and get_remove: "get (remove t k) = (get t)(k := None)"
    and good_store: "good t \<Longrightarrow> good (store t k v)"
    and good_remove: "good t \<Longrightarrow> good (remove t k)"
    and count_dom: "good t \<Longrightarrow> count t = card (dom (get t))"
    and finite_dom: "finite (dom (get t))"
    and measure_store: "good t \<Longrightarrow> measure_of f (store t k v)
        = measure_of f t + f v - (case get t k of None \<Rightarrow> 0 | Some u \<Rightarrow> f u)"
    and measure_remove: "good t \<Longrightarrow> measure_of f (remove t k)
        = measure_of f t - (case get t k of None \<Rightarrow> 0 | Some u \<Rightarrow> f u)"
    and measure_nonneg: "(\<And>k v. get t k = Some v \<Longrightarrow> 0 \<le> f v) \<Longrightarrow> good t \<Longrightarrow> 0 \<le> measure_of f t"
begin

lemma count_store: "good t \<Longrightarrow> count (store t k v) = (if get t k = None then count t + 1 else count t)"
  using finite_dom [of t]
  by (cases "get t k") (auto simp: count_dom good_store get_store insert_absorb domI card_insert_if)

lemma count_remove: "good t \<Longrightarrow> count (remove t k) = (if get t k = None then count t else count t - 1)"
  using finite_dom [of t]
  by (cases "get t k") (auto simp: count_dom good_remove get_remove card_Diff_singleton_if domIff)

text \<open>An entry never weighs more than the whole.\<close>

lemma measure_member:
  assumes "good t" "\<And>k v. get t k = Some v \<Longrightarrow> 0 \<le> f v" "get t k = Some v"
  shows "f v \<le> measure_of f t"
proof -
  have "0 \<le> measure_of f (remove t k)"
    using assms by (intro measure_nonneg good_remove) (auto simp: get_remove split: if_splits)
  then show ?thesis using assms by (simp add: measure_remove)
qed

end

lemma sum_update:
  fixes f :: "'v \<Rightarrow> int"
  shows "distinct (map fst xs) \<Longrightarrow> sum_list (map (f \<circ> snd) (AList.update k v xs))
    = sum_list (map (f \<circ> snd) xs) + f v - (case map_of xs k of None \<Rightarrow> 0 | Some u \<Rightarrow> f u)"
  by (induction xs) (auto simp: map_of_eq_None_iff split: option.splits)

lemma sum_delete:
  fixes f :: "'v \<Rightarrow> int"
  shows "distinct (map fst xs) \<Longrightarrow> sum_list (map (f \<circ> snd) (AList.delete k xs))
    = sum_list (map (f \<circ> snd) xs) - (case map_of xs k of None \<Rightarrow> 0 | Some u \<Rightarrow> f u)"
proof (induction xs)
  case (Cons x xs)
  then show ?case
    by (cases "fst x = k") (auto simp: map_of_eq_None_iff delete_id split: option.splits)
qed simp

interpretation ft: flow_table Get Store Delete Len total_of table_ok
proof
  fix t :: table and k :: key and v :: flow_state and f :: "flow_state \<Rightarrow> int"
  show "Get (Store t k v) = (Get t)(k \<mapsto> v)"
    by (simp add: Get_def Store_def update_conv' fun_eq_iff)
  show "Get (Delete t k) = (Get t)(k := None)"
    by (simp add: Get_def Delete_def delete_conv' fun_eq_iff)
  show "finite (dom (Get t))" by (simp add: Get_def [abs_def] finite_dom_map_of)
  assume ok: "table_ok t"
  then have d: "distinct (map fst (items t))" by (simp add: table_ok_def Keys_def)
  show "table_ok (Store t k v)" "table_ok (Delete t k)"
    using d by (simp_all add: table_ok_def Keys_def Store_def Delete_def distinct_update distinct_delete)
  have "Get t = map_of (items t)" by (simp add: Get_def fun_eq_iff)
  then show "Len t = card (dom (Get t))"
    using d distinct_card [of "map fst (items t)"] by (simp add: Len_def dom_map_of_conv_image_fst)
  show "total_of f (Store t k v) = total_of f t + f v - (case Get t k of None \<Rightarrow> 0 | Some u \<Rightarrow> f u)"
    using sum_update [OF d] by (simp add: total_of_def Store_def Get_def)
  show "total_of f (Delete t k) = total_of f t - (case Get t k of None \<Rightarrow> 0 | Some u \<Rightarrow> f u)"
    using sum_delete [OF d] by (simp add: total_of_def Delete_def Get_def)
next
  fix t :: table and f :: "flow_state \<Rightarrow> int"
  assume "\<And>k v. Get t k = Some v \<Longrightarrow> 0 \<le> f v" and "table_ok t"
  then show "0 \<le> total_of f t"
    unfolding total_of_def Get_def table_ok_def Keys_def
    by (intro sum_list_nonneg) auto
qed

text \<open>A total depends on the table only through the lookup.\<close>

lemma total_as_sum:
  assumes "table_ok t"
  shows "total_of f t = (\<Sum>k\<in>dom (Get t). f (the (Get t k)))"
proof -
  have d: "distinct (map fst (items t))" using assms by (simp add: table_ok_def Keys_def)
  then have di: "distinct (items t)" by (simp add: distinct_map)
  have s: "set (items t) = (\<lambda>k. (k, the (Get t k))) ` dom (Get t)"
    using d by (force simp: Get_def dom_map_of_conv_image_fst image_iff)
  have "total_of f t = (\<Sum>x\<in>set (items t). f (snd x))"
    using di by (simp add: total_of_def sum_list_distinct_conv_sum_set)
  also have "\<dots> = (\<Sum>k\<in>dom (Get t). f (the (Get t k)))"
    unfolding s by (subst sum.reindex) (auto simp: inj_on_def)
  finally show ?thesis .
qed

lemma total_cong: "table_ok t \<Longrightarrow> table_ok u \<Longrightarrow> Get t = Get u \<Longrightarrow> total_of f t = total_of f u"
  by (simp add: total_as_sum)

lemma Len_cong: "table_ok t \<Longrightarrow> table_ok u \<Longrightarrow> Get t = Get u \<Longrightarrow> Len t = Len u"
  by (simp add: ft.count_dom)

lemma NewTable_simps [simp]:
  "Get NewTable k = None" "table_ok NewTable" "Len NewTable = 0" "total_of f NewTable = 0"
  by (simp_all add: NewTable_def Get_def table_ok_def Keys_def Len_def total_of_def)

text \<open>\<^verbatim>\<open>GetOrCreate\<close> returns the existing state untouched, or adds exactly one fresh
  state in StateNew; either way the returned state is the one in the table and no other
  entry changes.\<close>

lemma get_or_create_spec:
  "let (st, t') = GetOrCreate t k now in Get t' = (Get t)(k \<mapsto> st)
     \<and> (case Get t k of Some old \<Rightarrow> st = old \<and> t' = t
        | None \<Rightarrow> st = new_flow_state now \<and> State st = StateNew)"
  by (auto simp: GetOrCreate_def Let_def ft.get_store new_flow_state_def fun_eq_iff split: option.split)

end
