(* ===== verification/Sharder.thy ===== *)
theory Sharder
  imports FlowTable
begin

text \<open>
  Assigning a flow to a worker (\<^verbatim>\<open>internal/flow/sharder.go\<close>).  The engine sends every
  packet of a flow to the worker that \<^verbatim>\<open>Index\<close> names, so a flow is only ever handled by one
  worker.  The hash is the 64-bit FNV-1a of Go's standard library, over the 13 bytes that
  \<^verbatim>\<open>Index\<close> writes.
\<close>

section \<open>FNV-1a\<close>

definition fnv_prime :: u64 where
  "fnv_prime = 1099511628211"

definition fnv_step :: "u64 \<Rightarrow> byte \<Rightarrow> u64" where
  "fnv_step h b = (h XOR ucast b) * fnv_prime"

definition fnv64a :: "bytes \<Rightarrow> u64" where
  "fnv64a bs = foldl fnv_step 14695981039346656037 bs"

section \<open>The sharder\<close>

record sharder =
  workers :: nat

definition NewSharder :: "int \<Rightarrow> sharder" where
  "NewSharder n = \<lparr>workers = nat (if n < 1 then 1 else n)\<rparr>"

definition Workers :: "sharder \<Rightarrow> nat" where
  "Workers s = workers s"

definition ip_bytes :: "ip4 \<Rightarrow> bytes" where
  "ip_bytes ip = (case ip of (a, b, c, d) \<Rightarrow> [a, b, c, d])"

definition key_bytes :: "key \<Rightarrow> bytes" where
  "key_bytes k = ip_bytes (KSrcIP k) @ ip_bytes (KDstIP k)
     @ [ucast (drop_bit 8 (KSrcPort k)), ucast (KSrcPort k),
        ucast (drop_bit 8 (KDstPort k)), ucast (KDstPort k), KProto k]"

definition Index :: "sharder \<Rightarrow> key \<Rightarrow> nat" where
  "Index s k = unat (fnv64a (key_bytes k) mod of_nat (workers s))"

section \<open>The hash separates keys that differ in one byte\<close>

lemma fnv_prime_unit: "fnv_prime * 14886173955864302971 = 1"
  by (simp add: fnv_prime_def)

lemma fnv_prime_cancel: "a * fnv_prime = b * fnv_prime \<Longrightarrow> a = b"
proof -
  assume "a * fnv_prime = b * fnv_prime"
  then have "(a * fnv_prime) * 14886173955864302971 = (b * fnv_prime) * 14886173955864302971"
    by simp
  then show "a = b" unfolding mult.assoc fnv_prime_unit by simp
qed

lemma xor_cancel_right: "(a :: u64) XOR c = b XOR c \<Longrightarrow> a = b"
proof -
  assume "a XOR c = b XOR c"
  then have "(a XOR c) XOR c = (b XOR c) XOR c" by simp
  then show "a = b" by (simp add: xor.assoc)
qed

lemma fnv_step_inj_state: "fnv_step g b = fnv_step h b \<Longrightarrow> g = h"
  unfolding fnv_step_def by (drule fnv_prime_cancel) (rule xor_cancel_right)

lemma ucast_byte_u64_inj: "(ucast b :: u64) = ucast c \<Longrightarrow> b = (c :: byte)"
proof -
  assume "(ucast b :: u64) = ucast c"
  then have "unat (ucast b :: u64) = unat (ucast c :: u64)" by simp
  then have "unat b = unat c"
    using unat_byte_less [of b] unat_byte_less [of c]
    by (simp add: unsigned_ucast_eq take_bit_nat_eq_self)
  then show "b = c" by (rule unsigned_word_eqI)
qed

lemma fnv_step_inj_byte: "fnv_step h b = fnv_step h c \<Longrightarrow> b = c"
  unfolding fnv_step_def xor.commute [of h]
  by (drule fnv_prime_cancel, drule xor_cancel_right) (rule ucast_byte_u64_inj)

lemma fnv_fold_inj: "foldl fnv_step g bs = foldl fnv_step h bs \<Longrightarrow> g = h"
  by (induction bs arbitrary: g h) (simp, fastforce dest: fnv_step_inj_state)

lemma fnv_one_byte: "fnv64a (xs @ b # ys) = fnv64a (xs @ c # ys) \<Longrightarrow> b = c"
  unfolding fnv64a_def foldl_append foldl_Cons
  by (drule fnv_fold_inj) (rule fnv_step_inj_byte)

lemma port_bytes_inj:
  assumes "(ucast (drop_bit 8 p) :: byte) = ucast (drop_bit 8 q)" "(ucast p :: byte) = ucast q"
  shows "p = (q :: u16)"
  using be16_combine [of p] be16_combine [of q] assms by metis

lemma ip_bytes_inj: "ip_bytes p @ xs = ip_bytes q @ ys \<longleftrightarrow> p = q \<and> xs = ys"
  by (auto simp: ip_bytes_def split: prod.splits)

lemma key_bytes_inj:
  assumes "key_bytes j = key_bytes k"
  shows "j = k"
proof -
  from assms have ips: "KSrcIP j = KSrcIP k" "KDstIP j = KDstIP k" and proto: "KProto j = KProto k"
    by (auto simp only: key_bytes_def ip_bytes_inj list.inject)
  from assms have "KSrcPort j = KSrcPort k" "KDstPort j = KDstPort k"
    by (auto simp only: key_bytes_def ip_bytes_inj list.inject intro: port_bytes_inj)
  with ips proto show ?thesis by simp
qed

lemma Index_less:
  assumes "n < 2 ^ 63"
  shows "Index (NewSharder n) k < Workers (NewSharder n) \<and> 0 < Workers (NewSharder n)"
proof -
  let ?w = "workers (NewSharder n)"
  have w: "0 < ?w" "?w < 2 ^ 63" using assms by (auto simp: NewSharder_def)
  then have "unat (word_of_nat ?w :: u64) = ?w"
    by (simp add: unsigned_of_nat take_bit_nat_eq_self)
  with w show ?thesis by (simp add: Index_def Workers_def unat_mod)
qed

text \<open>The engine's use of \<^verbatim>\<open>Index\<close> to subscript its worker slice cannot be out of range:
  for every worker count that fits Go's \<^verbatim>\<open>int\<close>, also a zero or negative one, the index is
  below the number of workers.\<close>

theorem index_in_range:
  assumes "n < 2 ^ 63"
  shows "Index (NewSharder n) k < Workers (NewSharder n) \<and> 0 < Workers (NewSharder n)"
  using assms by (rule Index_less)

lemma index_in_range_witness:
  "Index (NewSharder 4) \<lparr>KSrcIP = (10, 0, 0, 1), KDstIP = (1, 1, 1, 1), KSrcPort = 40000,
     KDstPort = 443, KProto = 6\<rparr> < Workers (NewSharder 4) \<and> 0 < Workers (NewSharder 4)"
  by (rule index_in_range) simp

text \<open>The 13 bytes that \<^verbatim>\<open>Index\<close> hashes determine the flow key, and two flows whose
  bytes differ in exactly one place have different 64-bit hashes, whatever the place.\<close>

theorem shard_bytes_separate_flows:
  assumes "j \<noteq> k"
  shows "key_bytes j \<noteq> key_bytes k
    \<and> (\<forall>xs b c ys. key_bytes j = xs @ b # ys \<and> key_bytes k = xs @ c # ys
         \<longrightarrow> fnv64a (key_bytes j) \<noteq> fnv64a (key_bytes k))"
  using assms fnv_one_byte key_bytes_inj by (metis (no_types))

lemma shard_bytes_separate_flows_witness:
  "let j = \<lparr>KSrcIP = (10, 0, 0, 1), KDstIP = (1, 1, 1, 1), KSrcPort = 40000,
     KDstPort = 443, KProto = 6\<rparr>; k = j\<lparr>KSrcPort := 40001\<rparr>
   in key_bytes j \<noteq> key_bytes k \<and> fnv64a (key_bytes j) \<noteq> fnv64a (key_bytes k)"
proof -
  let ?j = "\<lparr>KSrcIP = (10, 0, 0, 1), KDstIP = (1, 1, 1, 1), KSrcPort = 40000,
     KDstPort = 443, KProto = 6\<rparr> :: key"
  let ?k = "?j\<lparr>KSrcPort := 40001\<rparr>"
  have "?j \<noteq> ?k" by simp
  note sep = shard_bytes_separate_flows [OF this]
  have "key_bytes ?j = [10, 0, 0, 1, 1, 1, 1, 1, 156] @ 64 # [1, 187, 6]
      \<and> key_bytes ?k = [10, 0, 0, 1, 1, 1, 1, 1, 156] @ 65 # [1, 187, 6]"
    by (simp add: key_bytes_def ip_bytes_def)
  with sep show ?thesis unfolding Let_def by blast
qed

end
