(* ===== verification/EngineConfig.thy ===== *)
theory EngineConfig
  imports Packet
begin

text \<open>
  The engine's configuration (\<^verbatim>\<open>internal/engine/config.go\<close>).  Go's \<^verbatim>\<open>int\<close> and
  \<^verbatim>\<open>time.Duration\<close> are \<^typ>\<open>int\<close> (durations in nanoseconds); the split mode is a
  \<^verbatim>\<open>uint8\<close>, so values beyond the two named ones exist.
\<close>

type_synonym split_mode = byte

definition SplitModeImmediate :: split_mode where [go_defs]: "SplitModeImmediate = 0"
definition SplitModeTLSHello :: split_mode where [go_defs]: "SplitModeTLSHello = 1"

definition SplitMode_String :: "split_mode \<Rightarrow> string" where
  "SplitMode_String m = (if m = SplitModeImmediate then ''immediate''
     else if m = SplitModeTLSHello then ''tls-hello''
     else ''SplitMode('' @ show_nat (unat m) @ '')'')"

record config =
  SplitMode :: split_mode
  SplitChunk :: int
  CollectTimeout :: int
  MaxBufferBytes :: int
  MaxHeldPackets :: int
  MaxSegmentPayload :: int
  MaxFlowsPerWorker :: int
  MaxReassemblyBytesPerWorker :: int
  MaxHeldBytesPerWorker :: int
  WorkerCount :: int
  WorkerQueueSize :: int
  FlowIdleTimeout :: int
  GCInterval :: int
  ShutdownFailOpenTimeout :: int
  ShutdownFailOpenMaxPackets :: int
  AdapterFlushTimeout :: int

definition Millisecond :: int where [go_defs]: "Millisecond = 1000000"
definition Second :: int where [go_defs]: "Second = 1000000000"

text \<open>\<^verbatim>\<open>runtime.NumCPU()\<close> is the argument.\<close>

definition DefaultConfig :: "int \<Rightarrow> config" where
  "DefaultConfig cpus = \<lparr>SplitMode = SplitModeTLSHello, SplitChunk = 5,
     CollectTimeout = 250 * Millisecond, MaxBufferBytes = 64 * 1024, MaxHeldPackets = 32,
     MaxSegmentPayload = 1460, MaxFlowsPerWorker = 4096,
     MaxReassemblyBytesPerWorker = 64 * 1024 * 1024, MaxHeldBytesPerWorker = 64 * 1024 * 1024,
     WorkerCount = cpus, WorkerQueueSize = 1024, FlowIdleTimeout = 30 * Second,
     GCInterval = 5 * Second, ShutdownFailOpenTimeout = 5 * Second,
     ShutdownFailOpenMaxPackets = 200000, AdapterFlushTimeout = 2 * Second\<rparr>"

end
