(* ===== verification/Split.thy ===== *)
theory Split
  imports EngineConfig
begin

text \<open>
  Cutting a byte window into TCP segments and building the packets that carry them: the pure
  functions of \<^verbatim>\<open>internal/engine/worker.go\<close> (\<^verbatim>\<open>splitFirst\<close>,
  \<^verbatim>\<open>clampSegmentPayload\<close>, \<^verbatim>\<open>chunkPayload\<close>, \<^verbatim>\<open>buildPacket\<close>).
\<close>

section \<open>Cutting the window\<close>

definition maxIPv4TotalLen :: int where [go_defs]: "maxIPv4TotalLen = 0xffff"

text \<open>The loop that both cutters run: chunks of \<^term>\<open>maxPayload\<close> bytes from
  \<^term>\<open>pos\<close> on, the last one shorter.  Both return before the loop when
  \<^term>\<open>maxPayload < 1\<close>, where the loop would not end.\<close>

function chunk_loop :: "bytes \<Rightarrow> nat \<Rightarrow> nat \<Rightarrow> bytes list" where
  "chunk_loop payload maxPayload pos = (
     if maxPayload = 0 \<or> length payload \<le> pos then []
     else let remaining = length payload - pos;
              chunk = (if maxPayload > remaining then remaining else maxPayload)
          in take chunk (drop pos payload) # chunk_loop payload maxPayload (pos + chunk))"
  by pat_completeness auto
termination by (relation "measure (\<lambda>(p, m, i). length p - i)") auto

declare chunk_loop.simps [simp del]

definition splitFirst :: "bytes \<Rightarrow> int \<Rightarrow> int \<Rightarrow> bytes list" where
  "splitFirst payload firstLen maxPayload = (
     if maxPayload < 1 \<or> payload = [] then [] else
     let firstLen = (if firstLen < 1 then 1 else firstLen);
         firstLen = (if firstLen > maxPayload then maxPayload else firstLen)
     in if firstLen \<ge> int (length payload) then []
        else take (nat firstLen) payload # chunk_loop payload (nat maxPayload) (nat firstLen))"

definition clampSegmentPayload :: "int \<Rightarrow> int \<Rightarrow> int \<Rightarrow> int" where
  "clampSegmentPayload payloadLen headerLen capPayload = (
     if payloadLen < 1 then 0
     else if headerLen < 1 \<or> headerLen > maxIPv4TotalLen then 0
     else let ipMax = maxIPv4TotalLen - headerLen;
              maxPayload = (if payloadLen > ipMax then ipMax else payloadLen)
          in if capPayload > 0 \<and> maxPayload > capPayload then capPayload else maxPayload)"

definition chunkPayload :: "bytes \<Rightarrow> int \<Rightarrow> bytes list" where
  "chunkPayload payload maxPayload = (
     if maxPayload < 1 \<or> payload = [] then [] else chunk_loop payload (nat maxPayload) 0)"

section \<open>Building a segment from a template\<close>

text \<open>The IP identification counter is a pointer: the result carries its new value, which moves
  on only when a packet was built.\<close>

definition buildPacket :: "packet option \<Rightarrow> u32 \<Rightarrow> bytes \<Rightarrow> byte \<Rightarrow> u16 option
    \<Rightarrow> (go_error + packet) \<times> u16 option" where
  "buildPacket tplp sq payload flags ipid = (case tplp of
     None \<Rightarrow> (Inl (ErrNew ''template packet is nil''), ipid)
   | Some tpl \<Rightarrow>
     let ipHeaderLen = IPHeaderLen (Meta tpl);
         headerLen = ipHeaderLen + TCPHeaderLen (Meta tpl)
     in if headerLen \<le> 0 \<or> headerLen > length (Data tpl)
        then (Inl (ErrNew ''invalid header length''), ipid)
        else let buf = take headerLen (Data tpl) @ replicate (length payload) 0;
                 buf = SetIPv4TotalLength buf (word_of_nat (length buf));
                 (buf, ipid') = (case ipid of None \<Rightarrow> (buf, None)
                                  | Some i \<Rightarrow> (SetIPv4ID buf i, Some (i + 1)));
                 buf = SetTCPSeq buf ipHeaderLen sq;
                 buf = SetTCPFlags buf ipHeaderLen flags;
                 buf = take headerLen buf @ payload;
                 buf = SetIPv4ChecksumZero buf;
                 buf = SetTCPChecksumZero buf ipHeaderLen
             in (Inr \<lparr>Data = buf, Addr = Addr tpl, Meta = zero_meta,
                       Source = SourceInjected, NFQID = 0\<rparr>, ipid'))"

section \<open>What the cutters do\<close>

lemma chunk_loop_concat:
  "0 < m \<Longrightarrow> concat (chunk_loop p m i) = drop i p"
proof (induction p m i rule: chunk_loop.induct)
  case (1 p m i)
  show ?case
  proof (cases "length p \<le> i")
    case False
    let ?c = "if m > length p - i then length p - i else m"
    have "concat (chunk_loop p m (i + ?c)) = drop (i + ?c) p"
      using 1(1) [of "length p - i" ?c] 1(2) False by simp
    then show ?thesis
      using 1(2) False
      by (subst chunk_loop.simps)
        (simp add: Let_def, metis add.commute append_take_drop_id drop_drop drop_all le_refl append_Nil2)
  qed (simp add: chunk_loop.simps)
qed

lemma chunk_loop_sizes:
  "s \<in> set (chunk_loop p m i) \<Longrightarrow> s \<noteq> [] \<and> length s \<le> m"
proof (induction p m i rule: chunk_loop.induct)
  case (1 p m i)
  note mem = 1(2) [unfolded chunk_loop.simps [of p m i]]
  show ?case
    using mem 1(1) [of "length p - i" "if m > length p - i then length p - i else m"]
    by (auto simp: Let_def split: if_splits)
qed

lemma splitFirst_head:
  assumes "splitFirst p n m \<noteq> []"
  shows "concat (splitFirst p n m) = p" "2 \<le> length (splitFirst p n m)"
    "\<forall>s\<in>set (splitFirst p n m). s \<noteq> [] \<and> int (length s) \<le> m"
    "int (length (hd (splitFirst p n m))) = min (max n 1) m"
proof -
  define f where "f = min (max n 1) m"
  from assms have m: "1 \<le> m" and p: "p \<noteq> []" and fl: "f < int (length p)"
    and eq: "splitFirst p n m = take (nat f) p # chunk_loop p (nat m) (nat f)"
    by (auto simp: splitFirst_def Let_def f_def max_def min_def split: if_splits)
  have f1: "1 \<le> f" "f \<le> m" using m by (auto simp: f_def)
  show "concat (splitFirst p n m) = p" using m by (simp add: eq chunk_loop_concat)
  have "chunk_loop p (nat m) (nat f) \<noteq> []"
    using fl m f1 by (subst chunk_loop.simps) (simp add: Let_def)
  then show "2 \<le> length (splitFirst p n m)" by (simp add: eq Suc_le_eq)
  show "\<forall>s\<in>set (splitFirst p n m). s \<noteq> [] \<and> int (length s) \<le> m"
    using f1 fl p chunk_loop_sizes [of _ p "nat m" "nat f"] by (force simp: eq)
  show "int (length (hd (splitFirst p n m))) = min (max n 1) m"
    using f1 fl by (simp add: eq f_def [symmetric])
qed

lemma splitFirst_empty_iff:
  "splitFirst p n m = [] \<longleftrightarrow> m < 1 \<or> int (length p) \<le> min (max n 1) m"
  by (auto simp: splitFirst_def Let_def split: if_splits)

lemma chunkPayload_spec:
  assumes "1 \<le> m"
  shows "concat (chunkPayload p m) = p"
    "\<forall>s\<in>set (chunkPayload p m). s \<noteq> [] \<and> int (length s) \<le> m"
  using assms chunk_loop_sizes [of _ p "nat m" 0]
  by (auto simp: chunkPayload_def chunk_loop_concat) force

lemma clamp_bounds:
  assumes "1 \<le> clampSegmentPayload l h c"
  shows "clampSegmentPayload l h c \<le> l" "clampSegmentPayload l h c + h \<le> 65535"
    "0 < c \<Longrightarrow> clampSegmentPayload l h c \<le> c"
  using assms by (auto simp: clampSegmentPayload_def maxIPv4TotalLen_def Let_def split: if_splits)

section \<open>What a built packet says\<close>

text \<open>A packet that came out of the decoder: its metadata are the fields of its bytes.\<close>

definition decoded :: "packet \<Rightarrow> bool" where
  "decoded p \<longleftrightarrow> valid_tcp4 (Data p) \<and> Meta p = decoded_meta (Data p)"

lemma decoded_ok: "decoded p \<Longrightarrow> meta_ok p"
  using decoded_meta_ok [of p] by (simp add: decoded_def meta_ok_def)

lemma be16_cong: "x ! i = y ! i \<Longrightarrow> x ! (i + 1) = y ! (i + 1) \<Longrightarrow> be16 x i = be16 y i"
  by (simp add: be16_def)

lemma be32_cong:
  "x ! i = y ! i \<Longrightarrow> x ! (i + 1) = y ! (i + 1) \<Longrightarrow> x ! (i + 2) = y ! (i + 2)
    \<Longrightarrow> x ! (i + 3) = y ! (i + 3) \<Longrightarrow> be32 x i = be32 y i"
  by (simp add: be32_def)

text \<open>The bytes before the payload, as buildPacket leaves them.\<close>

definition built_header :: "bytes \<Rightarrow> nat \<Rightarrow> nat \<Rightarrow> u16 \<Rightarrow> u16 option \<Rightarrow> u32 \<Rightarrow> byte \<Rightarrow> bytes" where
  "built_header d n hl tot ipid sq flags =
     (let b = put_be16 d 2 tot;
          b = (case ipid of None \<Rightarrow> b | Some i \<Rightarrow> put_be16 b 4 i);
          b = put_be32 b (n + 4) sq;
          b = b[n + 13 := flags];
          b = b[10 := 0, 11 := 0]
      in take hl (b[n + 16 := 0, n + 17 := 0]))"

lemma update_append_left: "i < length xs \<Longrightarrow> (xs @ ys)[i := v] = xs[i := v] @ ys"
  by (simp add: list_update_append)

lemma buildPacket_eq:
  assumes "20 \<le> n" "n = IPHeaderLen (Meta t)" "hl = n + TCPHeaderLen (Meta t)"
    "20 \<le> TCPHeaderLen (Meta t)" "hl \<le> length (Data t)"
  shows "buildPacket (Some t) sq pl flags ipid
    = (Inr \<lparr>Data = built_header (Data t) n hl (word_of_nat (hl + length pl)) ipid sq flags @ pl,
          Addr = Addr t, Meta = zero_meta, Source = SourceInjected, NFQID = 0\<rparr>,
       map_option (\<lambda>i. i + 1) ipid)"
  using assms
  by (auto simp: buildPacket_def Let_def setter_defs built_header_def take_put_be16 take_put_be32
      take_update_swap update_append_left min_def split: option.split)

lemma length_built_header [simp]: "hl \<le> length d \<Longrightarrow> length (built_header d n hl tot ipid sq fl) = hl"
  by (simp add: built_header_def Let_def split: option.split)

lemma built_header_nth:
  assumes "k < hl" "hl \<le> length d" "20 \<le> n" "k \<notin> {2, 3, 4, 5, 10, 11}"
    "k \<notin> {n + 4, n + 5, n + 6, n + 7, n + 13, n + 16, n + 17}"
  shows "built_header d n hl tot ipid sq fl ! k = d ! k"
proof -
  have "put_be16 e 2 tot ! k = e ! k" "put_be16 e 4 i ! k = e ! k" "put_be32 e (n + 4) sq ! k = e ! k" for e i
    using assms by (auto intro!: nth_put_be16 nth_put_be32)
  then show ?thesis
    using assms by (simp add: built_header_def Let_def nth_update_other split: option.split)
qed

lemma built_header_fields:
  assumes "n + 20 \<le> hl" "hl \<le> length d" "20 \<le> n"
  shows "be32 (built_header d n hl tot ipid sq fl) (n + 4) = sq"
    and "built_header d n hl tot ipid sq fl ! (n + 13) = fl"
    and "be16 (built_header d n hl tot ipid sq fl) 2 = tot"
    and "be16 (built_header d n hl tot ipid sq fl) 4 = (case ipid of None \<Rightarrow> be16 d 4 | Some i \<Rightarrow> i)"
    and "built_header d n hl tot ipid sq fl ! (n + 16) = 0"
    and "built_header d n hl tot ipid sq fl ! (n + 17) = 0"
    and "built_header d n hl tot ipid sq fl ! 10 = 0" "built_header d n hl tot ipid sq fl ! 11 = 0"
proof -
  have "be32 (built_header d n hl tot ipid sq fl) (n + 4) = be32 (put_be32 d (n + 4) sq) (n + 4)"
    using assms by (intro be32_cong) (simp_all add: built_header_def Let_def put_be32_def nth_list_update split: option.split)
  then show "be32 (built_header d n hl tot ipid sq fl) (n + 4) = sq"
    using assms by (simp add: be32_put_be32)
  have "be16 (built_header d n hl tot ipid sq fl) 2 = be16 (put_be16 d 2 tot) 2"
    using assms by (intro be16_cong) (simp_all add: built_header_def Let_def be_simps split: option.split)
  then show "be16 (built_header d n hl tot ipid sq fl) 2 = tot"
    using assms by (simp add: be16_put_be16)
  have "be16 (built_header d n hl tot ipid sq fl) 4
      = be16 (case ipid of None \<Rightarrow> d | Some i \<Rightarrow> put_be16 d 4 i) 4"
    using assms by (intro be16_cong) (simp_all add: built_header_def Let_def be_simps put_be16_def split: option.split)
  then show "be16 (built_header d n hl tot ipid sq fl) 4 = (case ipid of None \<Rightarrow> be16 d 4 | Some i \<Rightarrow> i)"
    using assms by (simp add: be16_put_be16 split: option.split)
qed (use assms in \<open>simp_all add: built_header_def Let_def split: option.split\<close>)

lemma built_valid:
  fixes tot :: u16 and ipid :: "u16 option" and sq :: u32 and fl :: byte and pl :: bytes and t :: packet
  assumes "decoded t"
  defines "n \<equiv> IPHeaderLen (Meta t)" and "hl \<equiv> IPHeaderLen (Meta t) + TCPHeaderLen (Meta t)"
  defines "e \<equiv> built_header (Data t) n hl tot ipid sq fl @ pl"
  shows "valid_tcp4 e" "decoded_meta e = (Meta t)\<lparr>Seq := sq, Flags := fl\<rparr>" "drop hl e = pl"
    "ip_hlen e = n" "be16 e 2 = tot" "be16 e 4 = (case ipid of None \<Rightarrow> be16 (Data t) 4 | Some i \<Rightarrow> i)"
    "length e = hl + length pl"
proof -
  let ?d = "Data t" let ?b = "built_header ?d n hl tot ipid sq fl"
  have m: "Meta t = decoded_meta ?d" and val: "valid_tcp4 ?d" using assms(1) by (simp_all add: decoded_def)
  have n: "n = ip_hlen ?d" and hl: "hl = n + tcp_hlen ?d" by (simp_all add: n_def hl_def m decoded_meta_def)
  have v: "20 \<le> n" "20 \<le> tcp_hlen ?d" "hl \<le> length ?d" using val by (simp_all add: valid_tcp4_def n hl)
  have keep: "e ! k = ?d ! k" if "k < hl" "k \<notin> {2, 3, 4, 5, 10, 11}"
      "k \<notin> {n + 4, n + 5, n + 6, n + 7, n + 13, n + 16, n + 17}" for k
    using that v built_header_nth [of k hl ?d n tot ipid sq fl] by (simp add: e_def nth_append)
  have here: "e ! k = ?b ! k" if "k < hl" for k using that v by (simp add: e_def nth_append)
  note fields = built_header_fields [of n hl ?d tot ipid sq fl]
  have "e ! 0 = ?d ! 0" using v hl by (intro keep) auto
  then have h: "ip_hlen e = n" by (simp add: ip_hlen_def n)
  then show "ip_hlen e = n" .
  have "e ! (n + 12) = ?d ! (n + 12)" using v hl by (intro keep) auto
  then have t: "tcp_hlen e = tcp_hlen ?d" by (simp only: tcp_hlen_def h n)
  show len: "length e = hl + length pl" using v by (simp add: e_def)
  show "drop hl e = pl" using v by (simp add: e_def)
  show "be16 e 2 = tot" "be16 e 4 = (case ipid of None \<Rightarrow> be16 ?d 4 | Some i \<Rightarrow> i)"
    using be16_cong [of e 2 ?b] be16_cong [of e 4 ?b] here v hl fields by simp_all
  have sqf: "be32 e (n + 4) = sq" "e ! (n + 13) = fl"
    using be32_cong [of e "n + 4" ?b] here v hl fields by simp_all
  have g: "e ! k = ?d ! k" if "12 \<le> k" "k < hl" "k < n + 4 \<or> (n + 8 \<le> k \<and> k < n + 13)" for k
    using that by (intro keep) auto
  have "e ! 6 = ?d ! 6" "e ! 7 = ?d ! 7" "e ! 9 = ?d ! 9" using v hl by (auto intro!: keep)
  then show "valid_tcp4 e"
    using val v hl len \<open>e ! 0 = ?d ! 0\<close> by (simp add: valid_tcp4_def h t n [symmetric] be16_def)
  have "e ! 12 = ?d ! 12" "e ! 13 = ?d ! 13" "e ! 14 = ?d ! 14" "e ! 15 = ?d ! 15"
    "e ! 16 = ?d ! 16" "e ! 17 = ?d ! 17" "e ! 18 = ?d ! 18" "e ! 19 = ?d ! 19"
    "be16 e n = be16 ?d n" "be16 e (n + 2) = be16 ?d (n + 2)" "be32 e (n + 8) = be32 ?d (n + 8)"
    using v hl by (auto intro!: g be16_cong be32_cong)
  with sqf show "decoded_meta e = (Meta t)\<lparr>Seq := sq, Flags := fl\<rparr>"
    by (simp add: m decoded_meta_def h t n [symmetric])
qed

end
