(* ===== verification/Worker.thy ===== *)
theory Worker
  imports Reassembly TlsDetect Sharder Split
begin

text \<open>
  The worker's packet path (\<^verbatim>\<open>internal/engine/worker.go\<close>): the state of a worker, the
  handler of one packet, the split and injection of a window, and fail-open.

  A handler gets the flow state \<^term>\<open>st\<close> that the Go code holds a pointer to and writes it
  back to the table (\<open>save\<close>) on every way out.  The adapter is the record
  \<open>adapter_env\<close>: the results of \<^verbatim>\<open>Send\<close> and \<^verbatim>\<open>Drop\<close> may depend on
  everything done before, and \<open>calls\<close> is the log of what was done.  Each
  \<^verbatim>\<open>w.cfg.Load()\<close> is an argument of its own, since \<^verbatim>\<open>Reload\<close> may store a
  new configuration between two of them; so is each \<^verbatim>\<open>time.Now()\<close>.
\<close>

section \<open>The adapter and the worker's state\<close>

datatype event = Sent packet "go_error option" | Dropped packet "go_error option"

record adapter_env =
  env_send :: "event list \<Rightarrow> packet \<Rightarrow> go_error option"
  env_drop :: "event list \<Rightarrow> packet \<Rightarrow> go_error option"
  env_calc :: "packet \<Rightarrow> go_error option \<times> packet"

record worker =
  wid :: nat
  cfg :: "config option"
  inq :: "packet list"
  inCap :: nat
  inClosed :: bool
  touchq :: "key list"
  touchCap :: nat
  touchClosed :: bool
  flows :: table
  heldBytes :: int
  reassemblyBytes :: int
  calls :: "event list"

type_synonym outcome = "go_error option \<times> worker"

definition newWorker :: "nat \<Rightarrow> config \<Rightarrow> worker" where
  "newWorker i c = (
     let c = (if WorkerQueueSize c < 1 then c\<lparr>WorkerQueueSize := 1024\<rparr> else c);
         c = (if GCInterval c \<le> 0 then c\<lparr>GCInterval := 5 * Second\<rparr> else c);
         c = (if FlowIdleTimeout c \<le> 0 then c\<lparr>FlowIdleTimeout := 30 * Second\<rparr> else c);
         c = (if MaxFlowsPerWorker c < 0 then c\<lparr>MaxFlowsPerWorker := 0\<rparr> else c);
         c = (if MaxReassemblyBytesPerWorker c < 0 then c\<lparr>MaxReassemblyBytesPerWorker := 0\<rparr> else c);
         c = (if MaxHeldBytesPerWorker c < 0 then c\<lparr>MaxHeldBytesPerWorker := 0\<rparr> else c)
     in \<lparr>wid = i, cfg = Some c, inq = [], inCap = nat (WorkerQueueSize c), inClosed = False,
         touchq = [], touchCap = nat (WorkerQueueSize c), touchClosed = False,
         flows = NewTable, heldBytes = 0, reassemblyBytes = 0, calls = []\<rparr>)"

definition save :: "key \<Rightarrow> flow_state \<Rightarrow> worker \<Rightarrow> worker" where
  "save k st w = w\<lparr>flows := Store (flows w) k st\<rparr>"

definition forget :: "key \<Rightarrow> worker \<Rightarrow> worker" where
  "forget k w = w\<lparr>flows := Delete (flows w) k\<rparr>"

section \<open>Calls of the adapter\<close>

definition send :: "adapter_env \<Rightarrow> packet \<Rightarrow> worker \<Rightarrow> outcome" where
  "send env pkt w = (let r = env_send env (calls w) pkt in (r, w\<lparr>calls := calls w @ [Sent pkt r]\<rparr>))"

definition drop_pkt :: "adapter_env \<Rightarrow> packet \<Rightarrow> worker \<Rightarrow> outcome" where
  "drop_pkt env pkt w = (let r = env_drop env (calls w) pkt in (r, w\<lparr>calls := calls w @ [Dropped pkt r]\<rparr>))"

text \<open>The loop of \<^verbatim>\<open>failOpen\<close>: it stops at the first error.\<close>

fun send_all :: "adapter_env \<Rightarrow> packet list \<Rightarrow> worker \<Rightarrow> outcome" where
  "send_all env [] w = (None, w)"
| "send_all env (p # ps) w = (case send env p w of
     (Some e, w') \<Rightarrow> (Some e, w')
   | (None, w') \<Rightarrow> send_all env ps w')"

fun dropHeld :: "adapter_env \<Rightarrow> packet list \<Rightarrow> worker \<Rightarrow> outcome" where
  "dropHeld env [] w = (None, w)"
| "dropHeld env (p # ps) w = (case drop_pkt env p w of
     (Some e, w') \<Rightarrow> (Some e, w')
   | (None, w') \<Rightarrow> dropHeld env ps w')"

section \<open>Fail-open\<close>

definition data_size :: "packet list \<Rightarrow> int" where
  "data_size ps = sum_list (map (\<lambda>p. int (length (Data p))) ps)"

definition buffer_size :: "buffer option \<Rightarrow> int" where
  "buffer_size r = (case r of None \<Rightarrow> 0 | Some b \<Rightarrow> int (unat (TotalBytes b)))"

text \<open>A counter is never left negative.\<close>

definition clamp0 :: "int \<Rightarrow> int" where
  "clamp0 i = (if i < 0 then 0 else i)"

definition clearCollectingState :: "flow_state \<Rightarrow> worker \<Rightarrow> flow_state \<times> worker" where
  "clearCollectingState st w =
     (st\<lparr>HeldPackets := [], Template := None, Reassembler := None\<rparr>,
      w\<lparr>heldBytes := clamp0 (heldBytes w - data_size (HeldPackets st)),
        reassemblyBytes := (case Reassembler st of None \<Rightarrow> reassemblyBytes w
          | Some b \<Rightarrow> clamp0 (reassemblyBytes w - int (unat (TotalBytes b))))\<rparr>)"

definition failOpen :: "adapter_env \<Rightarrow> key \<Rightarrow> flow_state \<Rightarrow> worker \<Rightarrow> outcome" where
  "failOpen env k st w = (case send_all env (HeldPackets st) w of
     (Some e, w') \<Rightarrow> (Some e, save k st w')
   | (None, w') \<Rightarrow>
       let (st', w'') = clearCollectingState (st\<lparr>State := StatePassThrough\<rparr>) w'
       in (None, save k st' w''))"

section \<open>Injecting a window\<close>

definition send_built :: "adapter_env \<Rightarrow> packet \<Rightarrow> worker \<Rightarrow> outcome" where
  "send_built env p w = (case env_calc env p of
     (Some e, p') \<Rightarrow> (Some e, w)
   | (None, p') \<Rightarrow> send env p' w)"

fun sendSegments :: "adapter_env \<Rightarrow> packet option \<Rightarrow> u32 \<Rightarrow> nat \<Rightarrow> bytes list \<Rightarrow> byte \<Rightarrow> byte
    \<Rightarrow> u16 option \<Rightarrow> worker \<Rightarrow> go_error option \<times> u16 option \<times> worker" where
  "sendSegments env tpl base off [] flags lastFlags ipid w = (None, ipid, w)"
| "sendSegments env tpl base off (s # rest) flags lastFlags ipid w = (
     if s = [] then sendSegments env tpl base off rest flags lastFlags ipid w else
     let segFlags = (if rest = [] then lastFlags else flags) in
     case buildPacket tpl (base + word_of_nat off) s segFlags ipid of
       (Inl e, ipid') \<Rightarrow> (Some e, ipid', w)
     | (Inr p, ipid') \<Rightarrow> (case send_built env p w of
         (Some e, w') \<Rightarrow> (Some e, ipid', w')
       | (None, w') \<Rightarrow> sendSegments env tpl base (off + length s) rest flags lastFlags ipid' w'))"

fun reinjectTrimmed :: "adapter_env \<Rightarrow> u32 \<Rightarrow> u32 \<Rightarrow> packet list \<Rightarrow> u16 option \<Rightarrow> worker
    \<Rightarrow> go_error option \<times> u16 option \<times> worker" where
  "reinjectTrimmed env base windowLen [] ipid w = (None, ipid, w)"
| "reinjectTrimmed env base windowLen (pkt # rest) ipid w = (
     let payload = Payload pkt in
     if payload = [] then reinjectTrimmed env base windowLen rest ipid w else
     let off = Seq (Meta pkt) - base;
         en = off + word_of_nat (length payload)
     in if en \<le> windowLen then reinjectTrimmed env base windowLen rest ipid w else
     let trim = (if off < windowLen then windowLen - off else 0)
     in if trim \<ge> word_of_nat (length payload) then reinjectTrimmed env base windowLen rest ipid w else
     case buildPacket (Some pkt) (Seq (Meta pkt) + trim) (drop (unat trim) payload)
            (Flags (Meta pkt)) ipid of
       (Inl e, ipid') \<Rightarrow> (Some e, ipid', w)
     | (Inr p, ipid') \<Rightarrow> (case send_built env p w of
         (Some e, w') \<Rightarrow> (Some e, ipid', w')
       | (None, w') \<Rightarrow> reinjectTrimmed env base windowLen rest ipid' w'))"

definition canTrimRemainder :: "flow_state \<Rightarrow> bool" where
  "canTrimRemainder st = (case Reassembler st of None \<Rightarrow> False
     | Some b \<Rightarrow> \<not> HadOutOfOrder b \<and> \<not> HadOverlap b)"

text \<open>The segments of the window and of what follows it in the contiguous prefix; the first
  error ends it.\<close>

definition inject_segments :: "adapter_env \<Rightarrow> config \<Rightarrow> flow_state \<Rightarrow> packet \<Rightarrow> int \<Rightarrow> bytes list
    \<Rightarrow> nat \<Rightarrow> bytes \<Rightarrow> worker \<Rightarrow> outcome" where
  "inject_segments env c st tpl maxPayload splitSegs windowLen remainder w = (
     let flags = Flags (Meta tpl);
         flagsNoPshFin = flags AND NOT (TCPFlagPSH OR TCPFlagFIN);
         splitLastFlags = (if remainder \<noteq> [] then flagsNoPshFin else flags)
     in case sendSegments env (Some tpl) (BaseSeq st) 0 splitSegs flagsNoPshFin splitLastFlags
               (Some (IPv4ID (Data tpl))) w of
       (Some e, ipid, w') \<Rightarrow> (Some e, w')
     | (None, ipid, w') \<Rightarrow>
         if remainder = [] then (None, w')
         else if canTrimRemainder st then
           (case reinjectTrimmed env (BaseSeq st) (word_of_nat windowLen) (HeldPackets st) ipid w' of
              (e, _, w'') \<Rightarrow> (e, w''))
         else
           (case sendSegments env (Some tpl) (BaseSeq st + word_of_nat windowLen) 0
                   (chunkPayload remainder maxPayload) flagsNoPshFin flags ipid w' of
              (e, _, w'') \<Rightarrow> (e, w'')))"

definition injectWindow :: "adapter_env \<Rightarrow> config option \<Rightarrow> key \<Rightarrow> flow_state \<Rightarrow> nat \<Rightarrow> worker \<Rightarrow> outcome" where
  "injectWindow env co k st windowLen w = (case co of
     None \<Rightarrow> (Some (ErrNew ''worker config is nil''), save k st w)
   | Some c \<Rightarrow>
     if windowLen < 1 then failOpen env k st w else
     case Reassembler st of None \<Rightarrow> (Some (GoPanic ''nil reassembler''), save k st w)
   | Some b \<Rightarrow>
     let contig = Contiguous b in
     if length contig < windowLen then (None, save k st w) else
     case Template st of None \<Rightarrow> failOpen env k st w
   | Some tpl \<Rightarrow>
     let headerLen = IPHeaderLen (Meta tpl) + TCPHeaderLen (Meta tpl);
         maxPayload = clampSegmentPayload (int (length (Payload tpl))) (int headerLen) (MaxSegmentPayload c)
     in if maxPayload < 1 then failOpen env k st w else
     let window = take windowLen contig;
         remainder = drop windowLen contig;
         splitSegs = splitFirst window (SplitChunk c) maxPayload
     in if length splitSegs < 2 then failOpen env k st w else
     case inject_segments env c st tpl maxPayload splitSegs windowLen remainder w of
       (Some e, w') \<Rightarrow> failOpen env k st w'
     | (None, w') \<Rightarrow> (case dropHeld env (HeldPackets st) w' of
         (Some e, w'') \<Rightarrow> (Some e, save k st w'')
       | (None, w'') \<Rightarrow>
           let (st', w3) = clearCollectingState (st\<lparr>State := StateInjected\<rparr>) w''
           in (None, save k (st'\<lparr>Processed := True\<rparr>) w3)))"

section \<open>When to inject\<close>

definition trySplitImmediate :: "adapter_env \<Rightarrow> config option \<Rightarrow> key \<Rightarrow> flow_state \<Rightarrow> worker \<Rightarrow> outcome" where
  "trySplitImmediate env c1 k st w = (
     if FirstPayloadLen st \<le> 0 then (None, save k st w) else
     case Reassembler st of None \<Rightarrow> failOpen env k st w
   | Some b \<Rightarrow>
     if length (Contiguous b) < FirstPayloadLen st then (None, save k st w)
     else injectWindow env c1 k st (FirstPayloadLen st) w)"

definition trySplitTLSHello :: "adapter_env \<Rightarrow> config option \<Rightarrow> config option \<Rightarrow> key \<Rightarrow> flow_state
    \<Rightarrow> worker \<Rightarrow> outcome" where
  "trySplitTLSHello env c1 c2 k st w = (case c1 of
     None \<Rightarrow> (Some (ErrNew ''worker config is nil''), save k st w)
   | Some c \<Rightarrow> (case Reassembler st of None \<Rightarrow> failOpen env k st w
   | Some b \<Rightarrow>
     (case DetectClientHelloRecord (Contiguous b) of
        (_, ResultNeedMore) \<Rightarrow> (None, save k st w)
      | (_, ResultMismatch) \<Rightarrow> failOpen env k st w
      | (recordLen, ResultMatch) \<Rightarrow>
          let need = 5 + unat recordLen in
          if int need > MaxBufferBytes c then failOpen env k st w
          else if length (Contiguous b) < need then (None, save k st w)
          else injectWindow env c2 k st need w)))"

section \<open>The handler\<close>

text \<open>Starting to collect, in the two places where the code does it.\<close>

definition begin_collect :: "config \<Rightarrow> int \<Rightarrow> packet \<Rightarrow> flow_state \<Rightarrow> flow_state" where
  "begin_collect c now pkt st = (if State st = StateNew
     then st\<lparr>BaseSeq := Seq (Meta pkt),
             Reassembler := Some (New (Seq (Meta pkt)) (word_of_int (MaxBufferBytes c))),
             State := StateCollecting, CollectStart := now,
             FirstPayloadLen := length (Payload pkt), Template := Some pkt\<rparr>
     else st\<lparr>Template := Some pkt\<rparr>)"

definition over_held :: "config \<Rightarrow> packet \<Rightarrow> worker \<Rightarrow> bool" where
  "over_held c pkt w \<longleftrightarrow> MaxHeldBytesPerWorker c > 0
     \<and> heldBytes w + int (length (Data pkt)) > MaxHeldBytesPerWorker c"

text \<open>Holding the packet and pushing its payload, again the same in both places but for the
  test for a nil reassembler.  The result is the handler's return, or the state to go on
  with.\<close>

definition hold_and_push :: "adapter_env \<Rightarrow> bool \<Rightarrow> config \<Rightarrow> int \<Rightarrow> key \<Rightarrow> packet \<Rightarrow> flow_state \<Rightarrow> worker
    \<Rightarrow> outcome + flow_state \<times> worker" where
  "hold_and_push env nilcheck c now k pkt st w = (
     if over_held c pkt w then
       Inl (case failOpen env k st w of (Some e, w') \<Rightarrow> (Some e, w') | (None, w') \<Rightarrow> send env pkt w')
     else
     let st = st\<lparr>HeldPackets := HeldPackets st @ [pkt]\<rparr>;
         w = w\<lparr>heldBytes := heldBytes w + int (length (Data pkt))\<rparr>
     in if int (length (HeldPackets st)) \<ge> MaxHeldPackets c then Inl (failOpen env k st w)
        else if now - CollectStart st > CollectTimeout c then Inl (failOpen env k st w)
        else case Reassembler st of
          None \<Rightarrow> Inl (if nilcheck then failOpen env k st w
                       else (Some (GoPanic ''nil reassembler''), save k st w))
        | Some b \<Rightarrow>
          let (err, b') = Push b (Seq (Meta pkt)) (Payload pkt);
              st = st\<lparr>Reassembler := Some b'\<rparr>;
              w = w\<lparr>reassemblyBytes := clamp0 (reassemblyBytes w
                      + (int (unat (TotalBytes b')) - int (unat (TotalBytes b))))\<rparr>
          in if err \<noteq> None then Inl (failOpen env k st w)
             else if MaxReassemblyBytesPerWorker c > 0
                  \<and> reassemblyBytes w > MaxReassemblyBytesPerWorker c then Inl (failOpen env k st w)
             else Inr (st, w))"

definition fail_and_forget :: "adapter_env \<Rightarrow> key \<Rightarrow> flow_state \<Rightarrow> worker \<Rightarrow> outcome" where
  "fail_and_forget env k st w = (case failOpen env k st w of
     (Some e, w') \<Rightarrow> (Some e, w') | (None, w') \<Rightarrow> (None, forget k w'))"

definition try_split :: "adapter_env \<Rightarrow> config \<Rightarrow> config option \<Rightarrow> config option \<Rightarrow> key \<Rightarrow> flow_state
    \<Rightarrow> worker \<Rightarrow> outcome" where
  "try_split env c c1 c2 k st w = (
     if SplitMode c = SplitModeImmediate then trySplitImmediate env c1 k st w
     else if SplitMode c = SplitModeTLSHello then trySplitTLSHello env c1 c2 k st w
     else (None, save k st w))"

definition handle_existing :: "adapter_env \<Rightarrow> config \<Rightarrow> config option \<Rightarrow> config option \<Rightarrow> int \<Rightarrow> key
    \<Rightarrow> packet \<Rightarrow> flow_state \<Rightarrow> worker \<Rightarrow> outcome" where
  "handle_existing env c c1 c2 now k pkt st w = (
     let st = st\<lparr>LastActive := now\<rparr>; payload = Payload pkt in
     if payload = [] \<and> (HasFlag pkt TCPFlagRST \<or> HasFlag pkt TCPFlagFIN) then
       (case (if State st = StateCollecting then failOpen env k st w else (None, save k st w)) of
          (Some e, w') \<Rightarrow> (Some e, w')
        | (None, w') \<Rightarrow> (case send env pkt w' of
            (Some e, w'') \<Rightarrow> (Some e, w'')
          | (None, w'') \<Rightarrow> (None, forget k w'')))
     else if State st = StateInjected \<or> State st = StatePassThrough then send env pkt (save k st w)
     else if payload = [] then send env pkt (save k st w)
     else case hold_and_push env True c now k pkt (begin_collect c now pkt st) w of
       Inl r \<Rightarrow> r
     | Inr (st', w') \<Rightarrow>
         if HasFlag pkt TCPFlagSYN then failOpen env k st' w'
         else if HasFlag pkt TCPFlagRST then fail_and_forget env k st' w'
         else if HasFlag pkt TCPFlagFIN then fail_and_forget env k st' w'
         else try_split env c c1 c2 k st' w')"

definition handle_new :: "adapter_env \<Rightarrow> config \<Rightarrow> config option \<Rightarrow> config option \<Rightarrow> int \<Rightarrow> key
    \<Rightarrow> packet \<Rightarrow> worker \<Rightarrow> outcome" where
  "handle_new env c c1 c2 now k pkt w = (
     let payload = Payload pkt in
     if payload = [] then send env pkt w
     else if MaxFlowsPerWorker c > 0 \<and> int (Len (flows w)) \<ge> MaxFlowsPerWorker c then send env pkt w
     else if over_held c pkt w then send env pkt w
     else if MaxReassemblyBytesPerWorker c > 0
          \<and> reassemblyBytes w + int (length payload) > MaxReassemblyBytesPerWorker c then send env pkt w
     else
     let (st, tab) = GetOrCreate (flows w) k now;
         st = st\<lparr>LastActive := now\<rparr>;
         w = w\<lparr>flows := tab\<rparr>
     in case hold_and_push env False c now k pkt (begin_collect c now pkt st) w of
       Inl r \<Rightarrow> r
     | Inr (st', w') \<Rightarrow>
         if HasFlag pkt TCPFlagSYN \<or> HasFlag pkt TCPFlagRST then
           (case failOpen env k st' w' of
              (Some e, w'') \<Rightarrow> (Some e, w'')
            | (None, w'') \<Rightarrow> (None, if HasFlag pkt TCPFlagRST then forget k w'' else w''))
         else if HasFlag pkt TCPFlagFIN then fail_and_forget env k st' w'
         else try_split env c c1 c2 k st' w')"

definition handlePacket :: "adapter_env \<Rightarrow> config option \<Rightarrow> config option \<Rightarrow> config option \<Rightarrow> int
    \<Rightarrow> packet \<Rightarrow> worker \<Rightarrow> outcome" where
  "handlePacket env c0 c1 c2 now pkt w = (case c0 of
     None \<Rightarrow> (Some (ErrNew ''worker config is nil''), w)
   | Some c \<Rightarrow>
     let k = KeyFromMeta (Meta pkt) in
     case Get (flows w) k of
       Some st \<Rightarrow> handle_existing env c c1 c2 now k pkt st w
     | None \<Rightarrow> handle_new env c c1 c2 now k pkt w)"

end
