(* ===== verification/WorkerRun.thy ===== *)
theory WorkerRun
  imports Worker
begin

text \<open>
  The worker around its handler (\<^verbatim>\<open>internal/engine/worker.go\<close>): the queues, the garbage
  collector of idle flows, the loop \<^verbatim>\<open>run\<close>, and the fail-open at shutdown.
\<close>

section \<open>The queues\<close>

text \<open>\<^verbatim>\<open>enqueue\<close>: \<^term>\<open>ctx0\<close> is the result of \<^verbatim>\<open>ctx.Err()\<close>; of the two arms of
  the select, \<^term>\<open>done\<close> is the one taken when it is \<^const>\<open>Some\<close> (the context's error
  then).  \<^const>\<open>None\<close> is a call that still blocks.\<close>

definition enqueue :: "go_error option \<Rightarrow> go_error option \<Rightarrow> packet \<Rightarrow> worker \<Rightarrow> outcome option" where
  "enqueue ctx0 done pkt w = (case ctx0 of
     Some e \<Rightarrow> Some (Some e, w)
   | None \<Rightarrow> (case done of
       Some e \<Rightarrow> Some (Some e, w)
     | None \<Rightarrow> if inClosed w then Some (Some (GoPanic ''send on closed channel''), w)
               else if length (inq w) < inCap w then Some (None, w\<lparr>inq := inq w @ [pkt]\<rparr>) else None))"

definition touchFlow :: "key \<Rightarrow> worker \<Rightarrow> worker" where
  "touchFlow k w = (if length (touchq w) < touchCap w then w\<lparr>touchq := touchq w @ [k]\<rparr> else w)"

definition setConfig :: "config \<Rightarrow> worker \<Rightarrow> worker" where
  "setConfig c w = w\<lparr>cfg := Some c\<rparr>"

definition close_worker :: "worker \<Rightarrow> worker" where
  "close_worker w = w\<lparr>inClosed := True, touchClosed := True\<rparr>"

section \<open>The garbage collector\<close>

definition gc_visit :: "adapter_env \<Rightarrow> int \<Rightarrow> int \<Rightarrow> key \<Rightarrow> flow_state
    \<Rightarrow> go_error option \<times> worker \<Rightarrow> go_error option \<times> worker" where
  "gc_visit env now idle k st s = (case s of (firstErr, w) \<Rightarrow>
     if now - LastActive st \<le> idle then (firstErr, w)
     else if State st = StateCollecting \<and> HeldPackets st \<noteq> [] then
       (case failOpen env k st w of
          (Some e, w') \<Rightarrow> (if firstErr = None then Some e else firstErr, w')
        | (None, w') \<Rightarrow> (firstErr, forget k w'))
     else (firstErr, forget k w))"

definition gc_idle :: "config option \<Rightarrow> int" where
  "gc_idle co = (case co of None \<Rightarrow> 30 * Second
     | Some c \<Rightarrow> if FlowIdleTimeout c > 0 then FlowIdleTimeout c else 30 * Second)"

definition gc :: "adapter_env \<Rightarrow> config option \<Rightarrow> int \<Rightarrow> key list \<Rightarrow> worker \<Rightarrow> outcome" where
  "gc env co now order w =
     Range order (\<lambda>s. flows (snd s)) (gc_visit env now (gc_idle co)) (None, w)"

section \<open>The loop\<close>

text \<open>What the select of \<^verbatim>\<open>run\<close> took, with the clock readings, configurations and the map
  order of that round.  A closed touch channel is seen once and then set to nil.\<close>

datatype choice =
    TakeIn "config option" "config option" "config option" int
  | TakeTouch int
  | TakeTimer "config option" int "key list"
  | TakeDone go_error

datatype progress = Running worker | Returned "go_error option" worker | NotReady

fun run_step :: "adapter_env \<Rightarrow> choice \<Rightarrow> worker \<Rightarrow> progress" where
  "run_step env (TakeIn c0 c1 c2 now) w = (case inq w of
     p # ps \<Rightarrow> (case handlePacket env c0 c1 c2 now p (w\<lparr>inq := ps\<rparr>) of
         (Some e, w') \<Rightarrow> Returned (Some e) w' | (None, w') \<Rightarrow> Running w')
   | [] \<Rightarrow> if inClosed w then Returned None w else NotReady)"
| "run_step env (TakeTouch now) w = (case touchq w of
     k # ks \<Rightarrow> Running (case Get (flows w) k of
         None \<Rightarrow> w\<lparr>touchq := ks\<rparr>
       | Some st \<Rightarrow> save k (st\<lparr>LastActive := now\<rparr>) (w\<lparr>touchq := ks\<rparr>))
   | [] \<Rightarrow> if touchClosed w then Running (w\<lparr>touchClosed := False\<rparr>) else NotReady)"
| "run_step env (TakeTimer co now order) w = (case gc env co now order w of
     (Some e, w') \<Rightarrow> Returned (Some e) w' | (None, w') \<Rightarrow> Running w')"
| "run_step env (TakeDone e) w = Returned (Some e) w"

fun run :: "adapter_env \<Rightarrow> choice list \<Rightarrow> worker \<Rightarrow> progress" where
  "run env [] w = Running w"
| "run env (ch # chs) w = (case run_step env ch w of
     Running w' \<Rightarrow> run env chs w' | Returned e w' \<Rightarrow> Returned e w' | NotReady \<Rightarrow> NotReady)"

text \<open>The timer's period, read before the loop and after every collection.\<close>

definition gc_interval :: "config option \<Rightarrow> int" where
  "gc_interval co = (case co of None \<Rightarrow> 5 * Second
     | Some c \<Rightarrow> if GCInterval c > 0 then GCInterval c else 5 * Second)"

section \<open>Fail-open at shutdown\<close>

text \<open>\<^term>\<open>ctx\<close> gives the result of the n-th call of \<^verbatim>\<open>ctx.Err()\<close>.\<close>

record shutdown =
  sw :: worker
  flushed :: int
  ticks :: nat
  firstErr :: "go_error option"
  stopErr :: "go_error option"

definition ctx_check :: "(nat \<Rightarrow> go_error option) \<Rightarrow> shutdown \<Rightarrow> go_error option \<times> shutdown" where
  "ctx_check ctx s = (ctx (ticks s), s\<lparr>ticks := ticks s + 1\<rparr>)"

definition reinject :: "adapter_env \<Rightarrow> (nat \<Rightarrow> go_error option) \<Rightarrow> int \<Rightarrow> packet \<Rightarrow> shutdown
    \<Rightarrow> go_error option \<times> shutdown" where
  "reinject env ctx maxPackets pkt s0 = (case ctx_check ctx s0 of
     (Some e, s) \<Rightarrow> (Some e, s)
   | (None, s) \<Rightarrow>
     if maxPackets > 0 \<and> flushed s \<ge> maxPackets then (Some ErrShutdownFailOpenLimitReached, s)
     else (case send env pkt (sw s) of
         (Some e, w) \<Rightarrow> (Some e, s\<lparr>sw := w\<rparr>)
       | (None, w) \<Rightarrow> (None, s\<lparr>sw := w, flushed := flushed s + 1\<rparr>)))"

definition stops :: "go_error \<Rightarrow> bool" where
  "stops e \<longleftrightarrow> errors_is e ContextCanceled \<or> errors_is e ContextDeadlineExceeded
     \<or> errors_is e ErrShutdownFailOpenLimitReached"

fun flush_held :: "adapter_env \<Rightarrow> (nat \<Rightarrow> go_error option) \<Rightarrow> int \<Rightarrow> packet list \<Rightarrow> shutdown \<Rightarrow> shutdown" where
  "flush_held env ctx mx [] s = s"
| "flush_held env ctx mx (p # ps) s = (case reinject env ctx mx p s of
     (None, s') \<Rightarrow> flush_held env ctx mx ps s'
   | (Some e, s') \<Rightarrow>
       if stops e then s'\<lparr>stopErr := Some e\<rparr>
       else flush_held env ctx mx ps (if firstErr s' = None then s'\<lparr>firstErr := Some e\<rparr> else s'))"

definition flush_visit :: "adapter_env \<Rightarrow> (nat \<Rightarrow> go_error option) \<Rightarrow> int \<Rightarrow> key \<Rightarrow> flow_state
    \<Rightarrow> shutdown \<Rightarrow> shutdown" where
  "flush_visit env ctx mx k st s = (if stopErr s \<noteq> None then s
     else if HeldPackets st = [] then s
     else flush_held env ctx mx (HeldPackets st) s)"

definition join_err :: "go_error option \<Rightarrow> go_error \<Rightarrow> go_error option" where
  "join_err fe e = (case fe of None \<Rightarrow> Some e | Some f \<Rightarrow> Some (ErrJoin [f, e]))"

text \<open>Draining the queue: the argument is what is left in it.\<close>

fun drain :: "adapter_env \<Rightarrow> (nat \<Rightarrow> go_error option) \<Rightarrow> int \<Rightarrow> packet list \<Rightarrow> shutdown
    \<Rightarrow> go_error option \<times> packet list \<times> shutdown" where
  "drain env ctx mx q s0 = (case ctx_check ctx s0 of
     (Some e, s) \<Rightarrow> (join_err (firstErr s) e, q, s)
   | (None, s) \<Rightarrow>
     if mx > 0 \<and> flushed s \<ge> mx then (join_err (firstErr s) ErrShutdownFailOpenLimitReached, q, s)
     else (case q of
       [] \<Rightarrow> (firstErr s, [], s)
     | p # ps \<Rightarrow> (case reinject env ctx mx p s of
         (None, s') \<Rightarrow> drain env ctx mx ps s'
       | (Some e, s') \<Rightarrow> if stops e then (join_err (firstErr s') e, ps, s')
           else drain env ctx mx ps (if firstErr s' = None then s'\<lparr>firstErr := Some e\<rparr> else s'))))"

declare drain.simps [simp del]

definition flush_limit :: "config option \<Rightarrow> int" where
  "flush_limit co = (case co of None \<Rightarrow> 200000
     | Some c \<Rightarrow> if ShutdownFailOpenMaxPackets c > 0 then ShutdownFailOpenMaxPackets c else 200000)"

definition shutdownFailOpen :: "adapter_env \<Rightarrow> (nat \<Rightarrow> go_error option) \<Rightarrow> config option \<Rightarrow> key list
    \<Rightarrow> worker \<Rightarrow> outcome" where
  "shutdownFailOpen env ctx co order w = (
     let mx = flush_limit co;
         s = Range order (\<lambda>s. flows (sw s)) (flush_visit env ctx mx)
               \<lparr>sw = w, flushed = 0, ticks = 0, firstErr = None, stopErr = None\<rparr>
     in case stopErr s of
       Some e \<Rightarrow> (join_err (firstErr s) e, sw s)
     | None \<Rightarrow> (case drain env ctx mx (inq w) s of
         (e, q, s') \<Rightarrow> (e, (sw s')\<lparr>inq := q\<rparr>)))"

end
