(* ===== verification/Checksum.thy ===== *)
theory Checksum
  imports Packet
begin

text \<open>
  The Internet checksum (\<^verbatim>\<open>internal/packet/checksum.go\<close>): the 32-bit accumulation of
  16-bit words, the end-around-carry fold, and the IPv4 and TCP checksums.  The lemmas give
  each routine its meaning over the naturals: the accumulator does not overflow on anything
  an IPv4 packet can hold, the fold computes the residue modulo 65535, and a checksum stored
  over a zeroed field makes the covered words sum to 65535.
\<close>

section \<open>The routines\<close>

text \<open>The loop of \<^verbatim>\<open>checksumSum\<close>, with its accumulator.\<close>

fun checksumSum_loop :: "bytes \<Rightarrow> u32 \<Rightarrow> u32" where
  "checksumSum_loop (a # b # d) s = checksumSum_loop d (s + ucast (be16 [a, b] 0))"
| "checksumSum_loop [a] s = s + push_bit 8 (ucast a)"
| "checksumSum_loop [] s = s"

definition checksumSum :: "bytes \<Rightarrow> u32" where
  "checksumSum d = checksumSum_loop d 0"

lemma fold_decreases:
  assumes "drop_bit 16 s \<noteq> (0 :: u32)"
  shows "unat ((s AND 0xffff) + drop_bit 16 s) < unat s"
proof -
  let ?hi = "unat s div 65536" and ?lo = "unat s mod 65536"
  have hi: "unat (drop_bit 16 s) = ?hi"
    by (simp only: unat_drop_bit_eq) (simp add: drop_bit_eq_div)
  have "s AND 0xffff = take_bit 16 s"
    by (simp add: take_bit_eq_mask mask_eq_exp_minus_1)
  then have lo: "unat (s AND 0xffff) = ?lo"
    by (simp only: unsigned_take_bit_eq) (simp add: take_bit_eq_mod)
  from assms hi have "?hi \<noteq> 0"
    by (metis unsigned_0 unsigned_word_eqI)
  moreover have "unat s = 65536 * ?hi + ?lo" by simp
  moreover have "unat ((s AND 0xffff) + drop_bit 16 s) \<le> ?lo + ?hi"
    unfolding unat_word_ariths hi lo by simp
  ultimately show ?thesis by linarith
qed

function foldChecksum :: "u32 \<Rightarrow> u32" where
  "foldChecksum s = (if drop_bit 16 s \<noteq> 0
     then foldChecksum ((s AND 0xffff) + drop_bit 16 s) else s)"
  by pat_completeness auto
termination
  by (relation "measure unat") (use fold_decreases in auto)

declare foldChecksum.simps [simp del]

definition Checksum :: "bytes \<Rightarrow> u16" where
  "Checksum d = NOT (ucast (foldChecksum (checksumSum d)))"

definition IPv4Checksum :: "bytes \<Rightarrow> nat \<Rightarrow> u16" where
  "IPv4Checksum d headerLen = (if headerLen < 20 \<or> length d < headerLen then 0
     else Checksum (take headerLen d))"

definition TCPChecksumIPv4 :: "bytes \<Rightarrow> nat \<Rightarrow> u16" where
  "TCPChecksumIPv4 d headerLen = (if headerLen < 20 \<or> length d < headerLen + 20 then 0 else
     let announced = int (unat (be16 d 2));
         totalLen = (if announced \<le> 0 \<or> announced > int (length d) then int (length d)
                     else announced);
         tcpLen = totalLen - int headerLen
     in if tcpLen < 0 \<or> int headerLen + tcpLen > int (length d) then 0 else
     let s0 = ucast (be16 d 12) + ucast (be16 d 14) + ucast (be16 d 16) + ucast (be16 d 18)
              + ucast (d ! 9) + word_of_int tcpLen;
         s1 = s0 + checksumSum (take (nat tcpLen) (drop headerLen d))
     in NOT (ucast (foldChecksum s1)))"

section \<open>Meaning over the naturals\<close>

fun words_sum :: "bytes \<Rightarrow> nat" where
  "words_sum (a # b # d) = 256 * unat a + unat b + words_sum d"
| "words_sum [a] = 256 * unat a"
| "words_sum [] = 0"

lemma words_sum_append: "even (length xs) \<Longrightarrow> words_sum (xs @ ys) = words_sum xs + words_sum ys"
  by (induction xs rule: words_sum.induct) auto

lemma words_sum_bound: "words_sum d \<le> 65535 * ((length d + 1) div 2)"
proof (induction d rule: words_sum.induct)
  case (1 a b d)
  then show ?case using unat_byte_less [of a] unat_byte_less [of b] by simp
next
  case (2 a)
  then show ?case using unat_byte_less [of a] by simp
qed simp

lemma checksumSum_loop_eq:
  "checksumSum_loop d s = s + word_of_nat (words_sum d)"
proof (induction d s rule: checksumSum_loop.induct)
  case (1 a b d s)
  have "ucast (be16 [a, b] 0) = (word_of_nat (256 * unat a + unat b) :: u32)"
    by (simp only: ucast_u16_u32 unat_be16) simp
  with 1 show ?case by simp
next
  case (2 a s)
  show ?case by (simp add: push_bit_eq_mult ucast_byte_u32 mult.commute del: of_nat_unat)
qed simp


lemma unat_checksumSum:
  assumes "length d \<le> 131070"
  shows "unat (checksumSum d) = words_sum d"
proof -
  have "words_sum d \<le> 65535 * 65535"
    by (rule order_trans [OF words_sum_bound]) (use assms in simp)
  then have "words_sum d < 2 ^ LENGTH(32)" by simp
  then show ?thesis
    by (simp add: checksumSum_def checksumSum_loop_eq unsigned_of_nat take_bit_nat_eq_self)
qed

section \<open>The fold\<close>

lemma foldChecksum_step_mod:
  "unat ((s AND 0xffff) + drop_bit 16 (s :: u32)) mod 65535 = unat s mod 65535
   \<and> (unat ((s AND 0xffff) + drop_bit 16 s) = 0 \<longleftrightarrow> unat s = 0)"
proof -
  let ?hi = "unat s div 65536" and ?lo = "unat s mod 65536"
  have hi: "unat (drop_bit 16 s) = ?hi"
    by (simp only: unat_drop_bit_eq) (simp add: drop_bit_eq_div)
  have "s AND 0xffff = take_bit 16 s"
    by (simp add: take_bit_eq_mask mask_eq_exp_minus_1)
  then have lo: "unat (s AND 0xffff) = ?lo"
    by (simp only: unsigned_take_bit_eq) (simp add: take_bit_eq_mod)
  have split: "unat s = 65536 * ?hi + ?lo" by simp
  have "?hi < 65536" using unat_u32_less [of s] by simp
  then have sum: "unat ((s AND 0xffff) + drop_bit 16 s) = ?lo + ?hi"
    unfolding unat_word_ariths hi lo by simp
  have "unat s mod 65535 = (65535 * ?hi + (?lo + ?hi)) mod 65535"
    using split by simp
  also have "\<dots> = (?lo + ?hi) mod 65535"
    by (rule mod_mult_self4)
  finally show ?thesis
    using sum split by auto
qed

lemma foldChecksum_mod: "unat (foldChecksum s) mod 65535 = unat s mod 65535"
proof (induction s rule: foldChecksum.induct)
  case (1 s)
  then show ?case
    using foldChecksum_step_mod [of s] by (subst foldChecksum.simps) auto
qed

lemma foldChecksum_zero_iff: "unat (foldChecksum s) = 0 \<longleftrightarrow> unat s = 0"
proof (induction s rule: foldChecksum.induct)
  case (1 s)
  then show ?case
    using foldChecksum_step_mod [of s] by (subst foldChecksum.simps) auto
qed

lemma foldChecksum_less: "unat (foldChecksum s) < 65536"
proof (induction s rule: foldChecksum.induct)
  case (1 s)
  show ?case
  proof (cases "drop_bit 16 s = 0")
    case True
    have "unat (drop_bit 16 s) = unat s div 65536"
      by (simp only: unat_drop_bit_eq) (simp add: drop_bit_eq_div)
    with True have "unat s div 65536 = 0" by simp
    then show ?thesis using True by (subst foldChecksum.simps) auto
  next
    case False
    then show ?thesis using 1 by (subst foldChecksum.simps) auto
  qed
qed

text \<open>
  The value the checksum field must take over the words already summed: adding it makes the
  total a positive multiple of 65535, which is how a receiver verifies a packet.
\<close>

definition ones_valid :: "nat \<Rightarrow> bool" where
  "ones_valid n \<longleftrightarrow> 0 < n \<and> n mod 65535 = 0"

lemma checksum_completes:
  fixes s :: u32
  defines "c \<equiv> NOT (ucast (foldChecksum s) :: u16)"
  shows "ones_valid (unat s + unat c)"
proof -
  let ?f = "unat (foldChecksum s)"
  have f: "?f < 65536" by (rule foldChecksum_less)
  then have uc: "unat (ucast (foldChecksum s) :: u16) = ?f"
    by (simp add: unsigned_ucast_eq take_bit_nat_eq_self)
  have c: "unat c = 65535 - ?f"
    using uc unat_not_u16 [of "ucast (foldChecksum s)"] by (simp add: c_def)
  have "(unat s + (65535 - ?f)) mod 65535 = (?f + (65535 - ?f)) mod 65535"
    by (metis foldChecksum_mod mod_add_left_eq)
  also have "\<dots> = 0" using f by simp
  finally have "(unat s + unat c) mod 65535 = 0" using c by simp
  moreover have "0 < unat s + unat c"
    using foldChecksum_zero_iff [of s] c by auto
  ultimately show ?thesis by (simp add: ones_valid_def)
qed


section \<open>Storing a checksum\<close>

lemma drop_put_be16:
  "n \<le> i \<Longrightarrow> i + 1 < length d \<Longrightarrow> drop n (put_be16 d i v) = put_be16 (drop n d) (i - n) v"
  by (simp add: put_be16_def drop_update_swap Suc_diff_le)

lemma split_two: "i + 1 < length d \<Longrightarrow> d = take i d @ d ! i # d ! (i + 1) # drop (i + 2) d"
  by (metis Cons_nth_drop_Suc Suc_eq_plus1 Suc_lessD add_2_eq_Suc' append_take_drop_id)

lemma put_be16_split:
  assumes "i + 1 < length d"
  shows "put_be16 d i v = take i d @ ucast (drop_bit 8 v) # ucast v # drop (i + 2) d"
proof -
  have "put_be16 d i v = (take i d @ d ! i # d ! (i + 1) # drop (i + 2) d)
          [i := ucast (drop_bit 8 v), i + 1 := ucast v]"
    using split_two [OF assms] by (simp add: put_be16_def)
  then show ?thesis
    using assms by (simp add: list_update_append)
qed

lemma unat_high_low:
  "256 * unat (ucast (drop_bit 8 v :: u16) :: byte) + unat (ucast v :: byte) = unat v"
  using unat_be16 [of "[ucast (drop_bit 8 v), ucast v]" 0]
  by (simp add: be16_def be16_combine)

lemma words_sum_put:
  assumes "even i" "i + 1 < length d" "d ! i = 0" "d ! (i + 1) = 0"
  shows "words_sum (put_be16 d i v) = words_sum d + unat v"
proof -
  have "words_sum d = words_sum (take i d @ 0 # 0 # drop (i + 2) d)"
    using split_two [OF assms(2)] assms(3,4) by simp
  also have "\<dots> = words_sum (take i d) + words_sum (drop (i + 2) d)"
    using assms(1,2) by (simp add: words_sum_append)
  finally show ?thesis
    using assms(1,2) by (simp add: put_be16_split words_sum_append unat_high_low)
qed

lemma ipv4_store_valid:
  assumes "even h" "20 \<le> h" "h \<le> length d" "h \<le> 131070" "d ! 10 = 0" "d ! 11 = 0"
  shows "ones_valid (words_sum (take h (SetIPv4Checksum d (IPv4Checksum d h))))"
proof -
  have "unat (checksumSum (take h d)) = words_sum (take h d)"
    using assms by (intro unat_checksumSum) simp
  moreover have "words_sum (put_be16 (take h d) 10 v) = words_sum (take h d) + unat v" for v
    using assms by (intro words_sum_put) auto
  ultimately show ?thesis
    using assms checksum_completes [of "checksumSum (take h d)"]
    by (simp add: SetIPv4Checksum_def IPv4Checksum_def Checksum_def take_put_be16)
qed

text \<open>
  What a receiver adds up for TCP over IPv4: the addresses, the protocol number, the segment
  length and the words of the segment.
\<close>

definition tcp_total :: "bytes \<Rightarrow> nat" where
  "tcp_total d = (if be16 d 2 = 0 \<or> length d < unat (be16 d 2) then length d
     else unat (be16 d 2))"

definition tcp_receiver_sum :: "bytes \<Rightarrow> nat \<Rightarrow> nat" where
  "tcp_receiver_sum d h = (let n = tcp_total d - h in
     unat (be16 d 12) + unat (be16 d 14) + unat (be16 d 16) + unat (be16 d 18)
     + unat (d ! 9) + n + words_sum (take n (drop h d)))"

lemma TCPChecksumIPv4_eq:
  assumes "20 \<le> h" "h + 20 \<le> length d" "h \<le> tcp_total d" "length d \<le> 65535"
  shows "\<exists>s :: u32. TCPChecksumIPv4 d h = NOT (ucast (foldChecksum s))
           \<and> unat s = tcp_receiver_sum d h"
proof -
  define n where "n = tcp_total d - h"
  define s :: u32 where "s = ucast (be16 d 12) + ucast (be16 d 14) + ucast (be16 d 16)
     + ucast (be16 d 18) + ucast (d ! 9) + word_of_nat n + checksumSum (take n (drop h d))"
  have total: "tcp_total d \<le> length d"
    using assms by (simp add: tcp_total_def not_less)
  have announced: "(if int (unat (be16 d 2)) \<le> 0 \<or> int (unat (be16 d 2)) > int (length d)
      then int (length d) else int (unat (be16 d 2))) = int (tcp_total d)"
  proof -
    have "(if int u \<le> 0 \<or> int u > int l then int l else int u)
        = int (if u = 0 \<or> l < u then l else u)" for u l :: nat by simp
    then show ?thesis unfolding tcp_total_def by (simp only: unsigned_eq_0_iff)
  qed
  have tl: "int (tcp_total d) - int h = int n"
    using assms by (simp add: n_def)
  have "TCPChecksumIPv4 d h = NOT (ucast (foldChecksum s))"
  proof -
    have "h + n \<le> length d" using total assms by (simp add: n_def)
    then have fits: "\<not> int h + int n > int (length d)" by simp
    show ?thesis
      using assms fits unfolding TCPChecksumIPv4_def Let_def announced tl
      by (simp add: s_def add.assoc)
  qed
  moreover have "unat s = tcp_receiver_sum d h"
  proof -
    let ?W = "words_sum (take n (drop h d))"
    let ?N = "unat (be16 d 12) + unat (be16 d 14) + unat (be16 d 16) + unat (be16 d 18)
      + unat (d ! 9) + n + ?W"
    have n: "n \<le> 65535" using assms total n_def by simp
    have w: "checksumSum (take n (drop h d)) = word_of_nat ?W"
      by (simp add: checksumSum_def checksumSum_loop_eq)
    have "?W \<le> 65535 * 32768"
      by (rule order_trans [OF words_sum_bound]) (use n assms in simp)
    then have small: "?N < 2 ^ LENGTH(32)"
      using n unat_u16_less [of "be16 d 12"] unat_u16_less [of "be16 d 14"]
        unat_u16_less [of "be16 d 16"] unat_u16_less [of "be16 d 18"] unat_byte_less [of "d ! 9"]
      by simp
    have "s = word_of_nat ?N"
      unfolding s_def w ucast_u16_u32 ucast_byte_u32 by (simp only: of_nat_add)
    then have "unat s = ?N"
      using small by (simp only: unsigned_of_nat take_bit_nat_eq_self of_nat_id)
    then show ?thesis by (simp add: tcp_receiver_sum_def n_def Let_def)
  qed
  ultimately show ?thesis by blast
qed


lemma be16_put_other: "k + 1 < i \<or> i + 1 < k \<Longrightarrow> be16 (put_be16 d i v) k = be16 d k"
  by (auto simp: be16_def put_be16_def)

lemma tcp_store_valid:
  assumes "even h" "20 \<le> h" "h + 20 \<le> length d" "length d \<le> 65535" "h + 18 \<le> tcp_total d"
    "d ! (h + 16) = 0" "d ! (h + 17) = 0"
  shows "ones_valid (tcp_receiver_sum (SetTCPChecksum d h (TCPChecksumIPv4 d h)) h)"
proof -
  obtain s :: u32 where c: "TCPChecksumIPv4 d h = NOT (ucast (foldChecksum s))"
    and s: "unat s = tcp_receiver_sum d h"
    using TCPChecksumIPv4_eq [of h d] assms by auto
  let ?c = "TCPChecksumIPv4 d h"
  define e where "e = put_be16 d (h + 16) ?c"
  define n where "n = tcp_total d - h"
  have n: "18 \<le> n" using assms by (simp add: n_def)
  have hdr: "be16 e 12 = be16 d 12" "be16 e 14 = be16 d 14" "be16 e 16 = be16 d 16"
    "be16 e 18 = be16 d 18" "be16 e 2 = be16 d 2" "e ! 9 = d ! 9"
    using assms by (simp_all add: e_def be16_put_other be_simps)
  then have total: "tcp_total e = tcp_total d"
    by (simp add: tcp_total_def e_def)
  have "take n (drop h e) = put_be16 (take n (drop h d)) 16 ?c"
    using assms n by (simp add: e_def drop_put_be16 take_put_be16)
  also have "words_sum \<dots> = words_sum (take n (drop h d)) + unat ?c"
    using assms n by (intro words_sum_put) (auto simp: add.commute)
  finally have "tcp_receiver_sum e h = tcp_receiver_sum d h + unat ?c"
    by (simp add: tcp_receiver_sum_def Let_def hdr total n_def)
  moreover have "SetTCPChecksum d h ?c = e"
    using assms by (simp add: SetTCPChecksum_def e_def)
  ultimately show ?thesis
    using checksum_completes [of s] by (simp add: c s)
qed

lemmas ones_check = ipv4_store_valid tcp_store_valid

end
