(* ===== verification/AdapterChecksums.thy ===== *)
theory AdapterChecksums
  imports Checksum Split
begin

text \<open>
  The adapters' \<^verbatim>\<open>CalcChecksums\<close>.  The NFQUEUE and divert adapters share the body
  modelled here (\<^verbatim>\<open>internal/adapter/nfqueue_linux.go\<close>,
  \<^verbatim>\<open>internal/adapter/divert_freebsd.go\<close>); the stub of
  \<^verbatim>\<open>internal/adapter/adapter.go\<close> always fails; the WinDivert adapter calls its DLL.
  The worker relies on what the locale \<^verbatim>\<open>checksummer\<close> says.
\<close>

section \<open>The operations\<close>

definition CalcChecksums :: "packet \<Rightarrow> go_error option \<times> packet" where
  "CalcChecksums pkt = (
     if length (Data pkt) < 20 then (None, pkt) else
     let ipHeaderLen = unat (Data pkt ! 0 AND 0x0f) * 4 in
     if ipHeaderLen < 20 \<or> length (Data pkt) < ipHeaderLen + 20 then (None, pkt) else
     let d = SetIPv4ChecksumZero (Data pkt);
         d = SetTCPChecksumZero d ipHeaderLen;
         ipSum = IPv4Checksum d ipHeaderLen;
         tcpSum = TCPChecksumIPv4 d ipHeaderLen;
         d = SetIPv4Checksum d ipSum;
         d = SetTCPChecksum d ipHeaderLen tcpSum
     in (None, pkt\<lparr>Data := d\<rparr>))"

definition stub_CalcChecksums :: "packet \<Rightarrow> go_error option \<times> packet" where
  "stub_CalcChecksums pkt = (Some ErrNotImplemented, pkt)"

section \<open>The interface\<close>

text \<open>A checksum routine writes nothing but the two checksum fields.\<close>

definition same_but_checksums :: "bytes \<Rightarrow> bytes \<Rightarrow> bool" where
  "same_but_checksums d e \<longleftrightarrow> length e = length d
     \<and> (\<forall>k < length d. k \<notin> {10, 11, ip_hlen d + 16, ip_hlen d + 17} \<longrightarrow> e ! k = d ! k)"

locale checksummer =
  fixes calc :: "packet \<Rightarrow> go_error option \<times> packet"
  assumes calc_frame: "\<And>p. snd (calc p) = p\<lparr>Data := Data (snd (calc p))\<rparr>"
    and calc_bytes: "\<And>p. same_but_checksums (Data p) (Data (snd (calc p)))"
begin

lemma calc_length: "length (Data (snd (calc p))) = length (Data p)"
  using calc_bytes [of p] by (simp add: same_but_checksums_def)

lemma calc_nth:
  "k < length (Data p) \<Longrightarrow> k \<notin> {10, 11, ip_hlen (Data p) + 16, ip_hlen (Data p) + 17}
    \<Longrightarrow> Data (snd (calc p)) ! k = Data p ! k"
  using calc_bytes [of p] by (simp add: same_but_checksums_def)

lemma calc_source: "Source (snd (calc p)) = Source p"
  by (subst calc_frame) simp

text \<open>Whatever the routine writes, a receiver decodes the same packet.\<close>

lemma calc_decode:
  assumes "valid_tcp4 (Data p)"
  shows "valid_tcp4 (Data (snd (calc p)))" "decoded_meta (Data (snd (calc p))) = decoded_meta (Data p)"
    and "drop (ip_hlen (Data p) + tcp_hlen (Data p)) (Data (snd (calc p)))
       = drop (ip_hlen (Data p) + tcp_hlen (Data p)) (Data p)"
proof -
  let ?d = "Data p" and ?e = "Data (snd (calc p))"
  have v: "20 \<le> ip_hlen ?d" "ip_hlen ?d + 20 \<le> length ?d" "20 \<le> tcp_hlen ?d"
    "ip_hlen ?d + tcp_hlen ?d \<le> length ?d"
    using assms by (simp_all add: valid_tcp4_def)
  have n: "?e ! k = ?d ! k" if "k < length ?d" "k \<noteq> 10" "k \<noteq> 11"
      "k \<noteq> ip_hlen ?d + 16" "k \<noteq> ip_hlen ?d + 17" for k
    using that calc_nth [of k p] by simp
  have h: "ip_hlen ?e = ip_hlen ?d" using n [of 0] v unfolding ip_hlen_def by fastforce
  have t: "tcp_hlen ?e = tcp_hlen ?d" using n [of "ip_hlen ?d + 12"] v by (simp add: tcp_hlen_def h)
  have w: "be16 ?e k = be16 ?d k" if "k + 1 < length ?d" "k < 9 \<or> 11 < k"
      "k + 1 < ip_hlen ?d + 16 \<or> ip_hlen ?d + 17 < k" for k
    using that by (intro be16_cong n) auto
  have "?e ! 0 = ?d ! 0" using v by (intro n) auto
  then show "valid_tcp4 ?e"
    using assms v n [of 9] w [of 6] by (simp add: valid_tcp4_def h t calc_length)
  show "decoded_meta ?e = decoded_meta ?d"
  proof -
    have g: "?e ! k = ?d ! k" if "12 \<le> k" "k < ip_hlen ?d + 16" for k
      using that v by (intro n) auto
    have "?e ! 12 = ?d ! 12" "?e ! 13 = ?d ! 13" "?e ! 14 = ?d ! 14" "?e ! 15 = ?d ! 15"
      "?e ! 16 = ?d ! 16" "?e ! 17 = ?d ! 17" "?e ! 18 = ?d ! 18" "?e ! 19 = ?d ! 19"
      "be16 ?e (ip_hlen ?d) = be16 ?d (ip_hlen ?d)"
      "be16 ?e (ip_hlen ?d + 2) = be16 ?d (ip_hlen ?d + 2)"
      "be32 ?e (ip_hlen ?d + 4) = be32 ?d (ip_hlen ?d + 4)"
      "be32 ?e (ip_hlen ?d + 8) = be32 ?d (ip_hlen ?d + 8)"
      "?e ! (ip_hlen ?d + 13) = ?d ! (ip_hlen ?d + 13)"
      using v by (auto intro!: g be16_cong be32_cong)
    then show ?thesis by (simp only: decoded_meta_def h t)
  qed
  show "drop (ip_hlen ?d + tcp_hlen ?d) ?e = drop (ip_hlen ?d + tcp_hlen ?d) ?d"
    using v by (intro nth_equalityI) (auto simp: calc_length n)
qed

end

section \<open>The code's routines satisfy it\<close>

lemma CalcChecksums_cases:
  obtains (short) "CalcChecksums p = (None, p)"
    "length (Data p) < 20 \<or> ip_hlen (Data p) < 20 \<or> length (Data p) < ip_hlen (Data p) + 20"
  | (filled) z where "20 \<le> length (Data p)" "20 \<le> ip_hlen (Data p)" "ip_hlen (Data p) + 20 \<le> length (Data p)"
    "z = (Data p)[10 := 0, 11 := 0, ip_hlen (Data p) + 16 := 0, ip_hlen (Data p) + 17 := 0]"
    "CalcChecksums p = (None, p\<lparr>Data := SetTCPChecksum
        (SetIPv4Checksum z (IPv4Checksum z (ip_hlen (Data p)))) (ip_hlen (Data p))
        (TCPChecksumIPv4 z (ip_hlen (Data p)))\<rparr>)"
  by (cases "length (Data p) < 20 \<or> ip_hlen (Data p) < 20 \<or> length (Data p) < ip_hlen (Data p) + 20")
    (auto simp: CalcChecksums_def Let_def ip_hlen_def SetIPv4ChecksumZero_def SetTCPChecksumZero_def)

interpretation nfq: checksummer CalcChecksums
proof
  fix p :: packet
  show "snd (CalcChecksums p) = p\<lparr>Data := Data (snd (CalcChecksums p))\<rparr>"
    by (cases p rule: CalcChecksums_cases) simp_all
  show "same_but_checksums (Data p) (Data (snd (CalcChecksums p)))"
    by (cases p rule: CalcChecksums_cases)
      (simp_all add: same_but_checksums_def SetTCPChecksum_def SetIPv4Checksum_def put_be16_def)
qed

interpretation stub: checksummer stub_CalcChecksums
  by unfold_locales (simp_all add: stub_CalcChecksums_def same_but_checksums_def)

section \<open>The checksums verify\<close>

lemma TCPChecksumIPv4_put_ip:
  assumes "20 \<le> h" "20 \<le> length d"
  shows "TCPChecksumIPv4 (put_be16 d 10 v) h = TCPChecksumIPv4 d h"
proof -
  have "be16 (put_be16 d 10 v) 2 = be16 d 2" "be16 (put_be16 d 10 v) 12 = be16 d 12"
    "be16 (put_be16 d 10 v) 14 = be16 d 14" "be16 (put_be16 d 10 v) 16 = be16 d 16"
    "be16 (put_be16 d 10 v) 18 = be16 d 18"
    by (simp_all add: be16_put_other)
  moreover have "put_be16 d 10 v ! 9 = d ! 9" by (simp add: be_simps)
  moreover have "drop h (put_be16 d 10 v) = drop h d"
    using assms by (simp add: put_be16_def)
  ultimately show ?thesis by (simp only: TCPChecksumIPv4_def length_put_be16)
qed

lemma take_put_be16_ge: "n \<le> i \<Longrightarrow> take n (put_be16 d i v) = take n d"
  by (simp add: put_be16_def)

text \<open>C22. After \<^verbatim>\<open>CalcChecksums\<close> a receiver accepts the packet: for every packet the
  decoder accepts, of at most 65535 bytes and with room in the announced total length for the
  TCP checksum field, the ones' complement sum over the IPv4 header and the sum over pseudo
  header and segment are both positive multiples of 65535, and no other byte has changed.\<close>

theorem checksums_verify:
  assumes "valid_tcp4 (Data p)" "length (Data p) \<le> 65535" "ip_hlen (Data p) + 18 \<le> tcp_total (Data p)"
  shows "let (e, q) = CalcChecksums p; h = ip_hlen (Data p) in e = None
    \<and> ones_valid (words_sum (take h (Data q))) \<and> ones_valid (tcp_receiver_sum (Data q) h)
    \<and> q = p\<lparr>Data := Data q\<rparr> \<and> same_but_checksums (Data p) (Data q)"
proof (cases p rule: CalcChecksums_cases)
  case short
  then show ?thesis using assms(1) by (auto simp: valid_tcp4_def)
next
  case (filled z)
  let ?h = "ip_hlen (Data p)"
  define y where "y = SetIPv4Checksum z (IPv4Checksum z ?h)"
  have h: "even ?h" "?h \<le> 60" using ip_hlen_le [of "Data p"] by (auto simp: ip_hlen_def)
  have zl: "length z = length (Data p)" and z0: "z ! 10 = 0" "z ! 11 = 0" "z ! (?h + 16) = 0" "z ! (?h + 17) = 0"
    using filled by (auto simp: nth_list_update)
  have y: "y = put_be16 z 10 (IPv4Checksum z ?h)"
    using filled by (simp add: y_def SetIPv4Checksum_def zl)
  have tz: "TCPChecksumIPv4 z ?h = TCPChecksumIPv4 y ?h"
    using filled(1,2) by (simp add: y TCPChecksumIPv4_put_ip zl)
  have "tcp_total y = tcp_total (Data p)"
    using filled by (simp add: y tcp_total_def zl be16_put_other, simp add: be16_def nth_list_update)
  moreover have "y ! (?h + 16) = 0" "y ! (?h + 17) = 0"
    using filled z0 by (simp_all add: y nth_put_be16)
  ultimately have tcp: "ones_valid (tcp_receiver_sum (SetTCPChecksum y ?h (TCPChecksumIPv4 y ?h)) ?h)"
    using filled h assms by (intro tcp_store_valid) (simp_all add: y zl)
  have "take ?h (SetTCPChecksum y ?h (TCPChecksumIPv4 y ?h)) = take ?h y"
    by (simp add: SetTCPChecksum_def take_put_be16_ge)
  moreover have "ones_valid (words_sum (take ?h y))"
    unfolding y_def using filled h z0 by (intro ipv4_store_valid) (simp_all add: zl)
  ultimately show ?thesis
    using filled(5) tcp tz nfq.calc_frame [of p] nfq.calc_bytes [of p]
    by (simp add: y_def [symmetric])
qed

lemma checksums_verify_witness:
  "ones_valid (tcp_receiver_sum (Data (snd (CalcChecksums (sample_packet 7 0x18 [1, 2, 3])))) 20)"
proof -
  let ?p = "sample_packet 7 0x18 [1, 2, 3]"
  have v: "valid_tcp4 (Data ?p)" and h: "ip_hlen (Data ?p) = 20" by code_simp+
  have l: "length (Data ?p) = 43" by (simp add: sample_packet_def)
  have "be16 (Data ?p) 2 = 0" by code_simp
  then have "length (Data ?p) \<le> 65535" "ip_hlen (Data ?p) + 18 \<le> tcp_total (Data ?p)"
    by (simp_all add: tcp_total_def h l)
  from checksums_verify [OF v this] have "ones_valid (tcp_receiver_sum (Data (snd (CalcChecksums ?p))) (ip_hlen (Data ?p)))"
    unfolding Let_def case_prod_beta by blast
  then show ?thesis by (simp only: h)
qed

end
