(* ===== verification/WorkerAccounting.thy ===== *)
theory WorkerAccounting
  imports Worker AdapterChecksums
begin

text \<open>
  The two byte counters of a worker.  \<open>counts k st w\<close> says that the counters are exact when
  the flow state in hand, \<open>st\<close>, is written back under the key \<open>k\<close>; it holds between the
  lookup of a flow and its write-back, \<open>acct\<close> holds before and after a handler.
\<close>

named_theorems acct_intro \<open>each operation keeps the counters exact\<close>

section \<open>Exact counters\<close>

definition held_size :: "flow_state \<Rightarrow> int" where
  "held_size st = data_size (HeldPackets st)"

definition buf_size :: "flow_state \<Rightarrow> int" where
  "buf_size st = buffer_size (Reassembler st)"

text \<open>The sum over the flows other than \<^term>\<open>k\<close>.\<close>

definition rest :: "(flow_state \<Rightarrow> int) \<Rightarrow> key \<Rightarrow> worker \<Rightarrow> int" where
  "rest f k w = total_of f (Delete (flows w) k)"

definition acct :: "worker \<Rightarrow> bool" where
  "acct w \<longleftrightarrow> table_ok (flows w) \<and> heldBytes w = total_of held_size (flows w)
     \<and> reassemblyBytes w = total_of buf_size (flows w)"

definition counts :: "key \<Rightarrow> flow_state \<Rightarrow> worker \<Rightarrow> bool" where
  "counts k st w \<longleftrightarrow> table_ok (flows w) \<and> heldBytes w = rest held_size k w + held_size st
     \<and> reassemblyBytes w = rest buf_size k w + buf_size st"

lemma data_size_simps [simp]:
  "data_size [] = 0" "data_size (p # ps) = int (length (Data p)) + data_size ps"
  "data_size (ps @ qs) = data_size ps + data_size qs"
  by (simp_all add: data_size_def)

lemma data_size_nonneg [simp]: "0 \<le> data_size ps"
  by (induction ps) simp_all

lemma buffer_size_simps [simp]:
  "buffer_size None = 0" "buffer_size (Some b) = int (unat (TotalBytes b))" "0 \<le> buffer_size r"
  by (simp_all add: buffer_size_def split: option.split)

lemma sizes_nonneg [simp]: "0 \<le> held_size st" "0 \<le> buf_size st"
  by (simp_all add: held_size_def buf_size_def)

lemma rest_nonneg:
  "table_ok (flows w) \<Longrightarrow> 0 \<le> rest held_size k w \<and> 0 \<le> rest buf_size k w"
  unfolding rest_def by (intro conjI ft.measure_nonneg ft.good_remove) simp_all

lemma rest_eq:
  "table_ok (flows w) \<Longrightarrow> rest f k w
    = total_of f (flows w) - (case Get (flows w) k of None \<Rightarrow> 0 | Some u \<Rightarrow> f u)"
  by (simp add: rest_def ft.measure_remove)

section \<open>The table operations\<close>

lemma worker_fields [simp]:
  "calls (save k st w) = calls w" "heldBytes (save k st w) = heldBytes w"
  "reassemblyBytes (save k st w) = reassemblyBytes w" "cfg (save k st w) = cfg w"
  "flows (save k st w) = Store (flows w) k st"
  "calls (forget k w) = calls w" "heldBytes (forget k w) = heldBytes w"
  "reassemblyBytes (forget k w) = reassemblyBytes w" "cfg (forget k w) = cfg w"
  "flows (forget k w) = Delete (flows w) k"
  by (simp_all add: save_def forget_def)

lemma total_store:
  "table_ok (flows w) \<Longrightarrow> total_of f (Store (flows w) k st) = rest f k w + f st"
  by (simp add: ft.measure_store rest_eq)

lemma acct_save [acct_intro]: "counts k st w \<Longrightarrow> acct (save k st w)"
  by (simp add: acct_def counts_def ft.good_store total_store)

lemma counts_load: "acct w \<Longrightarrow> Get (flows w) k = Some st \<Longrightarrow> counts k st w"
  by (simp add: acct_def counts_def rest_eq)

lemma counts_fresh:
  "acct w \<Longrightarrow> Get (flows w) k = None \<Longrightarrow> held_size st = 0 \<Longrightarrow> buf_size st = 0 \<Longrightarrow> counts k st w"
  by (simp add: acct_def counts_def rest_eq)

lemma rest_store [simp]: "table_ok (flows w) \<Longrightarrow> rest f k (save k st w) = rest f k w"
  by (simp add: rest_def ft.measure_remove ft.measure_store ft.good_store ft.get_store)

lemma counts_after_save:
  "table_ok (flows w) \<Longrightarrow> counts k st (save k u w) = counts k st w"
  by (simp add: counts_def ft.good_store)

lemma acct_forget [acct_intro]:
  "acct w \<Longrightarrow> (\<And>st. Get (flows w) k = Some st \<Longrightarrow> held_size st = 0 \<and> buf_size st = 0) \<Longrightarrow> acct (forget k w)"
  by (auto simp: acct_def ft.good_remove ft.measure_remove split: option.split)

text \<open>What does not touch the counters or the table.\<close>

lemma counts_cong:
  "flows w' = flows w \<Longrightarrow> heldBytes w' = heldBytes w \<Longrightarrow> reassemblyBytes w' = reassemblyBytes w
    \<Longrightarrow> held_size st' = held_size st \<Longrightarrow> buf_size st' = buf_size st
    \<Longrightarrow> counts k st' w' = counts k st w"
  by (simp add: counts_def rest_def)

section \<open>What the adapter calls leave alone\<close>

text \<open>\<open>only_calls w w'\<close>: the log grew, nothing else changed.\<close>

definition only_calls :: "worker \<Rightarrow> worker \<Rightarrow> bool" where
  "only_calls w w' \<longleftrightarrow> (\<exists>es. w' = w\<lparr>calls := calls w @ es\<rparr>)"

lemma only_calls_refl [simp]: "only_calls w w"
  unfolding only_calls_def by (rule exI [of _ "[]"]) simp

lemma only_calls_trans: "only_calls u v \<Longrightarrow> only_calls v w \<Longrightarrow> only_calls u w"
  by (auto simp: only_calls_def)

lemma only_callsD:
  assumes "only_calls w w'"
  shows "flows w' = flows w" "heldBytes w' = heldBytes w" "reassemblyBytes w' = reassemblyBytes w"
    "cfg w' = cfg w" "inq w' = inq w" "touchq w' = touchq w"
  using assms by (auto simp: only_calls_def)

lemma send_only: "only_calls w (snd (send env p w))"
  by (auto simp: send_def Let_def only_calls_def)

lemma drop_only: "only_calls w (snd (drop_pkt env p w))"
  by (auto simp: drop_pkt_def Let_def only_calls_def)

lemma send_all_only: "only_calls w (snd (send_all env ps w))"
proof (induction ps arbitrary: w)
  case (Cons p ps)
  then show ?case
    using send_only [of w env p]
    by (auto split: prod.split option.split intro: only_calls_trans) 
qed simp

lemma dropHeld_only: "only_calls w (snd (dropHeld env ps w))"
proof (induction ps arbitrary: w)
  case (Cons p ps)
  then show ?case
    using drop_only [of w env p]
    by (auto split: prod.split option.split intro: only_calls_trans) 
qed simp

section \<open>Where the captured packets are\<close>

text \<open>The packets that were accepted or dropped, in order; a failed call releases nothing.\<close>

fun released :: "event list \<Rightarrow> packet list" where
  "released [] = []"
| "released (Sent p None # es) = p # released es"
| "released (Dropped p None # es) = p # released es"
| "released (Sent p (Some e) # es) = released es"
| "released (Dropped p (Some e) # es) = released es"

lemma released_append [simp]: "released (es @ fs) = released es @ released fs"
  by (induction es rule: released.induct) simp_all

definition held_count :: "packet \<Rightarrow> flow_state \<Rightarrow> int" where
  "held_count x st = int (count_list (HeldPackets st) x)"

text \<open>How often a packet has been released or is held.\<close>

definition fate :: "packet \<Rightarrow> worker \<Rightarrow> int" where
  "fate x w = int (count_list (released (calls w)) x) + total_of (held_count x) (flows w)"

definition fate_in :: "packet \<Rightarrow> key \<Rightarrow> flow_state \<Rightarrow> worker \<Rightarrow> int" where
  "fate_in x k st w = int (count_list (released (calls w)) x) + rest (held_count x) k w + held_count x st"

definition captured :: "packet \<Rightarrow> bool" where
  "captured x \<longleftrightarrow> Source x \<noteq> SourceInjected"

text \<open>What a handler that holds \<^term>\<open>st\<close> guarantees of its outcome: the counters are exact,
  also after an error, and without an error every captured packet is still accounted for.\<close>

definition kept :: "key \<Rightarrow> flow_state \<Rightarrow> worker \<Rightarrow> outcome \<Rightarrow> bool" where
  "kept k st w r \<longleftrightarrow> acct (snd r)
     \<and> (fst r = None \<longrightarrow> (\<forall>x. captured x \<longrightarrow> fate x (snd r) = fate_in x k st w))"

lemma count_list_append [simp]: "count_list (xs @ ys) x = count_list xs x + count_list ys x"
  by (induction xs) simp_all

lemma fate_save: "table_ok (flows w) \<Longrightarrow> fate x (save k st w) = fate_in x k st w"
  by (simp add: fate_def fate_in_def total_store)

lemma fate_load: "table_ok (flows w) \<Longrightarrow> Get (flows w) k = Some st \<Longrightarrow> fate_in x k st w = fate x w"
  by (simp add: fate_def fate_in_def rest_eq)

lemma fate_fresh:
  "table_ok (flows w) \<Longrightarrow> Get (flows w) k = None \<Longrightarrow> HeldPackets st = [] \<Longrightarrow> fate_in x k st w = fate x w"
  by (simp add: fate_def fate_in_def rest_eq held_count_def)

lemma fate_forget:
  "table_ok (flows w) \<Longrightarrow> (\<And>st. Get (flows w) k = Some st \<Longrightarrow> HeldPackets st = []) \<Longrightarrow> fate x (forget k w) = fate x w"
  by (auto simp: fate_def ft.measure_remove held_count_def split: option.split)

lemma fate_in_cong:
  "flows w' = flows w \<Longrightarrow> calls w' = calls w \<Longrightarrow> HeldPackets st' = HeldPackets st
    \<Longrightarrow> fate_in x k st' w' = fate_in x k st w"
  by (simp add: fate_in_def rest_def held_count_def)

lemma kept_save: "counts k st w \<Longrightarrow> kept k st w (e, save k st w)"
  by (simp add: kept_def acct_save fate_save counts_def)

lemma kept_trans:
  "kept k st2 w2 r \<Longrightarrow> (\<And>x. captured x \<Longrightarrow> fate_in x k st2 w2 = fate_in x k st w) \<Longrightarrow> kept k st w r"
  by (simp add: kept_def)

lemma send_released:
  "send env p w = (None, w') \<Longrightarrow> released (calls w') = released (calls w) @ [p]"
  "send env p w = (Some e, w') \<Longrightarrow> released (calls w') = released (calls w)"
  by (auto simp: send_def Let_def)

lemma send_all_released:
  "send_all env ps w = (None, w') \<Longrightarrow> released (calls w') = released (calls w) @ ps"
proof (induction ps arbitrary: w)
  case (Cons p ps)
  then obtain w1 where "send env p w = (None, w1)" "send_all env ps w1 = (None, w')"
    by (auto split: prod.splits option.splits)
  then show ?case using Cons.IH [of w1] send_released(1) by fastforce
qed simp

lemma dropHeld_released:
  "dropHeld env ps w = (None, w') \<Longrightarrow> released (calls w') = released (calls w) @ ps"
proof (induction ps arbitrary: w)
  case (Cons p ps)
  then obtain w1 where "drop_pkt env p w = (None, w1)" "dropHeld env ps w1 = (None, w')"
    by (auto split: prod.splits option.splits)
  then show ?case using Cons.IH [of w1] by (auto simp: drop_pkt_def Let_def)
qed simp

section \<open>Fail-open keeps everything\<close>

lemma clear_counts:
  assumes "counts k st w" and "clearCollectingState st w = (st', w')"
  shows "counts k st' w'" "held_size st' = 0" "buf_size st' = 0" "HeldPackets st' = []"
    "flows w' = flows w" "calls w' = calls w" "State st' = State st"
proof -
  have ok: "table_ok (flows w)" using assms(1) by (simp add: counts_def)
  have fl: "flows w' = flows w" using assms(2) by (auto simp: clearCollectingState_def)
  show "held_size st' = 0" "buf_size st' = 0" "HeldPackets st' = []" "flows w' = flows w"
    "calls w' = calls w" "State st' = State st"
    using assms(2) by (auto simp: clearCollectingState_def held_size_def buf_size_def)
  moreover have "heldBytes w' = rest held_size k w" "reassemblyBytes w' = rest buf_size k w"
    using assms rest_nonneg [OF ok, of k]
    by (auto simp: clearCollectingState_def counts_def clamp0_def held_size_def buf_size_def split: option.splits)
  moreover have "rest f k w' = rest f k w" for f by (simp add: rest_def fl)
  ultimately show "counts k st' w'" using ok by (simp add: counts_def fl)
qed

lemma failOpen_kept:
  assumes "counts k st w"
  shows "kept k st w (failOpen env k st w)"
proof (cases "send_all env (HeldPackets st) w")
  case (Pair e w1)
  have o: "only_calls w w1" using send_all_only [of w env "HeldPackets st"] Pair by simp
  note o = only_callsD [OF o]
  show ?thesis
  proof (cases e)
    case None
    obtain st2 w2 where c: "clearCollectingState (st\<lparr>State := StatePassThrough\<rparr>) w1 = (st2, w2)" by force
    have "counts k (st\<lparr>State := StatePassThrough\<rparr>) w1"
      using assms by (subst counts_cong [of _ w _ st]) (simp_all add: o held_size_def buf_size_def)
    note cc = clear_counts [OF this c]
    have "fate_in x k st2 w2 = fate_in x k st w" for x
      using Pair None cc o by (simp add: fate_in_def rest_def held_count_def send_all_released)
    moreover have "failOpen env k st w = (None, save k st2 w2)"
      by (simp add: failOpen_def Pair None c)
    ultimately show ?thesis using kept_save [OF cc(1)] by (metis kept_trans)
  next
    case (Some e')
    have "counts k st w1"
      using assms by (subst counts_cong [of _ w _ st]) (simp_all add: o)
    with Pair Some show ?thesis by (simp add: failOpen_def kept_def acct_save)
  qed
qed

text \<open>The flow a successful fail-open leaves in the table.\<close>

lemma failOpen_state:
  assumes "failOpen env k st w = (None, w')"
  shows "Get (flows w') k = Some (st\<lparr>State := StatePassThrough, HeldPackets := [], Template := None,
      Reassembler := None\<rparr>)"
  using assms by (auto simp: failOpen_def clearCollectingState_def ft.get_store split: prod.splits option.splits)

section \<open>Injecting releases no captured packet\<close>

definition inj_calls :: "worker \<Rightarrow> worker \<Rightarrow> bool" where
  "inj_calls w w' \<longleftrightarrow> (\<exists>es. w' = w\<lparr>calls := calls w @ es\<rparr> \<and> (\<forall>p\<in>set (released es). \<not> captured p))"

lemma inj_calls_refl [simp]: "inj_calls w w"
  unfolding inj_calls_def by (rule exI [of _ "[]"]) simp

lemma inj_calls_trans: "inj_calls u v \<Longrightarrow> inj_calls v w \<Longrightarrow> inj_calls u w"
  unfolding inj_calls_def by fastforce

lemma inj_callsD:
  assumes "inj_calls w w'"
  shows "flows w' = flows w" "heldBytes w' = heldBytes w" "reassemblyBytes w' = reassemblyBytes w"
    "captured x \<Longrightarrow> count_list (released (calls w')) x = count_list (released (calls w)) x"
  using assms by (auto simp: inj_calls_def count_list_0_iff)

lemma inj_calls_only: "inj_calls w w' \<Longrightarrow> only_calls w w'"
  by (auto simp: inj_calls_def only_calls_def)

definition env_ok :: "adapter_env \<Rightarrow> bool" where
  "env_ok env \<longleftrightarrow> checksummer (env_calc env)"

lemma buildPacket_source: "buildPacket t sq pl fl ipid = (Inr p, ipid') \<Longrightarrow> Source p = SourceInjected"
  by (auto simp: buildPacket_def Let_def split: option.splits if_splits prod.splits)

lemma send_inj: "\<not> captured p \<Longrightarrow> inj_calls w (snd (send env p w))"
  unfolding send_def Let_def inj_calls_def
  by (rule exI [of _ "[Sent p (env_send env (calls w) p)]"]) (cases "env_send env (calls w) p"; simp)

lemma send_built_inj:
  assumes "env_ok env" "buildPacket t sq pl fl i = (Inr p, i')"
  shows "inj_calls w (snd (send_built env p w))"
proof -
  have "\<not> captured (snd (env_calc env p))"
    using assms checksummer.calc_source buildPacket_source unfolding env_ok_def captured_def by metis
  then show ?thesis
    by (cases "env_calc env p") (auto simp: send_built_def intro: send_inj split: option.split)
qed

text \<open>One round of the two sending loops.\<close>

lemma built_step_inj:
  assumes "env_ok env" and "\<And>i w. inj_calls w (snd (snd (rec i w)))"
  shows "inj_calls w (snd (snd (case buildPacket t sq pl fl ipid of
       (Inl e, ipid') \<Rightarrow> (Some e, ipid', w)
     | (Inr p, ipid') \<Rightarrow> (case send_built env p w of
         (Some e, w') \<Rightarrow> (Some e, ipid', w')
       | (None, w') \<Rightarrow> rec ipid' w'))))"
proof (cases "buildPacket t sq pl fl ipid")
  case (Pair x i)
  show ?thesis
  proof (cases x)
    case (Inr p)
    obtain e w1 where s: "send_built env p w = (e, w1)" by force
    have "inj_calls w w1"
      using send_built_inj [OF assms(1), of t sq pl fl ipid p i w] Pair Inr s by simp
    then show ?thesis
      using Pair Inr s assms(2) [of w1 i] by (auto intro: inj_calls_trans split: option.split)
  qed (simp add: Pair)
qed

lemma sendSegments_inj:
  "env_ok env \<Longrightarrow> inj_calls w (snd (snd (sendSegments env tpl base off segs fl lf ipid w)))"
  by (induction segs arbitrary: off ipid w) (simp_all add: Let_def built_step_inj)

lemma reinjectTrimmed_inj:
  "env_ok env \<Longrightarrow> inj_calls w (snd (snd (reinjectTrimmed env base wl ps ipid w)))"
  by (induction ps arbitrary: ipid w) (simp_all add: Let_def built_step_inj)

lemma inject_segments_inj:
  assumes "env_ok env"
  shows "inj_calls w (snd (inject_segments env c st t m segs wl r w))"
proof -
  let ?f = "Flags (Meta t) AND NOT (TCPFlagPSH OR TCPFlagFIN)"
  obtain e i w1 where s: "sendSegments env (Some t) (BaseSeq st) 0 segs ?f
      (if r \<noteq> [] then ?f else Flags (Meta t)) (Some (IPv4ID (Data t))) w = (e, i, w1)"
    using prod_cases3 by blast
  then have w1: "inj_calls w w1" using sendSegments_inj [OF assms] by (metis snd_conv)
  then have last: "inj_calls w (snd (case x of (e, _, w2) \<Rightarrow> (e, w2)))"
    if "inj_calls w1 (snd (snd x))" for x :: "go_error option \<times> u16 option \<times> worker"
    using that by (cases x) (auto intro: inj_calls_trans)
  show ?thesis
    unfolding inject_segments_def Let_def s
    using w1 last [OF sendSegments_inj [OF assms]] last [OF reinjectTrimmed_inj [OF assms]]
    by (simp split: option.split)
qed

lemma inj_counts: "inj_calls w w' \<Longrightarrow> counts k st w' = counts k st w"
  by (rule counts_cong) (simp_all add: inj_callsD)

lemma inj_fate_in: "inj_calls w w' \<Longrightarrow> captured x \<Longrightarrow> fate_in x k st w' = fate_in x k st w"
  by (simp add: fate_in_def rest_def inj_callsD)

section \<open>Injection keeps everything\<close>

lemma inject_end_kept:
  assumes "counts k st w"
  shows "kept k st w (case dropHeld env (HeldPackets st) w of
         (Some e, w') \<Rightarrow> (Some e, save k st w')
       | (None, w') \<Rightarrow>
           let (st', w3) = clearCollectingState (st\<lparr>State := StateInjected\<rparr>) w'
           in (None, save k (st'\<lparr>Processed := True\<rparr>) w3))"
proof (cases "dropHeld env (HeldPackets st) w")
  case (Pair e w1)
  have o: "only_calls w w1" using dropHeld_only [of w env "HeldPackets st"] Pair by simp
  note o = only_callsD [OF o]
  have c1: "counts k st w1" using assms by (subst counts_cong [of _ w _ st]) (simp_all add: o)
  show ?thesis
  proof (cases e)
    case None
    obtain st2 w2 where c: "clearCollectingState (st\<lparr>State := StateInjected\<rparr>) w1 = (st2, w2)" by force
    have "counts k (st\<lparr>State := StateInjected\<rparr>) w1"
      using c1 by (subst counts_cong [of _ w1 _ st]) (simp_all add: held_size_def buf_size_def)
    note cc = clear_counts [OF this c]
    let ?st = "st2\<lparr>Processed := True\<rparr>"
    have "counts k ?st w2"
      using cc(1) by (subst counts_cong [of _ w2 _ st2]) (simp_all add: held_size_def buf_size_def)
    from kept_save [OF this] have "kept k ?st w2 (None, save k ?st w2)" .
    moreover have "fate_in x k ?st w2 = fate_in x k st w" for x
      using Pair None cc o by (simp add: fate_in_def rest_def held_count_def dropHeld_released)
    ultimately have "kept k st w (None, save k ?st w2)" by (rule kept_trans)
    then show ?thesis by (simp add: Pair None c)
  next
    case (Some e')
    with Pair c1 show ?thesis by (simp add: kept_def acct_save)
  qed
qed

lemma injectWindow_kept:
  assumes env: "env_ok env" and c: "counts k st w"
  shows "kept k st w (injectWindow env co k st wl w)"
proof -
  have step: "kept k st w (case inject_segments env cf st tpl m segs wl r w of
       (Some e, w') \<Rightarrow> failOpen env k st w'
     | (None, w') \<Rightarrow> (case dropHeld env (HeldPackets st) w' of
         (Some e, w'') \<Rightarrow> (Some e, save k st w'')
       | (None, w'') \<Rightarrow>
           let (st', w3) = clearCollectingState (st\<lparr>State := StateInjected\<rparr>) w''
           in (None, save k (st'\<lparr>Processed := True\<rparr>) w3)))" for cf tpl m segs r
  proof (cases "inject_segments env cf st tpl m segs wl r w")
    case (Pair e w1)
    have i: "inj_calls w w1" using inject_segments_inj [OF env] Pair by (metis snd_conv)
    have "counts k st w1" using c inj_counts [OF i] by simp
    then have "kept k st w1 (failOpen env k st w1)" by (rule failOpen_kept)
    moreover note inject_end_kept [OF \<open>counts k st w1\<close>, of env]
    moreover have "kept k st w r" if "kept k st w1 r" for r
      using that by (rule kept_trans) (rule inj_fate_in [OF i])
    ultimately show ?thesis by (cases e) (simp_all add: Pair)
  qed
  show ?thesis
    unfolding injectWindow_def
    by (cases co; cases "Reassembler st"; cases "Template st")
      (simp_all add: Let_def c kept_save failOpen_kept step)
qed

lemma try_split_kept:
  assumes "env_ok env" "counts k st w"
  shows "kept k st w (try_split env c c1 c2 k st w)"
  using assms
  by (auto simp: try_split_def trySplitImmediate_def trySplitTLSHello_def Let_def
      intro!: kept_save failOpen_kept injectWindow_kept split: option.split prod.split result.split)

section \<open>The handler keeps everything\<close>

text \<open>\<open>kept1\<close>: as \<open>kept\<close>, with one more packet to account for.\<close>

definition kept1 :: "packet \<Rightarrow> key \<Rightarrow> flow_state \<Rightarrow> worker \<Rightarrow> outcome \<Rightarrow> bool" where
  "kept1 pkt k st w r \<longleftrightarrow> acct (snd r) \<and> (fst r = None \<longrightarrow>
     (\<forall>x. captured x \<longrightarrow> fate x (snd r) = fate_in x k st w + of_bool (x = pkt)))"

definition handled :: "packet \<Rightarrow> worker \<Rightarrow> outcome \<Rightarrow> bool" where
  "handled pkt w r \<longleftrightarrow> acct (snd r) \<and> (fst r = None \<longrightarrow>
     (\<forall>x. captured x \<longrightarrow> fate x (snd r) = fate x w + of_bool (x = pkt)))"

lemma kept_kept1:
  "kept k st2 w2 r \<Longrightarrow> (\<And>x. captured x \<Longrightarrow> fate_in x k st2 w2 = fate_in x k st w + of_bool (x = pkt))
    \<Longrightarrow> kept1 pkt k st w r"
  by (simp add: kept_def kept1_def)

lemma acct_only: "acct w \<Longrightarrow> only_calls w w' \<Longrightarrow> acct w'"
  by (simp add: acct_def only_callsD)

lemma send_fate:
  assumes "send env p w = (None, w')"
  shows "fate x w' = fate x w + of_bool (x = p)"
proof -
  have "flows w' = flows w" using send_only [of w env p] assms by (simp add: only_callsD)
  then show ?thesis using send_released(1) [OF assms] by (simp add: fate_def)
qed

text \<open>Sending the packet after an operation that kept everything, and then perhaps removing a
  flow that holds nothing.\<close>

lemma send_after_kept:
  assumes "kept k st w (None, w1)"
  shows "kept1 pkt k st w (send env pkt w1)"
  using assms acct_only [OF _ send_only, of w1 env pkt]
  by (cases "send env pkt w1") (auto simp: kept_def kept1_def send_fate)

lemma send_handled: "acct w \<Longrightarrow> handled pkt w (send env pkt w)"
  using acct_only [OF _ send_only, of w env pkt]
  by (cases "send env pkt w") (auto simp: handled_def send_fate)

lemma hold_and_push_kept:
  assumes c: "counts k st w"
  shows "case hold_and_push env nc cf now k pkt st w of Inl r \<Rightarrow> kept1 pkt k st w r
    | Inr (st', w') \<Rightarrow> counts k st' w' \<and> (\<forall>x. fate_in x k st' w' = fate_in x k st w + of_bool (x = pkt))"
proof (cases "over_held cf pkt w")
  case True
  have "kept k st w (failOpen env k st w)" using c by (rule failOpen_kept)
  then show ?thesis
    using True send_after_kept [of k st w _ pkt env]
    by (auto simp: hold_and_push_def kept1_def kept_def split: prod.split option.split)
next
  case False
  define st1 where "st1 = st\<lparr>HeldPackets := HeldPackets st @ [pkt]\<rparr>"
  define w1 where "w1 = w\<lparr>heldBytes := heldBytes w + int (length (Data pkt))\<rparr>"
  have c1: "counts k st1 w1"
    using c by (simp add: counts_def st1_def w1_def held_size_def buf_size_def rest_def)
  have f1: "fate_in x k st1 w1 = fate_in x k st w + of_bool (x = pkt)" for x
    by (simp add: fate_in_def rest_def held_count_def st1_def w1_def)
  note out = kept_kept1 [OF _ f1]
  show ?thesis
  proof (cases "Reassembler st")
    case None
    then have r1: "Reassembler st1 = None" by (simp add: st1_def)
    show ?thesis
      using False failOpen_kept [OF c1] kept_save [OF c1]
      by (simp add: hold_and_push_def Let_def st1_def [symmetric] w1_def [symmetric] r1 out)
  next
    case (Some b)
    obtain err b2 where push: "Push b (Seq (Meta pkt)) (Payload pkt) = (err, b2)" by force
    define st2 where "st2 = st1\<lparr>Reassembler := Some b2\<rparr>"
    define w2 where "w2 = w1\<lparr>reassemblyBytes := clamp0 (reassemblyBytes w1
        + (int (unat (TotalBytes b2)) - int (unat (TotalBytes b))))\<rparr>"
    have ok: "table_ok (flows w1)" and rb: "reassemblyBytes w1 = rest buf_size k w1 + int (unat (TotalBytes b))"
      using c1 Some by (simp_all add: counts_def buf_size_def st1_def)
    have "0 \<le> rest buf_size k w1 + int (unat (TotalBytes b2))"
      using rest_nonneg [OF ok, of k] by (intro add_nonneg_nonneg of_nat_0_le_iff) simp
    then have "reassemblyBytes w2 = rest buf_size k w1 + int (unat (TotalBytes b2))"
      by (simp add: w2_def clamp0_def rb)
    then have c2: "counts k st2 w2"
      using c1 by (simp add: counts_def st2_def w2_def held_size_def buf_size_def rest_def)
    have f2: "fate_in x k st2 w2 = fate_in x k st w + of_bool (x = pkt)" for x
      using f1 by (simp add: fate_in_def rest_def held_count_def st2_def w2_def)
    note out2 = kept_kept1 [OF _ f2]
    have r1: "Reassembler st1 = Some b" by (simp add: st1_def Some)
    have w2: "w1\<lparr>reassemblyBytes := clamp0 (reassemblyBytes w1
        + (uint (TotalBytes b2) - uint (TotalBytes b)))\<rparr> = w2"
      by (simp add: w2_def)
    show ?thesis
      using False failOpen_kept [OF c1] failOpen_kept [OF c2] c2 f2
      by (simp add: hold_and_push_def Let_def st1_def [symmetric] w1_def [symmetric] r1 push
          st2_def [symmetric] w2 out out2)
  qed
qed

lemma forget_empty:
  assumes "acct w" "\<And>st. Get (flows w) k = Some st \<Longrightarrow> HeldPackets st = [] \<and> Reassembler st = None"
  shows "acct (forget k w)" "fate x (forget k w) = fate x w"
proof -
  show "acct (forget k w)"
    using assms by (intro acct_forget) (auto simp: held_size_def buf_size_def)
  show "fate x (forget k w) = fate x w"
    using assms by (intro fate_forget) (auto simp: acct_def)
qed

lemma fail_and_forget_kept:
  assumes "counts k st w"
  shows "kept k st w (fail_and_forget env k st w)"
proof -
  note f = failOpen_kept [OF assms, of env]
  show ?thesis
  proof (cases "failOpen env k st w")
    case (Pair e w1)
    show ?thesis
    proof (cases e)
      case None
      note s = failOpen_state [OF Pair [unfolded None]]
      have "acct w1" using f Pair by (simp add: kept_def)
      from forget_empty [OF this, of k] show ?thesis
        using f Pair None s by (simp add: kept_def fail_and_forget_def)
    qed (use f Pair in \<open>simp add: fail_and_forget_def kept_def\<close>)
  qed
qed

lemma begin_collect_counts:
  assumes "counts k st w" "State st = StateNew \<Longrightarrow> HeldPackets st = [] \<and> Reassembler st = None"
  shows "counts k (begin_collect c now pkt st) w"
  using assms by (auto simp: begin_collect_def counts_def held_size_def buf_size_def TotalBytes_def New_def)

lemma begin_collect_fate: "fate_in x k (begin_collect c now pkt st) w = fate_in x k st w"
  by (simp add: begin_collect_def fate_in_def held_count_def)

text \<open>A flow whose state is not StateCollecting holds nothing.\<close>

definition idle_ok :: "flow_state \<Rightarrow> bool" where
  "idle_ok st \<longleftrightarrow> State st \<noteq> StateCollecting \<longrightarrow> HeldPackets st = [] \<and> Reassembler st = None"

lemma kept_save_touch:
  "counts k st w \<Longrightarrow> kept k st w (None, save k (st\<lparr>LastActive := now\<rparr>) w)"
  using kept_save [of k "st\<lparr>LastActive := now\<rparr>" w None]
  by (auto simp: counts_def held_size_def buf_size_def fate_in_def held_count_def intro: kept_trans)

lemma kept1_flow:
  "kept1 pkt k st w r \<Longrightarrow> acct w \<Longrightarrow> Get (flows w) k = Some st \<Longrightarrow> handled pkt w r"
  by (simp add: kept1_def handled_def fate_load acct_def)

lemma handle_existing_kept:
  assumes env: "env_ok env" and a: "acct w" "Get (flows w) k = Some st" and i: "idle_ok st"
  shows "handled pkt w (handle_existing env c c1 c2 now k pkt st w)"
proof -
  define s where "s = st\<lparr>LastActive := now\<rparr>"
  have cst: "counts k st w" using a by (rule counts_load)
  then have cs: "counts k s w"
    by (subst counts_cong [of _ w _ st]) (simp_all add: s_def held_size_def buf_size_def)
  have fs: "fate_in x k s w = fate_in x k st w" for x by (simp add: s_def fate_in_def held_count_def)
  have sv: "kept k s w (None, save k s w)" using cs by (rule kept_save)
  define s2 where "s2 = begin_collect c now pkt s"
  have c2s: "counts k s2 w"
    using cs i by (auto simp: s2_def s_def idle_ok_def intro: begin_collect_counts)
  have f2: "fate_in x k s2 w = fate_in x k s w" for x by (simp add: s2_def begin_collect_fate)
  have end_case: "kept1 pkt k s w (case e of Some e \<Rightarrow> (Some e, w1) | None \<Rightarrow>
      (case send env pkt w1 of (Some e, w'') \<Rightarrow> (Some e, w'') | (None, w'') \<Rightarrow> (None, forget k w'')))"
    if k1: "kept k s w (e, w1)" and g: "e = None \<Longrightarrow> \<forall>u. Get (flows w1) k = Some u \<longrightarrow> HeldPackets u = [] \<and> Reassembler u = None"
    for e w1
  proof (cases e)
    case None
    obtain e2 w2 where s2: "send env pkt w1 = (e2, w2)" by force
    have k2: "kept1 pkt k s w (e2, w2)" using send_after_kept [of k s w w1 pkt env] k1 None s2 by simp
    have fl: "flows w2 = flows w1" using send_only [of w1 env pkt] s2 by (simp add: only_callsD)
    have "acct w2" using k2 by (simp add: kept1_def)
    from forget_empty [OF this, of k] k2 None s2 g show ?thesis
      by (cases e2) (simp_all add: kept1_def fl)
  qed (use k1 in \<open>simp add: kept_def kept1_def\<close>)
  have fin: "kept1 pkt k s w (case (if State s = StateCollecting then failOpen env k s w else (None, save k s w)) of
      (Some e, w') \<Rightarrow> (Some e, w') | (None, w') \<Rightarrow>
      (case send env pkt w' of (Some e, w'') \<Rightarrow> (Some e, w'') | (None, w'') \<Rightarrow> (None, forget k w'')))"
  proof (cases "State s = StateCollecting")
    case True
    obtain e w1 where f: "failOpen env k s w = (e, w1)" by force
    have "kept k s w (e, w1)" using failOpen_kept [OF cs, of env] f by simp
    from end_case [OF this] show ?thesis using True f failOpen_state [of env k s w w1] by (cases e) simp_all
  next
    case False
    then show ?thesis using end_case [OF sv] i by (simp add: ft.get_store s_def idle_ok_def)
  qed
  have main: "kept1 pkt k s2 w (case hold_and_push env True c now k pkt s2 w of Inl r \<Rightarrow> r
     | Inr (st', w') \<Rightarrow>
         if HasFlag pkt TCPFlagSYN then failOpen env k st' w'
         else if HasFlag pkt TCPFlagRST then fail_and_forget env k st' w'
         else if HasFlag pkt TCPFlagFIN then fail_and_forget env k st' w'
         else try_split env c c1 c2 k st' w')"
    using hold_and_push_kept [OF c2s, of pkt env True c now]
    by (auto split: sum.splits prod.splits intro!: kept_kept1 [OF failOpen_kept]
        kept_kept1 [OF fail_and_forget_kept] kept_kept1 [OF try_split_kept [OF env]])
  have "kept1 pkt k s w (handle_existing env c c1 c2 now k pkt st w)"
    using fin main send_after_kept [OF sv, of pkt env] f2
    by (simp add: handle_existing_def Let_def s_def [symmetric] s2_def [symmetric] kept1_def)
  then have "kept1 pkt k st w (handle_existing env c c1 c2 now k pkt st w)"
    by (simp add: kept1_def fs)
  with a show ?thesis by (intro kept1_flow)
qed

end
