(* ===== verification/WorkerInv.thy ===== *)
theory WorkerInv
  imports WorkerAccounting ReassemblyProps
begin

text \<open>
  The worker's invariant: exact counters, and every flow either decided (passed through or
  injected, holding nothing) or collecting, in which case its reassembler is exactly the result
  of pushing the held packets, in order and without an error, into a fresh buffer.
\<close>

section \<open>Flows\<close>

definition closed :: "flow_state \<Rightarrow> bool" where
  "closed st \<longleftrightarrow> (State st = StatePassThrough \<or> State st = StateInjected) \<and> HeldPackets st = []
     \<and> Reassembler st = None \<and> Template st = None"

text \<open>Pushing packets in turn; \<^const>\<open>None\<close> when a push fails.\<close>

fun push_held :: "buffer \<Rightarrow> packet list \<Rightarrow> buffer option" where
  "push_held b [] = Some b"
| "push_held b (p # ps) = (case Push b (Seq (Meta p)) (Payload p) of
     (None, b') \<Rightarrow> push_held b' ps | (Some e, b') \<Rightarrow> None)"

text \<open>What \<^verbatim>\<open>recvLoop\<close> hands to a worker.\<close>

definition input_ok :: "packet \<Rightarrow> bool" where
  "input_ok p \<longleftrightarrow> decoded p \<and> captured p \<and> length (Data p) \<le> 65535"

definition holdable :: "key \<Rightarrow> packet \<Rightarrow> bool" where
  "holdable k p \<longleftrightarrow> input_ok p \<and> KeyFromMeta (Meta p) = k \<and> Payload p \<noteq> []"

definition collecting :: "key \<Rightarrow> flow_state \<Rightarrow> bool" where
  "collecting k st \<longleftrightarrow> State st = StateCollecting \<and> HeldPackets st \<noteq> []
     \<and> (\<forall>p\<in>set (HeldPackets st). holdable k p)
     \<and> Template st = Some (last (HeldPackets st))
     \<and> BaseSeq st = Seq (Meta (hd (HeldPackets st)))
     \<and> FirstPayloadLen st = length (Payload (hd (HeldPackets st)))
     \<and> (\<exists>mx b. Reassembler st = Some b \<and> push_held (New (BaseSeq st) mx) (HeldPackets st) = Some b)"

definition flow_ok :: "key \<Rightarrow> flow_state \<Rightarrow> bool" where
  "flow_ok k st \<longleftrightarrow> closed st \<or> collecting k st"

definition worker_inv :: "worker \<Rightarrow> bool" where
  "worker_inv w \<longleftrightarrow> acct w \<and> (\<forall>k st. Get (flows w) k = Some st \<longrightarrow> flow_ok k st)"

lemma push_held_append:
  "push_held b (ps @ [p]) = (case push_held b ps of None \<Rightarrow> None
     | Some b' \<Rightarrow> (case Push b' (Seq (Meta p)) (Payload p) of (None, b'') \<Rightarrow> Some b'' | (Some e, _) \<Rightarrow> None))"
  by (induction ps arbitrary: b) (simp_all split: option.split prod.split)

lemma closed_idle: "closed st \<Longrightarrow> idle_ok st"
  by (simp add: closed_def idle_ok_def)

lemma flow_ok_idle: "flow_ok k st \<Longrightarrow> idle_ok st"
  by (auto simp: flow_ok_def collecting_def idle_ok_def closed_def)

section \<open>How an operation moves a flow\<close>

text \<open>Only the entry of \<^term>\<open>k\<close> changes; an error leaves it at the state in hand, a nil result
  leaves the state in hand or a decided flow.\<close>

definition moves :: "key \<Rightarrow> flow_state \<Rightarrow> worker \<Rightarrow> outcome \<Rightarrow> bool" where
  "moves k st w r \<longleftrightarrow> (\<exists>st'. Get (flows (snd r)) = (Get (flows w))(k \<mapsto> st')
     \<and> (fst r \<noteq> None \<longrightarrow> st' = st) \<and> (fst r = None \<longrightarrow> st' = st \<or> closed st'))"

text \<open>A nil result decides the flow.\<close>

definition closes :: "key \<Rightarrow> worker \<Rightarrow> outcome \<Rightarrow> bool" where
  "closes k w r \<longleftrightarrow> (fst r = None \<longrightarrow>
     (\<exists>st'. Get (flows (snd r)) = (Get (flows w))(k \<mapsto> st') \<and> closed st'))"

lemma failOpen_flows:
  obtains e w' st' where "failOpen env k st w = (e, w')" "flows w' = Store (flows w) k st'"
    "e \<noteq> None \<Longrightarrow> st' = st"
    "e = None \<Longrightarrow> st' = st\<lparr>State := StatePassThrough, HeldPackets := [], Template := None, Reassembler := None\<rparr>"
proof -
  obtain e w1 where s: "send_all env (HeldPackets st) w = (e, w1)" by force
  then have fl: "flows w1 = flows w" using send_all_only [of w env "HeldPackets st"] by (simp add: only_callsD)
  show ?thesis
    by (rule that [of "fst (failOpen env k st w)" "snd (failOpen env k st w)"
          "if e = None then st\<lparr>State := StatePassThrough, HeldPackets := [], Template := None, Reassembler := None\<rparr> else st"])
      (cases e; simp add: failOpen_def s clearCollectingState_def fl)+
qed

lemma failOpen_moves: "moves k st w (failOpen env k st w)"
  by (rule failOpen_flows [of env k st w]) (auto simp: moves_def ft.get_store closed_def)

lemma failOpen_closes: "closes k w (failOpen env k st w)"
  by (rule failOpen_flows [of env k st w]) (auto simp: closes_def ft.get_store closed_def)

lemma moves_save: "moves k st w (e, save k st w)"
  by (auto simp: moves_def ft.get_store)

lemma moves_flows: "moves k st w1 r \<Longrightarrow> flows w1 = flows w \<Longrightarrow> moves k st w r"
  by (simp add: moves_def)

lemma inject_end_moves:
  "moves k st w (case dropHeld env (HeldPackets st) w of
         (Some e, w') \<Rightarrow> (Some e, save k st w')
       | (None, w') \<Rightarrow>
           let (st', w3) = clearCollectingState (st\<lparr>State := StateInjected\<rparr>) w'
           in (None, save k (st'\<lparr>Processed := True\<rparr>) w3))"
proof (cases "dropHeld env (HeldPackets st) w")
  case (Pair e w1)
  then have "flows w1 = flows w"
    using dropHeld_only [of w env "HeldPackets st"] by (simp add: only_callsD)
  then show ?thesis
    by (cases e) (auto simp: Pair moves_def clearCollectingState_def ft.get_store closed_def)
qed

lemma injectWindow_moves:
  assumes env: "env_ok env"
  shows "moves k st w (injectWindow env co k st wl w)"
proof -
  have step: "moves k st w (case inject_segments env cf st tpl m segs wl r w of
       (Some e, w') \<Rightarrow> failOpen env k st w'
     | (None, w') \<Rightarrow> (case dropHeld env (HeldPackets st) w' of
         (Some e, w'') \<Rightarrow> (Some e, save k st w'')
       | (None, w'') \<Rightarrow>
           let (st', w3) = clearCollectingState (st\<lparr>State := StateInjected\<rparr>) w''
           in (None, save k (st'\<lparr>Processed := True\<rparr>) w3)))" for cf tpl m segs r
  proof (cases "inject_segments env cf st tpl m segs wl r w")
    case (Pair e w1)
    have "flows w1 = flows w" using inject_segments_inj [OF env] Pair by (metis snd_conv inj_callsD(1))
    then show ?thesis
      using moves_flows [OF failOpen_moves [of k st w1 env]] moves_flows [OF inject_end_moves [of k st w1 env]]
      by (cases e) (simp_all add: Pair)
  qed
  show ?thesis
    unfolding injectWindow_def
    by (cases co; cases "Reassembler st"; cases "Template st")
      (simp_all add: Let_def moves_save failOpen_moves step)
qed

lemma try_split_moves:
  assumes "env_ok env"
  shows "moves k st w (try_split env c c1 c2 k st w)"
  using assms
  by (auto simp: try_split_def trySplitImmediate_def trySplitTLSHello_def Let_def
      intro!: moves_save failOpen_moves injectWindow_moves split: option.split prod.split result.split)

section \<open>Holding a packet\<close>

definition almost_collecting :: "key \<Rightarrow> packet \<Rightarrow> flow_state \<Rightarrow> bool" where
  "almost_collecting k pkt st \<longleftrightarrow> State st = StateCollecting
     \<and> (\<forall>p\<in>set (HeldPackets st @ [pkt]). holdable k p) \<and> Template st = Some pkt
     \<and> BaseSeq st = Seq (Meta (hd (HeldPackets st @ [pkt])))
     \<and> FirstPayloadLen st = length (Payload (hd (HeldPackets st @ [pkt])))
     \<and> (\<exists>mx b. Reassembler st = Some b \<and> push_held (New (BaseSeq st) mx) (HeldPackets st) = Some b)"

lemma begin_collect_almost:
  assumes "collecting k st \<or> (State st = StateNew \<and> HeldPackets st = [])" "holdable k pkt"
  shows "almost_collecting k pkt (begin_collect c now pkt st)"
  using assms by (auto simp: almost_collecting_def begin_collect_def collecting_def)

text \<open>The result of \<open>hold_and_push\<close>: a return decides the flow; otherwise the push succeeded and
  the limits hold.\<close>

lemma send_closes: "closes k w (None, w1) \<Longrightarrow> closes k w (send env p w1)"
  using send_only [of w1 env p] by (auto simp: closes_def only_callsD)

lemma closes_flows: "closes k w1 r \<Longrightarrow> flows w1 = flows w \<Longrightarrow> closes k w r"
  by (simp add: closes_def)

lemma hold_and_push_flow:
  "case hold_and_push env nc c now k pkt st w of Inl r \<Rightarrow> closes k w r
   | Inr (st', w') \<Rightarrow> flows w' = flows w \<and> (\<exists>b b'. Reassembler st = Some b
       \<and> Push b (Seq (Meta pkt)) (Payload pkt) = (None, b')
       \<and> st' = st\<lparr>HeldPackets := HeldPackets st @ [pkt], Reassembler := Some b'\<rparr>)
       \<and> int (length (HeldPackets st')) < MaxHeldPackets c \<and> now - CollectStart st' \<le> CollectTimeout c
       \<and> (0 < MaxReassemblyBytesPerWorker c \<longrightarrow> reassemblyBytes w' \<le> MaxReassemblyBytesPerWorker c)
       \<and> (0 < MaxHeldBytesPerWorker c \<longrightarrow> heldBytes w' \<le> MaxHeldBytesPerWorker c)"
proof -
  have f: "closes k w (failOpen env k s u)" if "flows u = flows w" for s u
    by (rule closes_flows [OF failOpen_closes that])
  have over: "closes k w (case failOpen env k st w of (Some e, w') \<Rightarrow> (Some e, w') | (None, w') \<Rightarrow> send env pkt w')"
    using f [of w st] send_closes [of k w _ env pkt]
    by (cases "failOpen env k st w") (auto simp: closes_def split: option.split)
  show ?thesis
    by (auto simp: hold_and_push_def Let_def over over_held_def f closes_def [of k w "(Some _, _)"]
        split: option.split prod.split)
qed

lemma collecting_push:
  assumes "almost_collecting k pkt st" "Reassembler st = Some b"
    "Push b (Seq (Meta pkt)) (Payload pkt) = (None, b')"
  shows "collecting k (st\<lparr>HeldPackets := HeldPackets st @ [pkt], Reassembler := Some b'\<rparr>)"
proof -
  obtain mx where "push_held (New (BaseSeq st) mx) (HeldPackets st) = Some b"
    using assms(1,2) by (auto simp: almost_collecting_def)
  then have "push_held (New (BaseSeq st) mx) (HeldPackets st @ [pkt]) = Some b'"
    using assms(3) by (simp add: push_held_append)
  then show ?thesis using assms(1) by (auto simp: almost_collecting_def collecting_def)
qed

lemma hold_and_push_collecting:
  assumes "hold_and_push env nc c now k pkt st w = Inr (st', w')" "almost_collecting k pkt st"
  shows "collecting k st'" "flows w' = flows w"
  using hold_and_push_flow [where env = env and nc = nc and c = c and now = now and k = k
      and pkt = pkt and st = st and w = w] collecting_push [OF assms(2)] assms(1)
  by auto

section \<open>The handlers keep the invariant\<close>

definition flows_ok :: "worker \<Rightarrow> bool" where
  "flows_ok w \<longleftrightarrow> (\<forall>k st. Get (flows w) k = Some st \<longrightarrow> flow_ok k st)"

lemma update_ok:
  "flows_ok w0 \<Longrightarrow> Get (flows w') = (Get (flows w0))(k \<mapsto> st) \<Longrightarrow> flow_ok k st \<Longrightarrow> flows_ok w'"
  by (simp add: flows_ok_def)

lemma moves_ok:
  assumes "flows_ok w0" "Get (flows w) = (Get (flows w0))(k := v)" "moves k st w (None, w')" "flow_ok k st"
  shows "flows_ok w'"
proof -
  obtain st' where "Get (flows w') = (Get (flows w0))(k \<mapsto> st')" "st' = st \<or> closed st'"
    using assms(2,3) by (auto simp: moves_def)
  then show ?thesis using update_ok [OF assms(1), of w' k st'] assms(4) by (auto simp: flow_ok_def)
qed

lemma closes_ok:
  assumes "flows_ok w0" "Get (flows w) = (Get (flows w0))(k := v)" "closes k w (None, w')"
  shows "flows_ok w'"
proof -
  obtain st' where "Get (flows w') = (Get (flows w0))(k \<mapsto> st')" "closed st'"
    using assms(2,3) by (auto simp: closes_def)
  then show ?thesis using update_ok [OF assms(1), of w' k st'] by (simp add: flow_ok_def)
qed

lemma forget_ok: "flows_ok w \<Longrightarrow> flows_ok (forget k w)"
  by (auto simp: flows_ok_def ft.get_remove split: if_splits)

lemma send_ok: "flows_ok w \<Longrightarrow> send env p w = (e, w') \<Longrightarrow> flows_ok w'"
  using send_only [of w env p] by (simp add: flows_ok_def only_callsD)

text \<open>After the packet is held, every way out keeps the flows well formed.\<close>

lemma held_end_ok:
  assumes "env_ok env" "flows_ok w0" "Get (flows w) = (Get (flows w0))(k := v)" "collecting k st"
  shows "failOpen env k st w = (None, w') \<Longrightarrow> flows_ok w'"
    and "fail_and_forget env k st w = (None, w') \<Longrightarrow> flows_ok w'"
    and "try_split env c c1 c2 k st w = (None, w') \<Longrightarrow> flows_ok w'"
proof -
  show f: "flows_ok u" if "failOpen env k st w = (None, u)" for u
    using closes_ok [OF assms(2,3)] failOpen_closes [of k w env st] that by simp
  show "fail_and_forget env k st w = (None, w') \<Longrightarrow> flows_ok w'"
    using f by (auto simp: fail_and_forget_def intro: forget_ok split: prod.splits option.splits)
  show "try_split env c c1 c2 k st w = (None, w') \<Longrightarrow> flows_ok w'"
    using moves_ok [OF assms(2,3)] try_split_moves [OF assms(1), of k st w c c1 c2] assms(4)
    by (auto simp: flow_ok_def)
qed

lemma worker_inv_flows: "worker_inv w \<longleftrightarrow> acct w \<and> flows_ok w"
  by (simp add: worker_inv_def flows_ok_def)

lemma same_key_update: "Get (flows w) = (Get (flows w))(k := Get (flows w) k)"
  by simp

lemma handle_existing_ok:
  assumes env: "env_ok env" and ok: "flows_ok w" "Get (flows w) k = Some st"
    and h: "input_ok pkt" "KeyFromMeta (Meta pkt) = k"
    and r: "handle_existing env c c1 c2 now k pkt st w = (None, w')"
  shows "flows_ok w'"
proof -
  define s where "s = st\<lparr>LastActive := now\<rparr>"
  have st: "flow_ok k st" using ok by (simp add: flows_ok_def)
  then have s: "flow_ok k s" by (simp add: s_def flow_ok_def closed_def collecting_def)
  then have saved: "flows_ok (save k s w)"
    using ok by (simp add: flows_ok_def ft.get_store)
  have fo: "flows_ok u" if "failOpen env k s w = (None, u)" for u
    using closes_ok [OF ok(1) same_key_update] failOpen_closes [of k w env s] that by simp
  let ?fin = "Payload pkt = [] \<and> (HasFlag pkt TCPFlagRST \<or> HasFlag pkt TCPFlagFIN)"
  let ?decided = "State s = StateInjected \<or> State s = StatePassThrough"
  consider (fin) ?fin | (pass) "\<not> ?fin" "?decided \<or> Payload pkt = []"
    | (hold) "\<not> ?decided" "Payload pkt \<noteq> []" by blast
  then show ?thesis
  proof cases
    case fin
    then obtain w1 w2 where
      w1: "(if State s = StateCollecting then failOpen env k s w else (None, save k s w)) = (None, w1)"
      and w2: "send env pkt w1 = (None, w2)" "w' = forget k w2"
      using r by (auto simp: handle_existing_def Let_def s_def [symmetric] split: prod.splits option.splits)
    have "flows_ok w1" using w1 fo saved by (auto split: if_splits)
    then have "flows_ok w2" using w2(1) by (rule send_ok)
    then show ?thesis using w2(2) by (simp add: forget_ok)
  next
    case pass
    then have "send env pkt (save k s w) = (None, w')"
      using r by (auto simp: handle_existing_def Let_def s_def [symmetric] split: if_splits)
    then show ?thesis using saved by (rule send_ok [rotated])
  next
    case hold
    then have "collecting k s" using s by (auto simp: flow_ok_def closed_def)
    moreover have "holdable k pkt" using h hold by (simp add: holdable_def)
    ultimately have "almost_collecting k pkt (begin_collect c now pkt s)"
      by (intro begin_collect_almost) simp_all
    note col = hold_and_push_collecting [OF _ this, of env True c now w]
    show ?thesis
    proof (cases "hold_and_push env True c now k pkt (begin_collect c now pkt s) w")
      case (Inl x)
      then have "closes k w (None, w')"
        using r hold hold_and_push_flow [where env = env and nc = True and c = c and now = now and k = k
            and pkt = pkt and st = "begin_collect c now pkt s" and w = w]
        by (simp add: handle_existing_def Let_def s_def [symmetric])
      then show ?thesis by (rule closes_ok [OF ok(1) same_key_update])
    next
      case (Inr y)
      obtain s2 w2 where y: "y = (s2, w2)" by force
      note c2 = col [OF Inr [unfolded y]]
      have upd: "Get (flows w2) = (Get (flows w))(k := Get (flows w) k)" by (simp add: c2)
      show ?thesis
        using r hold held_end_ok [OF env ok(1) upd c2(1)]
        by (auto simp: handle_existing_def Let_def s_def [symmetric] Inr y split: if_splits)
    qed
  qed
qed

text \<open>The handler of a flow that is not in the table: the packet is sent, or a fresh flow is
  stored and the packet goes through the same steps as in \<^const>\<open>handle_existing\<close>.\<close>

definition fresh :: "config \<Rightarrow> int \<Rightarrow> packet \<Rightarrow> flow_state" where
  "fresh c now pkt = begin_collect c now pkt ((new_flow_state now)\<lparr>LastActive := now\<rparr>)"

lemma handle_new_cases:
  assumes "Get (flows w) k = None"
  obtains (sent) "handle_new env c c1 c2 now k pkt w = send env pkt w"
  | (held) "Payload pkt \<noteq> []" "MaxFlowsPerWorker c > 0 \<Longrightarrow> int (Len (flows w)) < MaxFlowsPerWorker c"
    "handle_new env c c1 c2 now k pkt w =
        (case hold_and_push env False c now k pkt (fresh c now pkt) (save k (new_flow_state now) w) of
       Inl r \<Rightarrow> r
     | Inr (st', w') \<Rightarrow>
         if HasFlag pkt TCPFlagSYN \<or> HasFlag pkt TCPFlagRST then
           (case failOpen env k st' w' of
              (Some e, w'') \<Rightarrow> (Some e, w'')
            | (None, w'') \<Rightarrow> (None, if HasFlag pkt TCPFlagRST then forget k w'' else w''))
         else if HasFlag pkt TCPFlagFIN then fail_and_forget env k st' w'
         else try_split env c c1 c2 k st' w')"
proof (cases "Payload pkt = [] \<or> (MaxFlowsPerWorker c > 0 \<and> int (Len (flows w)) \<ge> MaxFlowsPerWorker c)
    \<or> over_held c pkt w \<or> (MaxReassemblyBytesPerWorker c > 0
      \<and> reassemblyBytes w + int (length (Payload pkt)) > MaxReassemblyBytesPerWorker c)")
  case True
  then show ?thesis by (intro sent) (auto simp: handle_new_def Let_def)
next
  case False
  then show ?thesis
    using assms by (intro held) (auto simp: handle_new_def GetOrCreate_def Let_def save_def fresh_def)
qed

lemma fresh_simps [simp]:
  "HeldPackets (fresh c now pkt) = []" "State (fresh c now pkt) = StateCollecting"
  by (simp_all add: fresh_def begin_collect_def new_flow_state_def)

lemma fresh_almost: "holdable k pkt \<Longrightarrow> almost_collecting k pkt (fresh c now pkt)"
  unfolding fresh_def by (rule begin_collect_almost) (simp_all add: new_flow_state_def)

lemma fresh_counts:
  assumes "acct w" "Get (flows w) k = None"
  shows "counts k (fresh c now pkt) (save k (new_flow_state now) w)"
    and "fate_in x k (fresh c now pkt) (save k (new_flow_state now) w) = fate x w"
proof -
  have ok: "table_ok (flows w)" using assms by (simp add: acct_def)
  have "counts k ((new_flow_state now)\<lparr>LastActive := now\<rparr>) w"
    using assms by (intro counts_fresh) (simp_all add: held_size_def buf_size_def new_flow_state_def)
  then have "counts k (fresh c now pkt) w"
    unfolding fresh_def by (rule begin_collect_counts) (simp add: new_flow_state_def)
  then show "counts k (fresh c now pkt) (save k (new_flow_state now) w)"
    using ok by (simp add: counts_after_save)
  show "fate_in x k (fresh c now pkt) (save k (new_flow_state now) w) = fate x w"
    using ok assms by (simp add: fate_in_def fate_def rest_eq held_count_def)
qed

lemma handle_new_ok:
  assumes env: "env_ok env" and ok: "flows_ok w" "Get (flows w) k = None"
    and h: "input_ok pkt" "KeyFromMeta (Meta pkt) = k"
    and r: "handle_new env c c1 c2 now k pkt w = (None, w')"
  shows "flows_ok w'"
  using ok(2)
proof (cases rule: handle_new_cases [of w k env c c1 c2 now pkt])
  case sent
  then show ?thesis using r ok send_ok by metis
next
  case held
  let ?u = "save k (new_flow_state now) w" and ?s = "fresh c now pkt"
  have ho: "holdable k pkt" using h held by (simp add: holdable_def)
  note col = hold_and_push_collecting [OF _ fresh_almost [OF ho, of c now], of env False c now ?u]
  have u: "Get (flows ?u) = (Get (flows w))(k := Some (new_flow_state now))" by (simp add: ft.get_store)
  show ?thesis
  proof (cases "hold_and_push env False c now k pkt ?s ?u")
    case (Inl x)
    then have "closes k ?u (None, w')"
      using r held hold_and_push_flow [where env = env and nc = False and c = c and now = now and k = k
          and pkt = pkt and st = ?s and w = ?u] by simp
    then show ?thesis by (rule closes_ok [OF ok(1) u])
  next
    case (Inr y)
    obtain s2 w2 where y: "y = (s2, w2)" by force
    note c2 = col [OF Inr [unfolded y]]
    have u2: "Get (flows w2) = (Get (flows w))(k := Some (new_flow_state now))" using u by (simp add: c2)
    note ends = held_end_ok [OF env ok(1) u2 c2(1)]
    show ?thesis
    proof (cases "HasFlag pkt TCPFlagSYN \<or> HasFlag pkt TCPFlagRST")
      case True
      then obtain w3 where "failOpen env k s2 w2 = (None, w3)"
        "w' = (if HasFlag pkt TCPFlagRST then forget k w3 else w3)"
        using r held(3) by (auto simp: Inr y split: prod.splits option.splits)
      then show ?thesis using ends(1) forget_ok by simp
    next
      case False
      then show ?thesis using r held(3) ends(2,3) by (auto simp: Inr y split: if_splits)
    qed
  qed
qed

lemma handle_new_kept:
  assumes env: "env_ok env" and a: "acct w" "Get (flows w) k = None"
  shows "handled pkt w (handle_new env c c1 c2 now k pkt w)"
  using a(2)
proof (cases rule: handle_new_cases [of w k env c c1 c2 now pkt])
  case sent
  then show ?thesis using a(1) by (simp add: send_handled)
next
  case held
  let ?u = "save k (new_flow_state now) w" and ?s = "fresh c now pkt"
  have syn: "kept k st' w' (case failOpen env k st' w' of (Some e, w'') \<Rightarrow> (Some e, w'')
      | (None, w'') \<Rightarrow> (None, if HasFlag pkt TCPFlagRST then forget k w'' else w''))"
    if "counts k st' w'" for st' w'
    using fail_and_forget_kept [OF that, of env] failOpen_kept [OF that, of env]
    by (auto simp: fail_and_forget_def split: prod.split option.split)
  note hp = hold_and_push_kept [OF fresh_counts(1) [OF a, of c now pkt], of pkt env False c now]
  have "kept1 pkt k ?s ?u (handle_new env c c1 c2 now k pkt w)"
  proof (cases "hold_and_push env False c now k pkt ?s ?u")
    case (Inl r)
    then show ?thesis using hp held(3) by simp
  next
    case (Inr y)
    obtain s2 w2 where y: "y = (s2, w2)" by force
    have c2: "counts k s2 w2" and f2: "\<And>x. fate_in x k s2 w2 = fate_in x k ?s ?u + of_bool (x = pkt)"
      using hp Inr y by auto
    note out = kept_kept1 [OF _ f2]
    show ?thesis
      using out [OF syn [OF c2]] out [OF fail_and_forget_kept [OF c2]] out [OF try_split_kept [OF env c2]]
      by (simp add: held(3) Inr y)
  qed
  then show ?thesis by (simp add: kept1_def handled_def fresh_counts(2) [OF a])
qed

text \<open>The summary of the handler.\<close>

lemma handlePacket_cases:
  obtains (nil) "c0 = None" "handlePacket env c0 c1 c2 now pkt w = (Some (ErrNew ''worker config is nil''), w)"
  | (old) c st where "c0 = Some c" "Get (flows w) (KeyFromMeta (Meta pkt)) = Some st"
    "handlePacket env c0 c1 c2 now pkt w = handle_existing env c c1 c2 now (KeyFromMeta (Meta pkt)) pkt st w"
  | (new) c where "c0 = Some c" "Get (flows w) (KeyFromMeta (Meta pkt)) = None"
    "handlePacket env c0 c1 c2 now pkt w = handle_new env c c1 c2 now (KeyFromMeta (Meta pkt)) pkt w"
  by (cases c0; cases "Get (flows w) (KeyFromMeta (Meta pkt))") (auto simp: handlePacket_def Let_def)

lemma handlePacket_handled:
  assumes "env_ok env" "worker_inv w"
  shows "handled pkt w (handlePacket env c0 c1 c2 now pkt w)"
proof -
  have a: "acct w" using assms by (simp add: worker_inv_def)
  show ?thesis
  proof (cases rule: handlePacket_cases [of c0 env c1 c2 now pkt w])
    case nil
    then show ?thesis using a by (simp add: handled_def)
  next
    case (old c st)
    then have "idle_ok st" using assms(2) flow_ok_idle by (auto simp: worker_inv_def)
    with old show ?thesis using handle_existing_kept [OF assms(1) a] by metis
  next
    case (new c)
    then show ?thesis using handle_new_kept [OF assms(1) a] by metis
  qed
qed

lemma handlePacket_inv:
  assumes "env_ok env" "worker_inv w" "input_ok pkt" "handlePacket env c0 c1 c2 now pkt w = (None, w')"
  shows "worker_inv w'"
proof -
  have "acct w'" using handlePacket_handled [OF assms(1,2), of pkt c0 c1 c2 now] assms(4) by (simp add: handled_def)
  moreover have "flows_ok w'"
  proof (cases rule: handlePacket_cases [of c0 env c1 c2 now pkt w])
    case (old c st)
    then show ?thesis
      using handle_existing_ok [OF assms(1) _ _ assms(3) refl] assms(2,4) by (metis worker_inv_flows)
  next
    case (new c)
    then show ?thesis
      using handle_new_ok [OF assms(1) _ _ assms(3) refl] assms(2,4) by (metis worker_inv_flows)
  qed (use assms(4) in simp)
  ultimately show ?thesis by (simp add: worker_inv_flows)
qed

lemma newWorker_inv: "worker_inv (newWorker i c)"
  by (simp add: worker_inv_def acct_def newWorker_def Let_def)

end
