(* ===== verification/WorkerRunInv.thy ===== *)
theory WorkerRunInv
  imports WorkerRun WorkerInv
begin

text \<open>
  The invariant along the worker's loop: collections of idle flows, touches, and whole runs.
\<close>

section \<open>Collections\<close>

lemma gc_visit_inv:
  assumes inv: "worker_inv w" and st: "Get (flows w) k = Some st"
  shows "worker_inv (snd (gc_visit env now idle k st (fe, w)))
    \<and> (fst (gc_visit env now idle k st (fe, w)) = None \<longrightarrow> (\<forall>x. captured x \<longrightarrow>
         fate x (snd (gc_visit env now idle k st (fe, w))) = fate x w))"
proof -
  have a: "acct w" and fl: "flows_ok w" using inv by (simp_all add: worker_inv_flows)
  have ok: "flow_ok k st" using fl st by (simp add: flows_ok_def)
  have c: "counts k st w" using a st by (rule counts_load)
  have f: "fate_in x k st w = fate x w" for x using a st by (simp add: fate_load acct_def)
  obtain e w1 where fo: "failOpen env k st w = (e, w1)" by force
  have k1: "kept k st w (e, w1)" using failOpen_kept [OF c, of env] fo by simp
  have ok1: "flows_ok w1"
    using failOpen_moves [of k st w env] fo fl ok update_ok [OF fl, of w1 k]
    by (auto simp: moves_def flow_ok_def)
  show ?thesis
  proof (cases "State st = StateCollecting \<and> HeldPackets st \<noteq> []")
    case True
    show ?thesis
    proof (cases e)
      case None
      have "acct w1" using k1 by (simp add: kept_def)
      note fe = forget_empty [OF this, of k]
      show ?thesis
        using True None k1 ok1 f fe failOpen_state [of env k st w w1] fo inv
        by (auto simp: gc_visit_def kept_def worker_inv_flows forget_ok)
    next
      case (Some e')
      then show ?thesis using True fo k1 ok1 inv by (auto simp: gc_visit_def kept_def worker_inv_flows)
    qed
  next
    case False
    then have "HeldPackets st = [] \<and> Reassembler st = None"
      using ok by (auto simp: flow_ok_def closed_def collecting_def)
    then show ?thesis
      using False forget_empty [OF a, of k] st fl inv by (auto simp: gc_visit_def worker_inv_flows forget_ok)
  qed
qed

lemma gc_inv:
  assumes "worker_inv w"
  shows "worker_inv (snd (gc env co now order w))
    \<and> (fst (gc env co now order w) = None \<longrightarrow>
        (\<forall>x. captured x \<longrightarrow> fate x (snd (gc env co now order w)) = fate x w))"
  unfolding gc_def
proof (rule Range_induct [where P = "\<lambda>s. worker_inv (snd s) \<and> (fst s = None \<longrightarrow>
      (\<forall>x. captured x \<longrightarrow> fate x (snd s) = fate x w))"], goal_cases)
  case (2 k st u)
  obtain fe v where u: "u = (fe, v)" by force
  have "fst (gc_visit env now (gc_idle co) k st (fe, v)) = None \<Longrightarrow> fe = None"
    by (auto simp: gc_visit_def split: prod.splits option.splits if_splits)
  then show ?case using 2 gc_visit_inv [of v k st env now "gc_idle co" fe] by (auto simp: u)
qed (simp add: assms)

section \<open>Touches and rounds\<close>

lemma save_touch_inv:
  assumes "worker_inv w" "Get (flows w) k = Some st"
  shows "worker_inv (save k (st\<lparr>LastActive := now\<rparr>) w)" "fate x (save k (st\<lparr>LastActive := now\<rparr>) w) = fate x w"
proof -
  let ?st = "st\<lparr>LastActive := now\<rparr>"
  have a: "acct w" and fl: "flows_ok w" using assms by (simp_all add: worker_inv_flows)
  then have "counts k st w" using assms(2) by (intro counts_load)
  then have "counts k ?st w"
    by (subst counts_cong [of _ w _ st]) (simp_all add: held_size_def buf_size_def)
  then have "acct (save k ?st w)" by (rule acct_save)
  moreover have "flow_ok k ?st"
    using fl assms(2) by (fastforce simp: flows_ok_def flow_ok_def closed_def collecting_def)
  then have "flows_ok (save k ?st w)" using fl by (auto intro: update_ok simp: ft.get_store)
  ultimately show "worker_inv (save k ?st w)" by (simp add: worker_inv_flows)
  have ok: "table_ok (flows w)" using a by (simp add: acct_def)
  have "fate_in x k ?st w = fate_in x k st w" by (simp add: fate_in_def held_count_def)
  then show "fate x (save k ?st w) = fate x w"
    by (simp add: fate_save [OF ok] fate_load [OF ok assms(2)])
qed

lemma worker_inv_cong:
  "flows w' = flows w \<Longrightarrow> heldBytes w' = heldBytes w \<Longrightarrow> reassemblyBytes w' = reassemblyBytes w
    \<Longrightarrow> worker_inv w' = worker_inv w"
  by (simp add: worker_inv_def acct_def)

lemma fate_cong: "flows w' = flows w \<Longrightarrow> calls w' = calls w \<Longrightarrow> fate x w' = fate x w"
  by (simp add: fate_def)

text \<open>The handler leaves the queues and the flows of other keys alone.\<close>

definition framed :: "key \<Rightarrow> worker \<Rightarrow> worker \<Rightarrow> bool" where
  "framed k w w' \<longleftrightarrow> inq w' = inq w \<and> touchq w' = touchq w \<and> inClosed w' = inClosed w \<and> cfg w' = cfg w
     \<and> inCap w' = inCap w \<and> touchCap w' = touchCap w \<and> touchClosed w' = touchClosed w
     \<and> (\<forall>j. j \<noteq> k \<longrightarrow> Get (flows w') j = Get (flows w) j)"

lemma framed_refl [simp]: "framed k w w"
  by (simp add: framed_def)

lemma framed_trans: "framed k u v \<Longrightarrow> framed k v w \<Longrightarrow> framed k u w"
  by (simp add: framed_def)

lemma framed_upd [simp]:
  "framed k w (save k st w') = framed k w w'" "framed k w (forget k w') = framed k w w'"
  by (auto simp: framed_def save_def forget_def ft.get_store ft.get_remove)

lemma only_calls_framed: "only_calls w w' \<Longrightarrow> framed k w w'"
  by (auto simp: only_calls_def framed_def)

lemma send_framed [simp]: "send env p w = (e, w') \<Longrightarrow> framed k w w'"
  using send_only [of w env p] only_calls_framed by simp

lemma failOpen_framed: "framed k w (snd (failOpen env k st w))"
  using only_calls_framed [OF send_all_only [of w env "HeldPackets st"], of k]
  by (auto simp: failOpen_def clearCollectingState_def framed_def save_def ft.get_store split: prod.splits option.splits)

lemma injectWindow_framed:
  assumes "env_ok env"
  shows "framed k w (snd (injectWindow env co k st wl w))"
proof -
  have drop: "framed k v (snd (case dropHeld env (HeldPackets st) v of
         (Some e, w'') \<Rightarrow> (Some e, save k st w'')
       | (None, w'') \<Rightarrow>
           let (st', w3) = clearCollectingState (st\<lparr>State := StateInjected\<rparr>) w''
           in (None, save k (st'\<lparr>Processed := True\<rparr>) w3)))" for v
    using only_calls_framed [OF dropHeld_only [of v env "HeldPackets st"], of k]
    by (auto simp: clearCollectingState_def framed_def save_def ft.get_store split: prod.splits option.splits)
  have step: "framed k w (snd (case inject_segments env cf st tpl m segs wl r w of
       (Some e, w') \<Rightarrow> failOpen env k st w'
     | (None, w') \<Rightarrow> (case dropHeld env (HeldPackets st) w' of
         (Some e, w'') \<Rightarrow> (Some e, save k st w'')
       | (None, w'') \<Rightarrow>
           let (st', w3) = clearCollectingState (st\<lparr>State := StateInjected\<rparr>) w''
           in (None, save k (st'\<lparr>Processed := True\<rparr>) w3))))" for cf tpl m segs r
  proof (cases "inject_segments env cf st tpl m segs wl r w")
    case (Pair e w1)
    have "framed k w w1"
      using inject_segments_inj [OF assms] Pair by (metis snd_conv inj_calls_only only_calls_framed)
    then show ?thesis using framed_trans [OF _ failOpen_framed] framed_trans [OF _ drop]
      by (cases e) (simp_all add: Pair)
  qed
  show ?thesis
    unfolding injectWindow_def
    by (cases co; cases "Reassembler st"; cases "Template st") (simp_all add: Let_def failOpen_framed step)
qed

lemma try_split_framed:
  assumes "env_ok env"
  shows "framed k w (snd (try_split env c c1 c2 k st w))"
  using assms
  by (auto simp: try_split_def trySplitImmediate_def trySplitTLSHello_def Let_def failOpen_framed
      injectWindow_framed split: option.split prod.split result.split)

lemma fail_and_forget_framed: "framed k w (snd (fail_and_forget env k st w))"
  using failOpen_framed [of k w env st]
  by (auto simp: fail_and_forget_def split: prod.split option.split)

lemma hold_and_push_framed:
  "case hold_and_push env nc c now k pkt st w of Inl r \<Rightarrow> framed k w (snd r)
   | Inr (st', w') \<Rightarrow> framed k w w'"
proof -
  have f: "framed k w (snd (failOpen env k s u))" if "framed k w u" for s u
    using that failOpen_framed by (rule framed_trans)
  have over: "framed k w (snd (case failOpen env k st w of (Some e, w') \<Rightarrow> (Some e, w') | (None, w') \<Rightarrow> send env pkt w'))"
    using failOpen_framed [of k w env st] framed_trans [OF _ send_framed]
    by (cases "failOpen env k st w"; cases "send env pkt (snd (failOpen env k st w))")
      (auto split: option.split)
  have upd: "framed k w (w\<lparr>heldBytes := a\<rparr>)" "framed k w (w\<lparr>heldBytes := a, reassemblyBytes := b\<rparr>)" for a b
    by (simp_all add: framed_def)
  show ?thesis
    by (auto simp: hold_and_push_def Let_def over f upd split: option.split prod.split)
qed

lemma handlePacket_framed:
  assumes "env_ok env"
  shows "framed (KeyFromMeta (Meta pkt)) w (snd (handlePacket env c0 c1 c2 now pkt w))"
proof -
  have hold: "framed (KeyFromMeta (Meta pkt)) w (snd (case hold_and_push env nc c now (KeyFromMeta (Meta pkt)) pkt st u of Inl r \<Rightarrow> r | Inr (st', w') \<Rightarrow> F st' w'))"
    if "framed (KeyFromMeta (Meta pkt)) w u" "\<And>st' w'. framed (KeyFromMeta (Meta pkt)) w w' \<Longrightarrow> framed (KeyFromMeta (Meta pkt)) w (snd (F st' w'))" for nc c st u F
    using hold_and_push_framed [where env = env and nc = nc and c = c and now = now and k = "KeyFromMeta (Meta pkt)"
        and pkt = pkt and st = st and w = u] that
    by (auto split: sum.splits prod.splits intro: framed_trans)
  have f: "framed (KeyFromMeta (Meta pkt)) w (snd (failOpen env (KeyFromMeta (Meta pkt)) s u))" "framed (KeyFromMeta (Meta pkt)) w (snd (fail_and_forget env (KeyFromMeta (Meta pkt)) s u))"
    "framed (KeyFromMeta (Meta pkt)) w (snd (try_split env c c1 c2 (KeyFromMeta (Meta pkt)) s u))" if "framed (KeyFromMeta (Meta pkt)) w u" for s u c
    using that failOpen_framed fail_and_forget_framed try_split_framed [OF assms]
    by (meson framed_trans)+
  have s: "framed (KeyFromMeta (Meta pkt)) w (snd (send env pkt u))" if "framed (KeyFromMeta (Meta pkt)) w u" for u
    using that only_calls_framed [OF send_only] by (rule framed_trans)
  show ?thesis
  proof (cases rule: handlePacket_cases [of c0 env c1 c2 now pkt w])
    case (old c st)
    let ?k = "KeyFromMeta (Meta pkt)" and ?s = "st\<lparr>LastActive := now\<rparr>"
    have fin: "framed (KeyFromMeta (Meta pkt)) w (snd (case r of (Some e, w') \<Rightarrow> (Some e, w')
        | (None, w') \<Rightarrow> (case send env pkt w' of (Some e, w'') \<Rightarrow> (Some e, w'')
          | (None, w'') \<Rightarrow> (None, forget ?k w''))))" if "framed (KeyFromMeta (Meta pkt)) w (snd r)" for r
      using that s [of "snd r"] by (cases r; cases "send env pkt (snd r)") (auto split: option.split)
    show ?thesis
      unfolding old(3) handle_existing_def Let_def
      by (auto simp: fin f s intro!: hold)
  next
    case (new c)
    let ?k = "KeyFromMeta (Meta pkt)"
    have syn: "framed (KeyFromMeta (Meta pkt)) w (snd (case failOpen env ?k st u of (Some e, w'') \<Rightarrow> (Some e, w'')
        | (None, w'') \<Rightarrow> (None, if b then forget ?k w'' else w'')))" if "framed (KeyFromMeta (Meta pkt)) w u" for st u b
      using f(1) [OF that, of st] by (auto split: prod.split option.split)
    from new(2) show ?thesis
    proof (cases rule: handle_new_cases [of w ?k env c c1 c2 now pkt])
      case sent
      then show ?thesis unfolding new(3) by (simp add: s)
    next
      case held
      have u: "framed (KeyFromMeta (Meta pkt)) w (save ?k (new_flow_state now) w)" by simp
      show ?thesis unfolding new(3) held(3)
        by (rule hold [OF u]) (simp add: syn f)
    qed
  qed simp
qed

text \<open>The collector leaves the queues alone and removes flows only.\<close>

definition shrunk :: "worker \<Rightarrow> worker \<Rightarrow> bool" where
  "shrunk w w' \<longleftrightarrow> inq w' = inq w \<and> touchq w' = touchq w \<and> inClosed w' = inClosed w \<and> cfg w' = cfg w
     \<and> inCap w' = inCap w \<and> touchCap w' = touchCap w \<and> touchClosed w' = touchClosed w
     \<and> dom (Get (flows w')) \<subseteq> dom (Get (flows w))"

lemma framed_shrunk: "framed k w w' \<Longrightarrow> Get (flows w) k \<noteq> None \<Longrightarrow> shrunk w w'"
  unfolding framed_def shrunk_def by (auto simp: dom_def)

lemma shrunk_trans: "shrunk u v \<Longrightarrow> shrunk v w \<Longrightarrow> shrunk u w"
  unfolding shrunk_def using subset_trans by metis

lemma gc_shrunk: "shrunk w (snd (gc env co now order w))"
  unfolding gc_def
proof (rule Range_induct [where P = "\<lambda>s. shrunk w (snd s)"], goal_cases)
  case (2 k st u)
  obtain fe v where u: "u = (fe, v)" by force
  have "framed k v (snd (failOpen env k st v))" by (rule failOpen_framed)
  then have "framed k v (snd (gc_visit env now (gc_idle co) k st u))"
    by (auto simp: u gc_visit_def split: prod.split option.split)
  then show ?case using 2 framed_shrunk shrunk_trans u by fastforce
qed (simp add: shrunk_def)

section \<open>Runs\<close>

definition run_inv :: "worker \<Rightarrow> bool" where
  "run_inv w \<longleftrightarrow> worker_inv w \<and> (\<forall>p\<in>set (inq w). input_ok p)"

text \<open>Released, held, or still in the queue.\<close>

definition whereabouts :: "packet \<Rightarrow> worker \<Rightarrow> int" where
  "whereabouts x w = fate x w + int (count_list (inq w) x)"

lemma run_step_Running:
  assumes env: "env_ok env" and inv: "run_inv w" and r: "run_step env ch w = Running w'"
  shows "run_inv w' \<and> (\<forall>x. captured x \<longrightarrow> whereabouts x w' = whereabouts x w)"
proof (cases ch)
  case (TakeIn c0 c1 c2 now)
  then obtain p ps where q: "inq w = p # ps"
    and h: "handlePacket env c0 c1 c2 now p (w\<lparr>inq := ps\<rparr>) = (None, w')"
    using r by (auto split: list.splits if_splits prod.splits option.splits)
  let ?v = "w\<lparr>inq := ps\<rparr>"
  have v: "worker_inv ?v" using inv by (simp add: run_inv_def worker_inv_def acct_def)
  have "input_ok p" using inv q by (simp add: run_inv_def)
  then have "worker_inv w'" using handlePacket_inv [OF env v _ h] by simp
  moreover have "inq w' = ps" using handlePacket_framed [OF env, of p ?v c0 c1 c2 now] h by (simp add: framed_def)
  ultimately show ?thesis
    using inv q handlePacket_handled [OF env v, of p c0 c1 c2 now] h fate_cong [of ?v w]
    by (auto simp: run_inv_def whereabouts_def handled_def)
next
  case (TakeTouch now)
  show ?thesis
  proof (cases "touchq w")
    case Nil
    then have "w' = w\<lparr>touchClosed := False\<rparr>" using r TakeTouch by (auto split: if_splits)
    then show ?thesis
      using inv worker_inv_cong [of w' w] fate_cong [of w' w] by (simp add: run_inv_def whereabouts_def)
  next
    case (Cons k ks)
    let ?u = "w\<lparr>touchq := ks\<rparr>"
    have u: "worker_inv ?u" using inv worker_inv_cong [of ?u w] by (simp add: run_inv_def)
    have fu: "fate x ?u = fate x w" for x by (rule fate_cong) simp_all
    show ?thesis
    proof (cases "Get (flows w) k")
      case None
      then show ?thesis using r TakeTouch Cons u fu inv by (auto simp: run_inv_def whereabouts_def)
    next
      case (Some st)
      then have w': "w' = save k (st\<lparr>LastActive := now\<rparr>) ?u" using r TakeTouch Cons by simp
      have "Get (flows ?u) k = Some st" using Some by simp
      note t = save_touch_inv [OF u this, where now = now]
      have "inq w' = inq w" by (simp add: w' save_def)
      then show ?thesis using t fu inv by (simp add: w' run_inv_def whereabouts_def)
    qed
  qed
next
  case (TakeTimer co now order)
  then have g: "gc env co now order w = (None, w')" using r by (auto split: prod.splits option.splits)
  then show ?thesis
    using gc_inv [of w env co now order] gc_shrunk [of w env co now order] inv
    by (simp add: run_inv_def whereabouts_def shrunk_def)
next
  case (TakeDone e)
  then show ?thesis using r by simp
qed

lemma run_Running:
  assumes "env_ok env"
  shows "run_inv w \<Longrightarrow> run env chs w = Running w' \<Longrightarrow>
    run_inv w' \<and> (\<forall>x. captured x \<longrightarrow> whereabouts x w' = whereabouts x w)"
proof (induction chs arbitrary: w)
  case (Cons ch chs)
  then obtain w1 where s: "run_step env ch w = Running w1" and r: "run env chs w1 = Running w'"
    by (auto split: progress.splits)
  note a = run_step_Running [OF assms Cons.prems(1) s]
  note b = Cons.IH [OF conjunct1 [OF a] r]
  show ?case
  proof (intro conjI allI impI)
    fix x assume "captured x"
    then show "whereabouts x w' = whereabouts x w" using a b by metis
  qed (use b in simp)
qed simp

lemma run_step_Returned:
  assumes env: "env_ok env" and inv: "run_inv w" and r: "run_step env ch w = Returned e w'"
  shows "acct w'"
proof (cases ch)
  case (TakeIn c0 c1 c2 now)
  show ?thesis
  proof (cases "inq w")
    case Nil
    then show ?thesis using r TakeIn inv by (auto simp: run_inv_def worker_inv_def split: if_splits)
  next
    case (Cons p ps)
    let ?v = "w\<lparr>inq := ps\<rparr>"
    have "worker_inv ?v" using inv worker_inv_cong [of ?v w] by (simp add: run_inv_def)
    then have "acct (snd (handlePacket env c0 c1 c2 now p ?v))"
      using handlePacket_handled [OF env] by (simp add: handled_def)
    then show ?thesis using r TakeIn Cons by (auto split: prod.splits option.splits)
  qed
next
  case (TakeTouch now)
  then show ?thesis using r by (auto split: list.splits if_splits)
next
  case (TakeTimer co now order)
  then show ?thesis
    using r gc_inv [of w env co now order] inv by (auto simp: run_inv_def worker_inv_def split: prod.splits option.splits)
next
  case (TakeDone e')
  then show ?thesis using r inv by (simp add: run_inv_def worker_inv_def)
qed

lemma run_Returned:
  assumes "env_ok env"
  shows "run_inv w \<Longrightarrow> run env chs w = Returned e w' \<Longrightarrow> acct w'"
proof (induction chs arbitrary: w)
  case (Cons ch chs)
  then show ?case
    using run_step_Running [OF assms, of w ch] run_step_Returned [OF assms, of w ch]
    by (auto split: progress.splits)
qed simp

end
