(* ===== verification/WorkerInject.thy ===== *)
theory WorkerInject
  imports WorkerInv
begin

text \<open>
  What the worker puts on the wire when it injects a window: the injected packets decode to
  segments of the flow whose payloads are cuts of the byte stream and cover the contiguous
  prefix.
\<close>

section \<open>One injected packet\<close>

definition wire_payload :: "packet \<Rightarrow> bytes" where
  "wire_payload p = drop (ip_hlen (Data p) + tcp_hlen (Data p)) (Data p)"

definition wire_seq :: "packet \<Rightarrow> u32" where
  "wire_seq p = Seq (decoded_meta (Data p))"

text \<open>\<^term>\<open>p\<close> is decoded by a receiver as the template's packet with the given sequence
  number, flags and payload.\<close>

definition segment_of :: "packet \<Rightarrow> u32 \<Rightarrow> byte \<Rightarrow> bytes \<Rightarrow> packet \<Rightarrow> bool" where
  "segment_of t sq fl pl p \<longleftrightarrow> Source p = SourceInjected \<and> valid_tcp4 (Data p)
     \<and> decoded_meta (Data p) = (Meta t)\<lparr>Seq := sq, Flags := fl\<rparr> \<and> wire_payload p = pl"

lemma segment_of_wire: "segment_of t sq fl pl p \<Longrightarrow> wire_seq p = sq \<and> wire_payload p = pl"
  by (simp add: segment_of_def wire_seq_def)

lemma buildPacket_decoded:
  assumes "decoded t" "buildPacket (Some t) sq pl fl i = (r, i')"
  obtains q where "r = Inr q" "i' = map_option (\<lambda>i. i + 1) i" "segment_of t sq fl pl q"
    "length (Data q) = IPHeaderLen (Meta t) + TCPHeaderLen (Meta t) + length pl"
    "be16 (Data q) 2 = word_of_nat (length (Data q))"
    "be16 (Data q) 4 = (case i of None \<Rightarrow> be16 (Data t) 4 | Some i \<Rightarrow> i)" "Addr q = Addr t"
proof -
  let ?n = "IPHeaderLen (Meta t)" let ?hl = "?n + TCPHeaderLen (Meta t)"
  have m: "meta_ok t" using assms(1) by (rule decoded_ok)
  note eq = buildPacket_eq [of ?n t ?hl sq pl fl i]
  define e where "e = built_header (Data t) ?n ?hl (word_of_nat (?hl + length pl)) i sq fl @ pl"
  note v = built_valid [OF assms(1), of "word_of_nat (?hl + length pl)" i sq fl pl, folded e_def]
  have t: "tcp_hlen e = TCPHeaderLen (Meta t)" "ip_hlen e = ?n"
    using arg_cong [OF v(2), of TCPHeaderLen] v(4) by (simp_all add: decoded_meta_lens)
  have r: "r = Inr \<lparr>Data = e, Addr = Addr t, Meta = zero_meta, Source = SourceInjected, NFQID = 0\<rparr>"
    "i' = map_option (\<lambda>i. i + 1) i"
    using eq m assms(2) by (simp_all add: meta_ok_def e_def)
  show ?thesis
    by (rule that [OF r]) (simp_all add: segment_of_def wire_payload_def v t)
qed

lemma calc_segment:
  assumes "env_ok env" "segment_of t sq fl pl q"
  shows "segment_of t sq fl pl (snd (env_calc env q))"
proof -
  have c: "checksummer (env_calc env)" using assms(1) by (simp add: env_ok_def)
  have v: "valid_tcp4 (Data q)" using assms(2) by (simp add: segment_of_def)
  let ?e = "Data (snd (env_calc env q))"
  note d = checksummer.calc_decode [OF c v]
  have "ip_hlen ?e = ip_hlen (Data q)" "tcp_hlen ?e = tcp_hlen (Data q)"
    using arg_cong [OF d(2), of TCPHeaderLen] arg_cong [OF d(2), of IPHeaderLen]
    by (simp_all add: decoded_meta_lens)
  then show ?thesis
    using assms(2) d checksummer.calc_source [OF c] by (simp add: segment_of_def wire_payload_def)
qed

lemma built_sent:
  assumes env: "env_ok env" and t: "decoded t"
    and b: "buildPacket (Some t) sq pl fl i = (Inr q, i')" and s: "send_built env q w = (None, w')"
  obtains p where "w' = w\<lparr>calls := calls w @ [Sent p None]\<rparr>" "segment_of t sq fl pl p"
proof -
  obtain p where c: "env_calc env q = (None, p)" and p: "send env p w = (None, w')"
    using s by (auto simp: send_built_def split: prod.splits option.splits)
  have "segment_of t sq fl pl q" using buildPacket_decoded [OF t b] by blast
  then have "segment_of t sq fl pl p" using calc_segment [OF env] c by (metis snd_conv)
  with p show ?thesis by (intro that) (auto simp: send_def Let_def)
qed

section \<open>The sending loops\<close>

text \<open>The wire segments of a list of payloads laid end to end from \<^term>\<open>off\<close>.\<close>

fun laid :: "u32 \<Rightarrow> nat \<Rightarrow> bytes list \<Rightarrow> (u32 \<times> bytes) list" where
  "laid base off [] = []"
| "laid base off (s # ss) = (base + word_of_nat off, s) # laid base (off + length s) ss"

abbreviation wires :: "packet list \<Rightarrow> (u32 \<times> bytes) list" where
  "wires ps \<equiv> map (\<lambda>p. (wire_seq p, wire_payload p)) ps"

definition on_wire :: "key \<Rightarrow> packet \<Rightarrow> bool" where
  "on_wire k p \<longleftrightarrow> Source p = SourceInjected \<and> valid_tcp4 (Data p) \<and> KeyFromMeta (decoded_meta (Data p)) = k"

lemma segment_on_wire:
  "segment_of t sq fl pl p \<Longrightarrow> on_wire (KeyFromMeta (Meta t)) p"
  by (simp add: segment_of_def on_wire_def KeyFromMeta_def)

lemma sendSegments_wire:
  assumes env: "env_ok env" and t: "decoded t"
  shows "\<forall>s\<in>set segs. s \<noteq> [] \<Longrightarrow> sendSegments env (Some t) base off segs fl lf i w = (None, i', w')
    \<Longrightarrow> \<exists>ps. w' = w\<lparr>calls := calls w @ map (\<lambda>p. Sent p None) ps\<rparr> \<and> wires ps = laid base off segs
      \<and> (\<forall>p\<in>set ps. on_wire (KeyFromMeta (Meta t)) p)"
proof (induction segs arbitrary: off i w)
  case Nil
  then show ?case by (intro exI [of _ "[]"]) simp
next
  case (Cons s segs)
  let ?fl = "if segs = [] then lf else fl"
  obtain r i1 where b: "buildPacket (Some t) (base + word_of_nat off) s ?fl i = (r, i1)" by force
  then obtain q where q: "r = Inr q" using buildPacket_decoded [OF t] by metis
  have s: "s \<noteq> []" using Cons.prems(1) by simp
  obtain w1 where w1: "send_built env q w = (None, w1)"
    and rest: "sendSegments env (Some t) base (off + length s) segs fl lf i1 w1 = (None, i', w')"
    using Cons.prems(2) s b q by (auto simp: Let_def split: prod.splits option.splits)
  obtain p where p: "w1 = w\<lparr>calls := calls w @ [Sent p None]\<rparr>"
      "segment_of t (base + word_of_nat off) ?fl s p"
    using built_sent [OF env t b [unfolded q] w1] by blast
  obtain ps where "w' = w1\<lparr>calls := calls w1 @ map (\<lambda>p. Sent p None) ps\<rparr>"
      "wires ps = laid base (off + length s) segs" "\<forall>p\<in>set ps. on_wire (KeyFromMeta (Meta t)) p"
    using Cons.IH [OF _ rest] Cons.prems(1) by auto
  with p segment_of_wire [OF p(2)] segment_on_wire [OF p(2)] show ?case
    by (intro exI [of _ "p # ps"]) simp
qed

text \<open>The stream offset of a sequence number, and the positions a segment fills.\<close>

definition off_of :: "u32 \<Rightarrow> u32 \<Rightarrow> nat" where
  "off_of base sq = unat (sq - base)"

definition fills :: "u32 \<Rightarrow> u32 \<times> bytes \<Rightarrow> nat set" where
  "fills base s = {off_of base (fst s)..<off_of base (fst s) + length (snd s)}"

definition frag :: "packet \<Rightarrow> u32 \<times> bytes" where
  "frag p = (Seq (Meta p), Payload p)"

text \<open>A segment is the end of a held packet's payload.\<close>

definition tail_of :: "u32 \<Rightarrow> u32 \<times> bytes \<Rightarrow> u32 \<times> bytes \<Rightarrow> bool" where
  "tail_of base f s \<longleftrightarrow> (\<exists>tr < length (snd f). off_of base (fst s) = off_of base (fst f) + tr
     \<and> snd s = drop tr (snd f))"

lemma trim_arith:
  fixes base sq wl :: u32 and n :: nat
  assumes len: "off_of base sq + n < 2 ^ 32" "0 < n"
  defines "off \<equiv> sq - base"
  defines "trim \<equiv> (if off < wl then wl - off else 0)"
  shows "(off + word_of_nat n \<le> wl) = (off_of base sq + n \<le> unat wl)"
    and "unat wl < off_of base sq + n \<Longrightarrow> unat trim = unat wl - off_of base sq"
    and "unat wl < off_of base sq + n \<Longrightarrow> \<not> word_of_nat n \<le> trim"
    and "unat wl < off_of base sq + n \<Longrightarrow> off_of base (sq + trim) = off_of base sq + unat trim"
proof -
  have n: "unat (word_of_nat n :: u32) = n" using len by (intro unat_of_nat32) simp
  have o: "unat off = off_of base sq" by (simp add: off_def off_of_def)
  have en: "unat (off + word_of_nat n) = off_of base sq + n"
    using len by (simp add: unat_word_ariths n o)
  then show "(off + word_of_nat n \<le> wl) = (off_of base sq + n \<le> unat wl)"
    by (simp add: word_le_nat_alt)
  have trim: "unat trim = unat wl - off_of base sq"
    by (cases "off < wl") (auto simp: trim_def word_less_nat_alt o unat_sub word_le_nat_alt)
  then show "unat trim = unat wl - off_of base sq" .
  assume wl: "unat wl < off_of base sq + n"
  then show "\<not> word_of_nat n \<le> trim" using trim len by (simp add: word_le_nat_alt n)
  have "off_of base sq + unat trim < 2 ^ 32" using trim wl len by linarith
  moreover have "off_of base (sq + trim) = unat (off + trim)" by (simp add: off_of_def off_def algebra_simps)
  ultimately show "off_of base (sq + trim) = off_of base sq + unat trim"
    by (simp add: unat_word_ariths o)
qed

text \<open>What is left of the held packets' payloads once the first \<^term>\<open>wl\<close> bytes of the stream are
  cut off.\<close>

fun tails :: "u32 \<Rightarrow> nat \<Rightarrow> (u32 \<times> bytes) list \<Rightarrow> (u32 \<times> bytes) list" where
  "tails base wl [] = []"
| "tails base wl (f # fs) = (let off = off_of base (fst f) in
     if off + length (snd f) \<le> wl then tails base wl fs
     else (fst f + word_of_nat (wl - off), drop (wl - off) (snd f)) # tails base wl fs)"

text \<open>A packet that is sent lies beyond the first \<^term>\<open>wl\<close> bytes, is not empty, and ends where a
  held packet ends.\<close>

definition beyond :: "u32 \<Rightarrow> nat \<Rightarrow> packet list \<Rightarrow> packet \<Rightarrow> bool" where
  "beyond base wl hs p \<longleftrightarrow> wl \<le> off_of base (wire_seq p) \<and> wire_payload p \<noteq> []
     \<and> (\<exists>h\<in>set hs. off_of base (wire_seq p) + length (wire_payload p) = off_of base (Seq (Meta h)) + length (Payload h))"

lemma reinjectTrimmed_wire:
  assumes env: "env_ok env"
  shows "\<forall>h\<in>set hs. decoded h \<and> KeyFromMeta (Meta h) = k \<and> Payload h \<noteq> []
        \<and> off_of base (Seq (Meta h)) + length (Payload h) < 2 ^ 32
    \<Longrightarrow> reinjectTrimmed env base wl hs i w = (None, i', w')
    \<Longrightarrow> \<exists>ps. w' = w\<lparr>calls := calls w @ map (\<lambda>p. Sent p None) ps\<rparr>
      \<and> (\<forall>p\<in>set ps. on_wire k p \<and> (\<exists>h\<in>set hs. tail_of base (frag h) (wire_seq p, wire_payload p)))
      \<and> (\<Union>h\<in>set hs. fills base (frag h)) - {..<unat wl} \<subseteq> (\<Union>s\<in>set (wires ps). fills base s)
      \<and> wires ps = tails base (unat wl) (map frag hs) \<and> (\<forall>p\<in>set ps. beyond base (unat wl) hs p)"
proof (induction hs arbitrary: i w)
  case Nil
  then show ?case by (intro exI [of _ "[]"]) simp
next
  case (Cons h hs)
  let ?off = "off_of base (Seq (Meta h))" and ?n = "length (Payload h)"
  have h: "decoded h" "KeyFromMeta (Meta h) = k" "Payload h \<noteq> []" "?off + ?n < 2 ^ 32" "0 < ?n"
    using Cons.prems(1) by auto
  define trim where "trim = (if Seq (Meta h) - base < wl then wl - (Seq (Meta h) - base) else 0)"
  note ar = trim_arith [OF h(4,5), of wl, folded trim_def]
  have prem: "\<forall>h\<in>set hs. decoded h \<and> KeyFromMeta (Meta h) = k \<and> Payload h \<noteq> []
        \<and> off_of base (Seq (Meta h)) + length (Payload h) < 2 ^ 32" using Cons.prems(1) by simp
  show ?case
  proof (cases "?off + ?n \<le> unat wl")
    case True
    then have "reinjectTrimmed env base wl hs i w = (None, i', w')"
      using Cons.prems(2) h ar(1) by (simp add: Let_def)
    moreover have "fills base (frag h) \<subseteq> {..<unat wl}" using True by (auto simp: fills_def frag_def)
    moreover have "tails base (unat wl) (map frag (h # hs)) = tails base (unat wl) (map frag hs)"
      using True by (simp add: frag_def)
    moreover have "beyond base (unat wl) hs p \<Longrightarrow> beyond base (unat wl) (h # hs) p" for p by (auto simp: beyond_def)
    moreover obtain ps where "w' = w\<lparr>calls := calls w @ map (\<lambda>p. Sent p None) ps\<rparr>"
        "\<forall>p\<in>set ps. on_wire k p \<and> (\<exists>h\<in>set hs. tail_of base (frag h) (wire_seq p, wire_payload p))"
        "(\<Union>h\<in>set hs. fills base (frag h)) - {..<unat wl} \<subseteq> (\<Union>s\<in>set (wires ps). fills base s)"
        "wires ps = tails base (unat wl) (map frag hs)" "\<forall>p\<in>set ps. beyond base (unat wl) hs p"
      using Cons.IH [OF prem calculation(1)] by blast
    ultimately show ?thesis by (intro exI [of _ ps]) auto
  next
    case False
    obtain r i1 where b: "buildPacket (Some h) (Seq (Meta h) + trim) (drop (unat trim) (Payload h)) (Flags (Meta h)) i = (r, i1)"
      by force
    then obtain q where q: "r = Inr q" using buildPacket_decoded [OF h(1)] by metis
    have "reinjectTrimmed env base wl (h # hs) i w = (case send_built env q w of
         (Some e, w') \<Rightarrow> (Some e, i1, w') | (None, w') \<Rightarrow> reinjectTrimmed env base wl hs i1 w')"
      using False h ar b q by (simp add: Let_def trim_def [symmetric])
    then obtain w1 where w1: "send_built env q w = (None, w1)"
      and rest: "reinjectTrimmed env base wl hs i1 w1 = (None, i', w')"
      using Cons.prems(2) by (auto split: prod.splits option.splits)
    obtain p where p: "w1 = w\<lparr>calls := calls w @ [Sent p None]\<rparr>"
        "segment_of h (Seq (Meta h) + trim) (Flags (Meta h)) (drop (unat trim) (Payload h)) p"
      using built_sent [OF env h(1) b [unfolded q] w1] by blast
    note wire = segment_of_wire [OF p(2)]
    have tr: "unat trim = unat wl - ?off" "off_of base (wire_seq p) = ?off + unat trim" "unat trim < ?n"
      using False ar(2,4) wire h(5) by (simp_all, linarith)
    then have tail: "tail_of base (frag h) (wire_seq p, wire_payload p)"
      using wire by (auto simp: tail_of_def frag_def)
    have cov: "fills base (frag h) - {..<unat wl} \<subseteq> fills base (wire_seq p, wire_payload p)"
      using tr wire by (auto simp: fills_def frag_def)
    obtain ps where ps: "w' = w1\<lparr>calls := calls w1 @ map (\<lambda>p. Sent p None) ps\<rparr>"
        "\<forall>p\<in>set ps. on_wire k p \<and> (\<exists>h\<in>set hs. tail_of base (frag h) (wire_seq p, wire_payload p))"
        "(\<Union>h\<in>set hs. fills base (frag h)) - {..<unat wl} \<subseteq> (\<Union>s\<in>set (wires ps). fills base s)"
        "wires ps = tails base (unat wl) (map frag hs)" "\<forall>p\<in>set ps. beyond base (unat wl) hs p"
      using Cons.IH [OF prem rest] by blast
    have ow: "on_wire k p" using segment_on_wire [OF p(2)] h by simp
    have "trim = word_of_nat (unat trim)" by simp
    then have "trim = word_of_nat (unat wl - ?off)" by (simp only: tr(1))
    then have t: "wires (p # ps) = tails base (unat wl) (map frag (h # hs))"
      using False wire tr(1) ps(4) by (simp add: frag_def Let_def)
    have "beyond base (unat wl) (h # hs) p" using tr wire h(5) by (auto simp: beyond_def)
    moreover have "\<forall>q\<in>set ps. beyond base (unat wl) (h # hs) q" using ps(5) by (auto simp: beyond_def)
    ultimately have b: "\<forall>q\<in>set (p # ps). beyond base (unat wl) (h # hs) q" by simp
    have "w' = w\<lparr>calls := calls w @ map (\<lambda>p. Sent p None) (p # ps)\<rparr>"
      "\<forall>q\<in>set (p # ps). on_wire k q \<and> (\<exists>h\<in>set (h # hs). tail_of base (frag h) (wire_seq q, wire_payload q))"
      "(\<Union>h\<in>set (h # hs). fills base (frag h)) - {..<unat wl} \<subseteq> (\<Union>s\<in>set (wires (p # ps)). fills base s)"
      using p(1) ps(1-3) tail cov ow by auto
    then show ?thesis using t b by blast
  qed
qed

section \<open>What the buffer of a collecting flow holds\<close>

lemma Push_None_fits:
  assumes "buf_inv b" "length p < 2 ^ 32" "p \<noteq> []" "fst (Push b sq p) = None"
  shows "push_at b sq + length p \<le> unat (maxBytes b)"
proof (rule ccontr)
  assume far: "\<not> push_at b sq + length p \<le> unat (maxBytes b)"
  have "length (contig b) \<le> unat (maxBytes b)" using assms(1) by (simp add: buf_inv_def)
  then show False
    using Push_spec [OF assms(1,2), of sq] assms(3,4) far by (auto simp: Let_def split: if_splits)
qed

lemma push_held_inv:
  assumes "buf_inv b" "\<forall>p\<in>set ps. Payload p \<noteq> [] \<and> length (Payload p) < 2 ^ 32" "push_held b ps = Some b'"
  shows "buf_inv b' \<and> baseSeq b' = baseSeq b \<and> maxBytes b' = maxBytes b
    \<and> dom (abs_buf b') \<subseteq> dom (abs_buf b) \<union> (\<Union>p\<in>set ps. fills (baseSeq b) (frag p))
    \<and> (\<forall>p\<in>set ps. off_of (baseSeq b) (Seq (Meta p)) + length (Payload p) \<le> unat (maxBytes b))
    \<and> (\<forall>S. buf.agrees S b \<and> (\<forall>p\<in>set ps. cut_of S (off_of (baseSeq b) (Seq (Meta p))) (Payload p))
        \<longrightarrow> buf.agrees S b')"
  using assms
proof (induction ps arbitrary: b)
  case (Cons p ps)
  obtain b1 where push: "Push b (Seq (Meta p)) (Payload p) = (None, b1)" and rest: "push_held b1 ps = Some b'"
    using Cons.prems(3) by (auto split: prod.splits option.splits)
  have len: "length (Payload p) < 2 ^ 32" "Payload p \<noteq> []" using Cons.prems(2) by auto
  note good = Push_good [OF Cons.prems(1) len(1), of "Seq (Meta p)", unfolded push, simplified]
  have fit: "off_of (baseSeq b) (Seq (Meta p)) + length (Payload p) \<le> unat (maxBytes b)"
    using Push_None_fits [OF Cons.prems(1) len, of "Seq (Meta p)"] push by (simp add: push_at_def off_of_def)
  have dom: "dom (abs_buf b1) \<subseteq> dom (abs_buf b) \<union> fills (baseSeq b) (frag p)"
    by (auto simp: good(4) stream_put_def fills_def frag_def push_at_def off_of_def split: if_splits)
  have agree: "buf.agrees S b1"
    if "buf.agrees S b" "cut_of S (off_of (baseSeq b) (Seq (Meta p))) (Payload p)" for S
    using buf.push_agrees [OF Cons.prems(1) len(1) that(1), of "Seq (Meta p)"] that(2) push
    by (simp add: push_at_def off_of_def)
  note IH = Cons.IH [OF good(1) _ rest, unfolded good(2,3)]
  have prem: "\<forall>p\<in>set ps. Payload p \<noteq> [] \<and> length (Payload p) < 2 ^ 32" using Cons.prems(2) by simp
  note IH = IH [OF prem]
  have "dom (abs_buf b') \<subseteq> dom (abs_buf b) \<union> (\<Union>p\<in>set (p # ps). fills (baseSeq b) (frag p))"
    using IH dom by (simp only: list.set UN_insert) blast
  moreover have "\<forall>S. buf.agrees S b \<and> (\<forall>p\<in>set (p # ps).
      cut_of S (off_of (baseSeq b) (Seq (Meta p))) (Payload p)) \<longrightarrow> buf.agrees S b'"
    using IH agree by (simp only: list.set ball_simps) blast
  ultimately show ?case using IH fit by (simp only: list.set ball_simps) blast
qed simp

lemma holdable_lens: "holdable k p \<Longrightarrow> Payload p \<noteq> [] \<and> length (Payload p) < 2 ^ 32"
  using length_Payload_le [of p] by (simp add: holdable_def input_ok_def)

lemma collecting_buffer:
  assumes "collecting k st" "Reassembler st = Some b"
  shows "buf_inv b" "baseSeq b = BaseSeq st" "length (Contiguous b) < 2 ^ 32"
    and "{..<length (Contiguous b)} \<subseteq> (\<Union>p\<in>set (HeldPackets st). fills (BaseSeq st) (frag p))"
    and "\<forall>p\<in>set (HeldPackets st). off_of (BaseSeq st) (Seq (Meta p)) + length (Payload p) < 2 ^ 32"
    and "\<forall>p\<in>set (HeldPackets st). cut_of S (off_of (BaseSeq st) (Seq (Meta p))) (Payload p)
      \<Longrightarrow> Contiguous b = map S [0..<length (Contiguous b)]"
proof -
  obtain mx where h: "push_held (New (BaseSeq st) mx) (HeldPackets st) = Some b"
    using assms by (auto simp: collecting_def)
  have ne: "\<forall>p\<in>set (HeldPackets st). Payload p \<noteq> [] \<and> length (Payload p) < 2 ^ 32"
    using assms(1) holdable_lens by (auto simp: collecting_def)
  note all = push_held_inv [OF New_inv ne h]
  show inv: "buf_inv b" and base: "baseSeq b = BaseSeq st" using all by simp_all
  have "length (Contiguous b) \<le> unat (maxBytes b)" using inv by (simp add: buf_inv_def Contiguous_def)
  then show "length (Contiguous b) < 2 ^ 32" using max_lt [of b] by simp
  have "{..<length (Contiguous b)} \<subseteq> dom (abs_buf b)" using buf.front_view [OF inv] by auto
  then show "{..<length (Contiguous b)} \<subseteq> (\<Union>p\<in>set (HeldPackets st). fills (BaseSeq st) (frag p))"
    using all by auto
  show "\<forall>p\<in>set (HeldPackets st). off_of (BaseSeq st) (Seq (Meta p)) + length (Payload p) < 2 ^ 32"
    using all unat_u32_less [of mx] by fastforce
  assume "\<forall>p\<in>set (HeldPackets st). cut_of S (off_of (BaseSeq st) (Seq (Meta p))) (Payload p)"
  moreover have "buf.agrees S (New (BaseSeq st) mx)" by (simp add: buf.agrees_def)
  ultimately have "buf.agrees S b" using all by simp
  then show "Contiguous b = map S [0..<length (Contiguous b)]" by (rule buf.agrees_front [OF inv])
qed

section \<open>The laid segments\<close>

lemma length_laid [simp]: "length (laid base off ss) = length ss"
  by (induction ss arbitrary: off) simp_all

lemma laid_facts:
  "off + length (concat segs) < 2 ^ 32 \<Longrightarrow> x \<in> set (laid base off segs) \<Longrightarrow>
    \<exists>o'. off_of base (fst x) = off + o' \<and> o' + length (snd x) \<le> length (concat segs)
      \<and> snd x = take (length (snd x)) (drop o' (concat segs))"
proof (induction segs arbitrary: off)
  case (Cons s segs)
  show ?case
  proof (cases "x = (base + word_of_nat off, s)")
    case True
    then show ?thesis using Cons.prems(1) by (intro exI [of _ 0]) (simp add: off_of_def unat_of_nat32)
  next
    case False
    then have mem: "x \<in> set (laid base (off + length s) segs)" using Cons.prems(2) by simp
    have "off + length s + length (concat segs) < 2 ^ 32" using Cons.prems(1) by (simp add: add.assoc)
    from Cons.IH [OF this mem] obtain o' where o: "off_of base (fst x) = off + length s + o'"
        "o' + length (snd x) \<le> length (concat segs)" "snd x = take (length (snd x)) (drop o' (concat segs))"
      by blast
    have "drop (length s + o') (concat (s # segs)) = drop o' (concat segs)" by simp
    then have "snd x = take (length (snd x)) (drop (length s + o') (concat (s # segs)))"
      using o(3) by (simp only:)
    moreover have "off_of base (fst x) = off + (length s + o')" using o(1) by (simp only: add.assoc)
    moreover have "length s + o' + length (snd x) \<le> length (concat (s # segs))" using o(2) by simp
    ultimately show ?thesis by blast
  qed
qed simp

lemma laid_covers:
  "off + length (concat segs) < 2 ^ 32 \<Longrightarrow>
    {off..<off + length (concat segs)} \<subseteq> (\<Union>x\<in>set (laid base off segs). fills base x)"
proof (induction segs arbitrary: off)
  case (Cons s segs)
  have "off_of base (base + word_of_nat off) = off"
    using Cons.prems by (simp add: off_of_def unat_of_nat32)
  then have "{off..<off + length s} \<subseteq> fills base (base + word_of_nat off, s)" by (auto simp: fills_def)
  moreover have "{off + length s..<off + length s + length (concat segs)}
      \<subseteq> (\<Union>x\<in>set (laid base (off + length s) segs). fills base x)"
    using Cons.IH [of "off + length s"] Cons.prems by (simp add: add.assoc)
  moreover have "{off..<off + length (concat (s # segs))}
      \<subseteq> {off..<off + length s} \<union> {off + length s..<off + length s + length (concat segs)}" by auto
  ultimately show ?case by (simp only: laid.simps list.set UN_insert) blast
qed simp

lemma laid_shift: "laid (base + word_of_nat n) off segs = laid base (n + off) segs"
  by (induction segs arbitrary: off) (simp_all add: add.assoc)

lemma cut_of_take_drop:
  "cut_of S x p \<Longrightarrow> n \<le> length p \<Longrightarrow> cut_of S (x + o') (take n (drop o' p))"
  by (auto simp: cut_of_def add.assoc)

lemma laid_payloads [simp]: "map snd (laid base off ss) = ss"
  by (induction ss arbitrary: off) simp_all

lemma laid_snoc: "laid base off (ss @ [s]) = laid base off ss @ [(base + word_of_nat (off + length (concat ss)), s)]"
  by (induction ss arbitrary: off) (simp_all add: add.assoc)

lemma tails_laid:
  "off + length (concat ss) < 2 ^ 32 \<Longrightarrow>
    \<exists>rs. tails base wl (laid base off ss) = laid base (max off wl) rs \<and> concat rs = drop (wl - off) (concat ss)"
proof (induction ss arbitrary: off)
  case (Cons s ss)
  have o: "off_of base (base + word_of_nat off) = off" using Cons.prems by (simp add: off_of_def unat_of_nat32)
  obtain rs where IH: "tails base wl (laid base (off + length s) ss) = laid base (max (off + length s) wl) rs"
    "concat rs = drop (wl - (off + length s)) (concat ss)"
    using Cons.IH [of "off + length s"] Cons.prems by (auto simp: add.assoc)
  show ?case
  proof (cases "off + length s \<le> wl")
    case True
    then have "max (off + length s) wl = max off wl" "wl - (off + length s) = wl - off - length s" by simp_all
    then show ?thesis using True IH o by (intro exI [of _ rs]) simp
  next
    case False
    then have m: "max off wl = off + (wl - off)" "max off wl + (length s - (wl - off)) = off + length s"
      "max (off + length s) wl = off + length s" "wl - (off + length s) = 0" "wl - off - length s = 0" by simp_all
    have "base + word_of_nat off + word_of_nat (wl - off) = base + word_of_nat (max off wl)"
      by (simp only: m(1) of_nat_add add.assoc)
    then show ?thesis using False IH o m by (intro exI [of _ "drop (wl - off) s # rs"]) simp
  qed
qed (intro exI [of _ "[]"], simp)

section \<open>Packets held in order\<close>

text \<open>No byte of the stream is in two of the packets.\<close>

definition separate :: "u32 \<Rightarrow> packet list \<Rightarrow> bool" where
  "separate base hs \<longleftrightarrow> sorted_wrt (\<lambda>h h'. fills base (frag h) \<inter> fills base (frag h') = {}) hs"

lemma Push_flags_down:
  assumes "Push b sq p = (None, b')" "\<not> hadOutOfOrder b'" "\<not> hadOverlap b'"
  shows "\<not> hadOutOfOrder b \<and> \<not> hadOverlap b"
  using assms push_trimmed_flags [of b "sq - baseSeq b" p]
    push_trimmed_flags [of "b\<lparr>hadOverlap := True\<rparr>" "contigLen b" "drop (unat (contigLen b - (sq - baseSeq b))) p"]
  by (auto simp: Push_def Let_def split: if_splits)

text \<open>While both flags are down everything held lies in the prefix, and if no byte was held twice the
  packets are laid end to end.\<close>

lemma held_in_order:
  assumes "\<forall>p\<in>set hs. Payload p \<noteq> [] \<and> length (Payload p) < 2 ^ 32" "push_held (New base mx) hs = Some b"
    and "\<not> hadOutOfOrder b" "\<not> hadOverlap b"
  shows "segments b = [] \<and> (\<forall>h\<in>set hs. off_of base (Seq (Meta h)) + length (Payload h) \<le> length (contig b))
    \<and> (separate base hs \<longrightarrow> (\<exists>ss. map frag hs = laid base 0 ss \<and> concat ss = contig b))"
  using assms
proof (induction hs arbitrary: b rule: rev_induct)
  case Nil
  then show ?case by (auto simp: New_def intro!: exI [of _ "[]"])
next
  case (snoc h hs)
  obtain b0 where b0: "push_held (New base mx) hs = Some b0" and p: "Push b0 (Seq (Meta h)) (Payload h) = (None, b)"
    using snoc.prems(2) by (auto simp: push_held_append split: option.splits prod.splits)
  have lens: "\<forall>p\<in>set hs. Payload p \<noteq> [] \<and> length (Payload p) < 2 ^ 32" and h: "Payload h \<noteq> []" "length (Payload h) < 2 ^ 32"
    using snoc.prems(1) by auto
  note fl = Push_flags_down [OF p snoc.prems(3,4)]
  note IH = snoc.IH [OF lens b0 conjunct1 [OF fl] conjunct2 [OF fl]]
  note all = push_held_inv [OF New_inv lens b0]
  have inv: "buf_inv b0" and base: "baseSeq b0 = base" using all by (simp_all add: New_def)
  have off: "push_at b0 (Seq (Meta h)) = off_of base (Seq (Meta h))" by (simp add: push_at_def off_of_def base)
  consider (old) "b = b0" "off_of base (Seq (Meta h)) + length (Payload h) \<le> length (contig b0)"
    | (fresh) "off_of base (Seq (Meta h)) = length (contig b0)" "contig b = contig b0 @ Payload h" "segments b = []"
    using Push_in_order [OF inv _ p snoc.prems(3,4) h(2)] IH h(1) off by auto
  then show ?case
  proof cases
    case old
    have "\<not> separate base (hs @ [h])"
    proof
      assume sep: "separate base (hs @ [h])"
      have "{..<length (contig b0)} \<subseteq> dom (abs_buf b0)" using buf.front_view [OF inv] by (auto simp: Contiguous_def)
      then have "{..<length (contig b0)} \<subseteq> (\<Union>p\<in>set hs. fills base (frag p))" using all by auto
      moreover have "off_of base (Seq (Meta h)) < length (contig b0)" using old h(1) by (cases "Payload h") auto
      ultimately obtain p where "p \<in> set hs" "off_of base (Seq (Meta h)) \<in> fills base (frag p)" by blast
      moreover have "off_of base (Seq (Meta h)) \<in> fills base (frag h)" using h(1) by (simp add: fills_def frag_def)
      ultimately show False using sep by (auto simp: separate_def sorted_wrt_append)
    qed
    then show ?thesis using IH old by simp
  next
    case fresh
    have lay: "\<exists>ss. map frag (hs @ [h]) = laid base 0 ss \<and> concat ss = contig b" if "separate base (hs @ [h])"
    proof -
      have "separate base hs" using that by (simp add: separate_def sorted_wrt_append)
      then obtain ss where ss: "map frag hs = laid base 0 ss" "concat ss = contig b0" using IH by blast
      have "Seq (Meta h) = base + word_of_nat (length (contig b0))"
        using fresh(1) [unfolded off_of_def, symmetric] by simp
      then show ?thesis using ss fresh(2) by (intro exI [of _ "ss @ [Payload h]"]) (simp add: laid_snoc frag_def)
    qed
    have "\<forall>x\<in>set (hs @ [h]). off_of base (Seq (Meta x)) + length (Payload x) \<le> length (contig b)"
      using IH fresh(1,2) by (auto intro: trans_le_add1)
    then show ?thesis using lay fresh(3) by blast
  qed
qed

lemma collecting_in_order:
  assumes "collecting k st" "Reassembler st = Some b" "canTrimRemainder st"
  shows "\<forall>h\<in>set (HeldPackets st). off_of (BaseSeq st) (Seq (Meta h)) + length (Payload h) \<le> length (Contiguous b)"
    and "separate (BaseSeq st) (HeldPackets st) \<Longrightarrow> \<exists>ss. map frag (HeldPackets st) = laid (BaseSeq st) 0 ss \<and> concat ss = Contiguous b"
proof -
  obtain mx where h: "push_held (New (BaseSeq st) mx) (HeldPackets st) = Some b"
    using assms by (auto simp: collecting_def)
  have ne: "\<forall>p\<in>set (HeldPackets st). Payload p \<noteq> [] \<and> length (Payload p) < 2 ^ 32"
    using assms(1) holdable_lens by (auto simp: collecting_def)
  have "\<not> hadOutOfOrder b" "\<not> hadOverlap b"
    using assms(2,3) by (simp_all add: canTrimRemainder_def HadOutOfOrder_def HadOverlap_def)
  note all = held_in_order [OF ne h this]
  show "\<forall>h\<in>set (HeldPackets st). off_of (BaseSeq st) (Seq (Meta h)) + length (Payload h) \<le> length (Contiguous b)"
    using all by (simp add: Contiguous_def)
  show "separate (BaseSeq st) (HeldPackets st) \<Longrightarrow> \<exists>ss. map frag (HeldPackets st) = laid (BaseSeq st) 0 ss \<and> concat ss = Contiguous b"
    using all by (simp add: Contiguous_def)
qed

section \<open>The whole injection\<close>

text \<open>What is sent after the window of \<^term>\<open>wl\<close> bytes: nothing of the window and nothing beyond the
  prefix \<^term>\<open>C\<close>, and in the case \<^term>\<open>once\<close> exactly the rest of the prefix, laid end to end.\<close>

definition after_window :: "u32 \<Rightarrow> nat \<Rightarrow> bytes \<Rightarrow> bool \<Rightarrow> packet list \<Rightarrow> bool" where
  "after_window base wl C once qs \<longleftrightarrow> (\<forall>q\<in>set qs. wire_payload q \<noteq> [] \<and> wl \<le> off_of base (wire_seq q)
       \<and> off_of base (wire_seq q) + length (wire_payload q) \<le> length C)
     \<and> (once \<longrightarrow> (\<exists>rs. wires qs = laid base wl rs \<and> concat rs = drop wl C))"

lemma laid_after_window:
  assumes w: "wires qs = laid base wl rs" "concat rs = drop wl C" "\<forall>s\<in>set rs. s \<noteq> []"
    and len: "wl \<le> length C" "length C < 2 ^ 32"
  shows "after_window base wl C once qs"
proof -
  have small: "wl + length (concat rs) < 2 ^ 32" using w(2) len by simp
  have "wire_payload q \<noteq> [] \<and> wl \<le> off_of base (wire_seq q) \<and> off_of base (wire_seq q) + length (wire_payload q) \<le> length C"
    if "q \<in> set qs" for q
  proof -
    have m: "(wire_seq q, wire_payload q) \<in> set (laid base wl rs)" using that w(1) by (metis (mono_tags, lifting) image_eqI set_map)
    have "snd x \<in> set rs" if "x \<in> set (laid base off rs)" for x off
      using that by (induction rs arbitrary: off) auto
    then have "wire_payload q \<noteq> []" using m w(3) by fastforce
    then show ?thesis using laid_facts [OF small m] w(2) len by auto
  qed
  then show ?thesis using w(1,2) by (auto simp: after_window_def)
qed

text \<open>The injected packets belong to the flow, cover the contiguous prefix of \<^term>\<open>n\<close> bytes,
  and are cuts of every stream that the held packets are cuts of.\<close>

definition carries :: "key \<Rightarrow> u32 \<Rightarrow> packet list \<Rightarrow> nat \<Rightarrow> packet list \<Rightarrow> bool" where
  "carries k base hs n ps \<longleftrightarrow> (\<forall>p\<in>set ps. on_wire k p)
     \<and> {..<n} \<subseteq> (\<Union>s\<in>set (wires ps). fills base s)
     \<and> (\<forall>S. (\<forall>h\<in>set hs. cut_of S (off_of base (Seq (Meta h))) (Payload h)) \<longrightarrow>
          (\<forall>p\<in>set ps. cut_of S (off_of base (wire_seq p)) (wire_payload p)))"

lemma laid_cuts:
  assumes "x \<in> set (laid base off segs)" "off + length (concat segs) < 2 ^ 32" "cut_of S off (concat segs)"
  shows "cut_of S (off_of base (fst x)) (snd x)"
proof -
  obtain o' where o: "off_of base (fst x) = off + o'" "o' + length (snd x) \<le> length (concat segs)"
    and x: "snd x = take (length (snd x)) (drop o' (concat segs))"
    using laid_facts [OF assms(2,1)] by blast
  have "cut_of S (off + o') (take (length (snd x)) (drop o' (concat segs)))"
    using assms(3) o(2) by (intro cut_of_take_drop) simp_all
  then show ?thesis using o(1) x by simp
qed

lemma tail_cuts:
  assumes "tail_of base (frag h) s" "cut_of S (off_of base (Seq (Meta h))) (Payload h)"
  shows "cut_of S (off_of base (fst s)) (snd s)"
  using assms by (auto simp: tail_of_def frag_def cut_of_def add.assoc)

lemma wires_cuts:
  assumes "\<forall>x\<in>set (wires ps). cut_of S (off_of base (fst x)) (snd x)"
  shows "\<forall>p\<in>set ps. cut_of S (off_of base (wire_seq p)) (wire_payload p)"
  using assms by auto

text \<open>A part of the prefix \<^term>\<open>C\<close> sent as segments laid end to end.\<close>

lemma laid_part:
  assumes w: "wires ps = laid base off segs" and c: "concat segs = take n (drop off C)" and len: "length C < 2 ^ 32"
    and off: "off \<le> length C"
  shows "{off..<off + length (concat segs)} \<subseteq> (\<Union>s\<in>set (wires ps). fills base s)"
    and "C = map S [0..<length C] \<Longrightarrow> \<forall>p\<in>set ps. cut_of S (off_of base (wire_seq p)) (wire_payload p)"
proof -
  have small: "off + length (concat segs) < 2 ^ 32" using c len off by simp
  show "{off..<off + length (concat segs)} \<subseteq> (\<Union>s\<in>set (wires ps). fills base s)"
    unfolding w by (rule laid_covers [OF small])
  assume C: "C = map S [0..<length C]"
  have "C ! i = S i" if "i < length C" for i using that C by (metis add_0 nth_map_upt diff_zero)
  then have "cut_of S off (concat segs)" unfolding c by (auto simp: cut_of_def)
  then show "\<forall>p\<in>set ps. cut_of S (off_of base (wire_seq p)) (wire_payload p)"
    by (intro wires_cuts, unfold w) (intro ballI laid_cuts [OF _ small])
qed

lemma trim_part:
  assumes env: "env_ok env" and col: "collecting k st" "Reassembler st = Some b" and wl: "wl \<le> length (Contiguous b)"
    and trim: "canTrimRemainder st"
    and r: "reinjectTrimmed env (BaseSeq st) (word_of_nat wl) (HeldPackets st) i w = (None, i', w')"
  obtains ps where "w' = w\<lparr>calls := calls w @ map (\<lambda>p. Sent p None) ps\<rparr>" "\<forall>p\<in>set ps. on_wire k p"
    "{wl..<length (Contiguous b)} \<subseteq> (\<Union>s\<in>set (wires ps). fills (BaseSeq st) s)"
    "\<And>S. \<forall>h\<in>set (HeldPackets st). cut_of S (off_of (BaseSeq st) (Seq (Meta h))) (Payload h) \<Longrightarrow>
      \<forall>p\<in>set ps. cut_of S (off_of (BaseSeq st) (wire_seq p)) (wire_payload p)"
    "after_window (BaseSeq st) wl (Contiguous b) (separate (BaseSeq st) (HeldPackets st)) ps"
proof -
  let ?base = "BaseSeq st" and ?hs = "HeldPackets st"
  note cb = collecting_buffer [OF col]
  note order = collecting_in_order [OF col trim]
  have hs: "\<forall>h\<in>set ?hs. decoded h \<and> KeyFromMeta (Meta h) = k \<and> Payload h \<noteq> []
      \<and> off_of ?base (Seq (Meta h)) + length (Payload h) < 2 ^ 32"
    using col(1) cb(5) by (auto simp: collecting_def holdable_def input_ok_def)
  obtain ps where p: "w' = w\<lparr>calls := calls w @ map (\<lambda>p. Sent p None) ps\<rparr>"
    "\<forall>p\<in>set ps. on_wire k p \<and> (\<exists>h\<in>set ?hs. tail_of ?base (frag h) (wire_seq p, wire_payload p))"
    "(\<Union>h\<in>set ?hs. fills ?base (frag h)) - {..<unat (word_of_nat wl :: u32)} \<subseteq> (\<Union>s\<in>set (wires ps). fills ?base s)"
    "wires ps = tails ?base (unat (word_of_nat wl :: u32)) (map frag ?hs)" "\<forall>p\<in>set ps. beyond ?base (unat (word_of_nat wl :: u32)) ?hs p"
    using reinjectTrimmed_wire [OF env hs r] by blast
  have u: "unat (word_of_nat wl :: u32) = wl" using wl cb(3) by (intro unat_of_nat32) simp
  show ?thesis
  proof (rule that [OF p(1)])
    show "{wl..<length (Contiguous b)} \<subseteq> (\<Union>s\<in>set (wires ps). fills ?base s)"
      using p(3) [unfolded u] cb(4) by force
    show "\<forall>p\<in>set ps. cut_of S (off_of ?base (wire_seq p)) (wire_payload p)"
      if "\<forall>h\<in>set ?hs. cut_of S (off_of ?base (Seq (Meta h))) (Payload h)" for S
      using p(2) that tail_cuts by fastforce
    have "\<exists>rs. wires ps = laid ?base wl rs \<and> concat rs = drop wl (Contiguous b)" if sep: "separate ?base ?hs"
    proof -
      obtain ss where ss: "map frag ?hs = laid ?base 0 ss" "concat ss = Contiguous b" using order(2) [OF sep] by blast
      then show ?thesis using tails_laid [of 0 ss ?base wl] p(4) [unfolded u] cb(3) by simp
    qed
    then show "after_window ?base wl (Contiguous b) (separate ?base ?hs) ps"
      using p(5) [unfolded u] order(1) by (auto simp: after_window_def beyond_def)
  qed (use p(2) in blast)
qed

text \<open>The three ways an injection ends without an error.\<close>

lemma inject_segments_cases:
  assumes "inject_segments env c st t mp segs wl rem w = (None, w')"
  obtains (none) fl lf i where "rem = []" "sendSegments env (Some t) (BaseSeq st) 0 segs fl lf (Some (IPv4ID (Data t))) w = (None, i, w')"
  | (trim) fl lf i w1 i' where "canTrimRemainder st" "sendSegments env (Some t) (BaseSeq st) 0 segs fl lf (Some (IPv4ID (Data t))) w = (None, i, w1)"
    "reinjectTrimmed env (BaseSeq st) (word_of_nat wl) (HeldPackets st) i w1 = (None, i', w')"
  | (chunk) fl lf i w1 i' fl' lf' where "sendSegments env (Some t) (BaseSeq st) 0 segs fl lf (Some (IPv4ID (Data t))) w = (None, i, w1)"
    "sendSegments env (Some t) (BaseSeq st + word_of_nat wl) 0 (chunkPayload rem mp) fl' lf' i w1 = (None, i', w')"
proof -
  define f where "f = Flags (Meta t) AND NOT (TCPFlagPSH OR TCPFlagFIN)"
  define l where "l = (if rem \<noteq> [] then f else Flags (Meta t))"
  obtain e i w1 where s: "sendSegments env (Some t) (BaseSeq st) 0 segs f l (Some (IPv4ID (Data t))) w = (e, i, w1)"
    using prod_cases3 by blast
  obtain e2 i2 w2 where r: "reinjectTrimmed env (BaseSeq st) (word_of_nat wl) (HeldPackets st) i w1 = (e2, i2, w2)"
    using prod_cases3 by blast
  obtain e3 i3 w3 where q: "sendSegments env (Some t) (BaseSeq st + word_of_nat wl) 0 (chunkPayload rem mp) f
      (Flags (Meta t)) i w1 = (e3, i3, w3)" using prod_cases3 by blast
  note run = assms [unfolded inject_segments_def Let_def, folded f_def, folded l_def, unfolded s, simplified r q]
  show thesis
  proof (cases e)
    case None
    show thesis
    proof (cases "rem = []")
      case True
      then show thesis using run s None by (intro none [of f l i]) simp_all
    next
      case False
      show thesis
      proof (cases "canTrimRemainder st")
        case True
        then show thesis using run s r None False by (intro trim [of f l i w1 i2]) simp_all
      next
        case False
        then show thesis using run s q None \<open>rem \<noteq> []\<close> by (intro chunk [of f l i w1 f "Flags (Meta t)" i3]) simp_all
      qed
    qed
  qed (use run in simp)
qed

lemma inject_segments_wire:
  assumes env: "env_ok env" and col: "collecting k st" and b: "Reassembler st = Some b"
    and t: "Template st = Some t" and mp: "1 \<le> mp" and wl: "wl \<le> length (Contiguous b)"
    and segs: "\<forall>s\<in>set segs. s \<noteq> []" "concat segs = take wl (Contiguous b)"
    and run: "inject_segments env c st t mp segs wl (drop wl (Contiguous b)) w = (None, w')"
  obtains ps qs where "w' = w\<lparr>calls := calls w @ map (\<lambda>p. Sent p None) (ps @ qs)\<rparr>"
    "carries k (BaseSeq st) (HeldPackets st) (length (Contiguous b)) (ps @ qs)"
    "wires ps = laid (BaseSeq st) 0 segs"
    "after_window (BaseSeq st) wl (Contiguous b) (canTrimRemainder st \<longrightarrow> separate (BaseSeq st) (HeldPackets st)) qs"
proof -
  let ?C = "Contiguous b" let ?base = "BaseSeq st" and ?hs = "HeldPackets st"
  note result = that
  note cb = collecting_buffer [OF col b]
  have "t \<in> set ?hs" using col t by (auto simp: collecting_def)
  then have "holdable k t" using col by (auto simp: collecting_def)
  then have dt: "decoded t" and kt: "KeyFromMeta (Meta t) = k" by (simp_all add: holdable_def input_ok_def)
  have first: "\<exists>ps. w1 = w\<lparr>calls := calls w @ map (\<lambda>p. Sent p None) ps\<rparr> \<and> wires ps = laid ?base 0 segs
      \<and> (\<forall>p\<in>set ps. on_wire k p)"
    if "sendSegments env (Some t) ?base 0 segs fl lf i w = (None, i', w1)" for fl lf i i' w1
    using sendSegments_wire [OF env dt segs(1) that] kt by blast
  have combine: thesis
    if p1: "w1 = w\<lparr>calls := calls w @ map (\<lambda>p. Sent p None) ps1\<rparr>" "wires ps1 = laid ?base 0 segs"
      "\<forall>p\<in>set ps1. on_wire k p"
    and p2: "w' = w1\<lparr>calls := calls w1 @ map (\<lambda>p. Sent p None) ps2\<rparr>" "\<forall>p\<in>set ps2. on_wire k p"
      "{wl..<length ?C} \<subseteq> (\<Union>s\<in>set (wires ps2). fills ?base s)"
      "\<And>S. \<forall>h\<in>set ?hs. cut_of S (off_of ?base (Seq (Meta h))) (Payload h) \<Longrightarrow>
        \<forall>p\<in>set ps2. cut_of S (off_of ?base (wire_seq p)) (wire_payload p)"
    and p3: "after_window ?base wl ?C (canTrimRemainder st \<longrightarrow> separate ?base ?hs) ps2" for w1 ps1 ps2
  proof (rule result [of ps1 ps2])
    show "wires ps1 = laid ?base 0 segs" by (rule p1(2))
    have c0: "concat segs = take wl (drop 0 ?C)" using segs(2) by simp
    note l = laid_part [OF p1(2) c0 cb(3)]
    have "{..<wl} \<subseteq> (\<Union>s\<in>set (wires ps1). fills ?base s)"
      using l(1) segs(2) wl by (simp add: lessThan_atLeast0 del: set_map)
    moreover have "{..<length ?C} \<subseteq> {..<wl} \<union> {wl..<length ?C}" by auto
    ultimately have "{..<length ?C} \<subseteq> (\<Union>s\<in>set (wires (ps1 @ ps2)). fills ?base s)"
      using p2(3) unfolding map_append set_append UN_Un by blast
    moreover have "\<forall>p\<in>set (ps1 @ ps2). on_wire k p" using p1(3) p2(2) by auto
    moreover have "\<forall>p\<in>set (ps1 @ ps2). cut_of S (off_of ?base (wire_seq p)) (wire_payload p)"
      if S: "\<forall>h\<in>set ?hs. cut_of S (off_of ?base (Seq (Meta h))) (Payload h)" for S
      using l(2) [OF le0 cb(6) [OF S]] p2(4) [OF S] by auto
    ultimately show "carries k ?base ?hs (length ?C) (ps1 @ ps2)" unfolding carries_def by blast
  qed (simp_all add: p1(1) p2(1) p3)
  from run show thesis
  proof (cases rule: inject_segments_cases)
    case (none fl lf i)
    obtain ps1 where p1: "w' = w\<lparr>calls := calls w @ map (\<lambda>p. Sent p None) ps1\<rparr>" "wires ps1 = laid ?base 0 segs"
      "\<forall>p\<in>set ps1. on_wire k p" using first [OF none(2)] by blast
    have "after_window ?base wl ?C o1 []" for o1 using none(1) by (auto simp: after_window_def intro!: exI [of _ "[]"])
    then show thesis by (intro combine [OF p1, of "[]"]) (use none(1) in auto)
  next
    case (trim fl lf i w1 i')
    obtain ps1 where p1: "w1 = w\<lparr>calls := calls w @ map (\<lambda>p. Sent p None) ps1\<rparr>" "wires ps1 = laid ?base 0 segs"
      "\<forall>p\<in>set ps1. on_wire k p" using first [OF trim(2)] by blast
    show thesis by (rule trim_part [OF env col b wl trim(1,3)]) (rule combine [OF p1], use trim(1) in simp_all)
  next
    case (chunk fl lf i w1 i' fl' lf')
    obtain ps1 where p1: "w1 = w\<lparr>calls := calls w @ map (\<lambda>p. Sent p None) ps1\<rparr>" "wires ps1 = laid ?base 0 segs"
      "\<forall>p\<in>set ps1. on_wire k p" using first [OF chunk(1)] by blast
    note cp = chunkPayload_spec [OF mp, of "drop wl ?C"]
    obtain ps2 where p2: "w' = w1\<lparr>calls := calls w1 @ map (\<lambda>p. Sent p None) ps2\<rparr>"
      "wires ps2 = laid ?base (wl + 0) (chunkPayload (drop wl ?C) mp)" "\<forall>p\<in>set ps2. on_wire k p"
      using sendSegments_wire [OF env dt _ chunk(2), unfolded laid_shift] cp(2) kt by blast
    have c2: "concat (chunkPayload (drop wl ?C) mp) = take (length ?C) (drop (wl + 0) ?C)" by (simp add: cp(1))
    note l2 = laid_part [OF p2(2) c2 cb(3)]
    have "{wl..<length ?C} \<subseteq> (\<Union>s\<in>set (wires ps2). fills ?base s)"
      using l2(1) wl by (simp add: cp(1) del: set_map)
    moreover have "after_window ?base wl ?C o1 ps2" for o1
      using laid_after_window [OF p2(2) [simplified] cp(1) _ wl cb(3)] cp(2) by blast
    ultimately show thesis using p2(1,3) l2(2) cb(6) wl by (intro combine [OF p1]) auto
  qed
qed

end
