(* ===== verification/WorkerExamples.thy ===== *)
theory WorkerExamples
  imports WorkerRunInv WorkerInject
begin

text \<open>
  An adapter that never fails, with the checksum routine of the NFQUEUE adapter, and packets
  and workers to apply the properties to.
\<close>

definition ok_env :: adapter_env where
  "ok_env = \<lparr>env_send = (\<lambda>_ _. None), env_drop = (\<lambda>_ _. None), env_calc = CalcChecksums\<rparr>"

lemma ok_env_ok [simp]: "env_ok ok_env"
  using nfq.checksummer_axioms by (simp add: env_ok_def ok_env_def)

definition sample_input :: "u32 \<Rightarrow> byte \<Rightarrow> bytes \<Rightarrow> packet" where
  "sample_input sq fl pl = (let p = sample_packet sq fl pl in p\<lparr>Meta := decoded_meta (Data p)\<rparr>)"

text \<open>A ClientHello record of nine bytes in two parts, and two bytes that follow after a gap.\<close>

definition hello1 :: packet where "hello1 = sample_input 100 0x18 [22, 3, 1, 0, 4, 1]"
definition hello2 :: packet where "hello2 = sample_input 106 0x18 [0, 0, 7]"
definition later :: packet where "later = sample_input 120 0x18 [8, 9]"

definition test_config :: config where
  "test_config = DefaultConfig 4"

definition test_worker :: "packet list \<Rightarrow> worker" where
  "test_worker ps = (newWorker 0 test_config)\<lparr>inq := ps\<rparr>"

definition take_in :: choice where
  "take_in = TakeIn (Some test_config) (Some test_config) (Some test_config) 0"

lemma sample_inputs_ok: "input_ok hello1" "input_ok hello2" "input_ok later"
proof -
  have ok: "input_ok (sample_input sq fl pl)" if "valid_tcp4 (Data (sample_packet sq fl pl))" "length pl < 1000" for sq fl pl
    using that by (simp add: input_ok_def sample_input_def decoded_def captured_def Let_def sample_packet_def)
  have "valid_tcp4 (Data (sample_packet 100 0x18 [22, 3, 1, 0, 4, 1]))"
    "valid_tcp4 (Data (sample_packet 106 0x18 [0, 0, 7]))" "valid_tcp4 (Data (sample_packet 120 0x18 [8, 9]))"
    by code_simp+
  then show "input_ok hello1" "input_ok hello2" "input_ok later"
    by (auto simp: hello1_def hello2_def later_def intro: ok)
qed

lemma test_worker_inv: "(\<forall>p\<in>set ps. input_ok p) \<Longrightarrow> run_inv (test_worker ps)"
  using newWorker_inv [of 0 test_config] worker_inv_cong [of "test_worker ps" "newWorker 0 test_config"]
  by (simp add: run_inv_def test_worker_def)

text \<open>A flow that has collected the whole ClientHello.\<close>

definition test_key :: key where
  "test_key = KeyFromMeta (Meta hello1)"

definition test_flow :: flow_state where
  "test_flow = (new_flow_state 0)\<lparr>State := StateCollecting, BaseSeq := 100, FirstPayloadLen := 6,
     Template := Some hello2, HeldPackets := [hello1, hello2],
     Reassembler := push_held (New 100 65536) [hello1, hello2]\<rparr>"

lemma test_flow_collecting: "collecting test_key test_flow"
proof -
  have "Payload hello1 \<noteq> []" "Payload hello2 \<noteq> []" "KeyFromMeta (Meta hello2) = test_key"
    "Seq (Meta hello1) = 100" "length (Payload hello1) = 6" "push_held (New 100 65536) [hello1, hello2] \<noteq> None"
    by code_simp+
  then show ?thesis
    using sample_inputs_ok
    by (auto simp: collecting_def test_flow_def holdable_def test_key_def simp del: push_held.simps)
qed

end
