(* ===== verification/WorkerProps.thy ===== *)
theory WorkerProps
  imports WorkerExamples
begin

text \<open>
  The properties of the worker: exact counters, conservation of captured packets, what is
  injected, what fail-open sends, the limits, the clean-up of flows and the errors.
\<close>

section \<open>Counters and conservation\<close>

text \<open>C6. The byte counters are exact and never negative: along any run of the worker's loop
  (any mix of packets, touches, collections, configuration changes and adapter failures), and
  also in the state left by an error, \<^verbatim>\<open>heldBytes\<close> is the total size of the packets held in
  the flow table and \<^verbatim>\<open>reassemblyBytes\<close> the total of the buffers' \<^verbatim>\<open>TotalBytes\<close>; so
  the code's clamps at zero never change a value.\<close>

theorem worker_counters_exact:
  assumes "env_ok env" "run_inv w"
    and "run env chs w = Running w' \<or> run env chs w = Returned e w'"
  shows "heldBytes w' = total_of (\<lambda>st. data_size (HeldPackets st)) (flows w')
    \<and> reassemblyBytes w' = total_of (\<lambda>st. buffer_size (Reassembler st)) (flows w')
    \<and> 0 \<le> heldBytes w' \<and> 0 \<le> reassemblyBytes w'"
proof -
  have a: "acct w'"
    using assms run_Running [OF assms(1), of w chs w'] run_Returned [OF assms(1), of w chs e w']
    by (auto simp: run_inv_def worker_inv_def)
  then have "0 \<le> total_of held_size (flows w')" "0 \<le> total_of buf_size (flows w')"
    by (intro ft.measure_nonneg; simp add: acct_def)+
  moreover have "(\<lambda>st. data_size (HeldPackets st)) = held_size" "(\<lambda>st. buffer_size (Reassembler st)) = buf_size"
    by (simp_all add: held_size_def buf_size_def fun_eq_iff)
  ultimately show ?thesis using a by (simp add: acct_def)
qed

text \<open>Two packets of one flow with a gap between them are held; then the missing one arrives,
  the window is injected and nothing is held any more.\<close>

definition after_run :: "packet list \<Rightarrow> worker" where
  "after_run ps = (case run ok_env (map (\<lambda>_. take_in) ps) (test_worker ps) of
     Running w \<Rightarrow> w | Returned e w \<Rightarrow> w | NotReady \<Rightarrow> test_worker ps)"

lemma after_runs:
  "run ok_env [take_in, take_in] (test_worker [hello1, later]) = Running (after_run [hello1, later])"
  "run ok_env [take_in, take_in, take_in] (test_worker [hello1, later, hello2])
     = Running (after_run [hello1, later, hello2])"
proof -
  have "case run ok_env [take_in, take_in] (test_worker [hello1, later]) of Running w \<Rightarrow> True | _ \<Rightarrow> False"
    "case run ok_env [take_in, take_in, take_in] (test_worker [hello1, later, hello2]) of Running w \<Rightarrow> True | _ \<Rightarrow> False"
    by code_simp+
  then show "run ok_env [take_in, take_in] (test_worker [hello1, later]) = Running (after_run [hello1, later])"
    "run ok_env [take_in, take_in, take_in] (test_worker [hello1, later, hello2]) = Running (after_run [hello1, later, hello2])"
    by (auto simp: after_run_def simp del: run.simps split: progress.splits)
qed

lemma worker_counters_exact_witness:
  "heldBytes (after_run [hello1, later]) = total_of (\<lambda>st. data_size (HeldPackets st)) (flows (after_run [hello1, later]))
     \<and> heldBytes (after_run [hello1, later]) = 88 \<and> reassemblyBytes (after_run [hello1, later]) = 8"
proof -
  have "heldBytes (after_run [hello1, later]) = 88 \<and> reassemblyBytes (after_run [hello1, later]) = 8" by code_simp
  moreover have "run_inv (test_worker [hello1, later])" using sample_inputs_ok by (intro test_worker_inv) simp
  ultimately show ?thesis using worker_counters_exact [OF ok_env_ok _ disjI1 [OF after_runs(1)]] by simp
qed

text \<open>C2. No captured packet is lost or duplicated: along any run that has not ended with an
  error, the number of times a packet has been accepted or dropped, plus the times it is held
  in a flow or waits in the queue, never changes.\<close>

theorem worker_conserves_packets:
  assumes "env_ok env" "run_inv w" "run env chs w = Running w'" "Source x \<noteq> SourceInjected"
  shows "int (count_list (released (calls w')) x) + total_of (\<lambda>st. int (count_list (HeldPackets st) x)) (flows w')
      + int (count_list (inq w') x)
    = int (count_list (released (calls w)) x) + total_of (\<lambda>st. int (count_list (HeldPackets st) x)) (flows w)
      + int (count_list (inq w) x)"
proof -
  have h: "(\<lambda>st. int (count_list (HeldPackets st) x)) = held_count x" by (simp add: held_count_def fun_eq_iff)
  show ?thesis
    unfolding h using run_Running [OF assms(1-3)] assms(4) by (simp add: whereabouts_def fate_def captured_def)
qed

lemma worker_conserves_packets_witness:
  "int (count_list (released (calls (after_run [hello1, later, hello2]))) later)
    + total_of (\<lambda>st. int (count_list (HeldPackets st) later)) (flows (after_run [hello1, later, hello2])) = 1"
proof -
  let ?w = "test_worker [hello1, later, hello2]"
  have "run_inv ?w" using sample_inputs_ok by (intro test_worker_inv) simp
  moreover have "Source later \<noteq> SourceInjected" using sample_inputs_ok by (simp add: input_ok_def captured_def)
  moreover have "count_list (inq ?w) later = 1" "inq (after_run [hello1, later, hello2]) = []"
    "released (calls ?w) = []" "total_of (\<lambda>st. int (count_list (HeldPackets st) later)) (flows ?w) = 0"
    by (code_simp, code_simp, code_simp, simp add: test_worker_def newWorker_def Let_def)
  ultimately show ?thesis using worker_conserves_packets [OF ok_env_ok _ after_runs(2), of later] by simp
qed

text \<open>Data that waits beyond a gap is lost when a window is injected: after the two parts of
  a ClientHello and a segment beyond a gap, all three captured packets are dropped, and the
  bytes of the third, at offset 20, are in none of the injected segments (the peer has to
  retransmit them).\<close>

theorem injection_drops_pending_data:
  "case run ok_env [take_in, take_in, take_in] (test_worker [hello1, later, hello2]) of
     Running w \<Rightarrow> map (\<lambda>e. case e of Sent p r \<Rightarrow> (True, wire_seq p, wire_payload p)
         | Dropped p r \<Rightarrow> (False, Seq (Meta p), Payload p)) (calls w)
       = [(True, 100, [22, 3, 1]), (True, 103, [0, 4, 1]), (True, 106, [0, 0, 7]),
          (False, 100, [22, 3, 1, 0, 4, 1]), (False, 120, [8, 9]), (False, 106, [0, 0, 7])]
   | _ \<Rightarrow> False"
  by code_simp

section \<open>What an injection sends\<close>

lemma dropHeld_calls:
  "dropHeld env ps w = (None, w') \<Longrightarrow> w' = w\<lparr>calls := calls w @ map (\<lambda>p. Dropped p None) ps\<rparr>"
proof (induction ps arbitrary: w)
  case (Cons p ps)
  then obtain w1 where "drop_pkt env p w = (None, w1)" "dropHeld env ps w1 = (None, w')"
    by (auto split: prod.splits option.splits)
  then show ?case using Cons.IH [of w1] by (auto simp: drop_pkt_def Let_def)
qed simp

lemma injectWindow_injected:
  assumes "injectWindow env (Some c) k st wl w = (None, w')" "State st \<noteq> StateInjected"
    "Get (flows w') k = Some st'" "State st' = StateInjected"
  obtains b t mp segs w1 where "Reassembler st = Some b" "Template st = Some t" "1 \<le> wl" "wl \<le> length (Contiguous b)"
    "mp = clampSegmentPayload (int (length (Payload t))) (int (IPHeaderLen (Meta t) + TCPHeaderLen (Meta t))) (MaxSegmentPayload c)"
    "1 \<le> mp" "segs = splitFirst (take wl (Contiguous b)) (SplitChunk c) mp" "2 \<le> length segs"
    "inject_segments env c st t mp segs wl (drop wl (Contiguous b)) w = (None, w1)"
    "calls w' = calls w1 @ map (\<lambda>p. Dropped p None) (HeldPackets st)"
proof -
  have nf: "failOpen env k st u \<noteq> (None, w')" for u
    using failOpen_state [of env k st u w'] assms(3,4) by auto
  have ns: "(None, save k st u) \<noteq> (None, w')" for u
    using assms by (auto simp: ft.get_store)
  have wl: "\<not> wl < 1"
    by (rule notI) (use assms(1) nf in \<open>simp add: injectWindow_def\<close>)
  obtain b where b: "Reassembler st = Some b"
    by (cases "Reassembler st") (use assms(1) wl in \<open>simp_all add: injectWindow_def\<close>)
  have le: "\<not> length (Contiguous b) < wl"
    by (rule notI) (use assms(1) wl b ns in \<open>simp add: injectWindow_def Let_def\<close>)
  obtain t where t: "Template st = Some t"
    by (cases "Template st") (use assms(1) wl b le nf in \<open>simp_all add: injectWindow_def Let_def\<close>)
  define mp where "mp = clampSegmentPayload (int (length (Payload t)))
      (int (IPHeaderLen (Meta t) + TCPHeaderLen (Meta t))) (MaxSegmentPayload c)"
  define segs where "segs = splitFirst (take wl (Contiguous b)) (SplitChunk c) mp"
  define rem where "rem = drop wl (Contiguous b)"
  have unf: "injectWindow env (Some c) k st wl w = (if mp < 1 then failOpen env k st w
      else if length segs < 2 then failOpen env k st w
      else case inject_segments env c st t mp segs wl rem w of
       (Some e, w') \<Rightarrow> failOpen env k st w'
     | (None, w') \<Rightarrow> (case dropHeld env (HeldPackets st) w' of
         (Some e, w'') \<Rightarrow> (Some e, save k st w'')
       | (None, w'') \<Rightarrow>
           let (st', w3) = clearCollectingState (st\<lparr>State := StateInjected\<rparr>) w''
           in (None, save k (st'\<lparr>Processed := True\<rparr>) w3)))"
    using wl le unfolding injectWindow_def Let_def option.case b t mp_def segs_def rem_def by simp
  note inj = assms(1) [unfolded unf]
  have mp1: "1 \<le> mp" using inj nf by (cases "mp < 1") simp_all
  have s2: "2 \<le> length segs" using inj mp1 nf by (cases "length segs < 2") simp_all
  obtain e1 w1 where w1': "inject_segments env c st t mp segs wl rem w = (e1, w1)" by force
  then have w1: "inject_segments env c st t mp segs wl rem w = (None, w1)"
    using inj mp1 s2 nf by (cases e1) simp_all
  obtain e2 w2 where w2': "dropHeld env (HeldPackets st) w1 = (e2, w2)" by force
  then have w2: "dropHeld env (HeldPackets st) w1 = (None, w2)"
    using inj mp1 s2 w1 by (cases e2) simp_all
  have "calls w' = calls w2"
    using inj mp1 s2 w1 w2 by (auto simp: clearCollectingState_def)
  then show ?thesis
    using that [OF b t _ _ mp_def mp1 segs_def s2 w1 [unfolded rem_def]] dropHeld_calls [OF w2] wl le by simp
qed

text \<open>C3. An injection reproduces the flow's data.  When a collecting flow becomes injected, the
  adapter has been given, in this order, the segments of the window, what follows the window,
  and the drops of all held packets.  Every injected packet is decoded by a receiver as a
  segment of the same flow; together they cover the contiguous prefix, and each carries the
  bytes of the stream at its own sequence number, for any stream the held packets are cuts of.
  The window leaves as at least two segments laid end to end, the first of \<^verbatim>\<open>SplitChunk\<close>
  bytes (at least one, at most the largest payload allowed).  After it nothing of the window is
  sent again and nothing beyond the prefix; and what follows is exactly the rest of the prefix,
  laid end to end, so that every byte is sent exactly once, whenever a flag is up (the
  remainder is then cut anew) or no byte of the stream is in two held packets (otherwise the
  part of a repeated packet that lies beyond the window is sent again).\<close>

theorem injection_reproduces_stream:
  assumes "env_ok env" "collecting k st" "injectWindow env (Some c) k st wl w = (None, w')"
    and "Get (flows w') k = Some st'" "State st' = StateInjected"
  shows "\<exists>b t ps qs segs. Reassembler st = Some b \<and> Template st = Some t
    \<and> calls w' = calls w @ map (\<lambda>p. Sent p None) (ps @ qs) @ map (\<lambda>p. Dropped p None) (HeldPackets st)
    \<and> carries k (BaseSeq st) (HeldPackets st) (length (Contiguous b)) (ps @ qs)
    \<and> wires ps = laid (BaseSeq st) 0 segs \<and> 2 \<le> length segs
    \<and> concat segs = take wl (Contiguous b)
    \<and> int (length (hd segs)) = min (max (SplitChunk c) 1) (clampSegmentPayload (int (length (Payload t)))
         (int (IPHeaderLen (Meta t) + TCPHeaderLen (Meta t))) (MaxSegmentPayload c))
    \<and> after_window (BaseSeq st) wl (Contiguous b)
         (HadOutOfOrder b \<or> HadOverlap b \<or> separate (BaseSeq st) (HeldPackets st)) qs"
proof -
  have ni: "State st \<noteq> StateInjected" using assms(2) by (simp add: collecting_def)
  obtain b t mp segs w1 where f: "Reassembler st = Some b" "Template st = Some t" "wl \<le> length (Contiguous b)"
    and mp: "mp = clampSegmentPayload (int (length (Payload t))) (int (IPHeaderLen (Meta t) + TCPHeaderLen (Meta t))) (MaxSegmentPayload c)"
    "1 \<le> mp" and segs: "segs = splitFirst (take wl (Contiguous b)) (SplitChunk c) mp" "2 \<le> length segs"
    and i: "inject_segments env c st t mp segs wl (drop wl (Contiguous b)) w = (None, w1)"
    and d: "calls w' = calls w1 @ map (\<lambda>p. Dropped p None) (HeldPackets st)"
    using assms(3) ni assms(4,5) by (rule injectWindow_injected)
  have ne: "splitFirst (take wl (Contiguous b)) (SplitChunk c) mp \<noteq> []" using segs by auto
  note sf = splitFirst_head [OF ne, folded segs(1)]
  have nz: "\<forall>s\<in>set segs. s \<noteq> []" using sf(3) by blast
  have once: "(canTrimRemainder st \<longrightarrow> separate (BaseSeq st) (HeldPackets st))
      = (HadOutOfOrder b \<or> HadOverlap b \<or> separate (BaseSeq st) (HeldPackets st))"
    by (auto simp: canTrimRemainder_def f(1))
  obtain ps qs where "w1 = w\<lparr>calls := calls w @ map (\<lambda>p. Sent p None) (ps @ qs)\<rparr>"
    "carries k (BaseSeq st) (HeldPackets st) (length (Contiguous b)) (ps @ qs)"
    "wires ps = laid (BaseSeq st) 0 segs"
    "after_window (BaseSeq st) wl (Contiguous b)
         (HadOutOfOrder b \<or> HadOverlap b \<or> separate (BaseSeq st) (HeldPackets st)) qs"
    using inject_segments_wire [OF assms(1,2) f(1,2) mp(2) f(3) nz sf(1) i, unfolded once] by blast
  then show ?thesis using f sf segs d
    by (intro exI [of _ b] exI [of _ t] exI [of _ ps] exI [of _ qs] exI [of _ segs]) (simp add: mp(1))
qed

text \<open>Here the window is the first nine bytes and the rest of the second packet follows it.\<close>

lemma injection_reproduces_stream_witness:
  "\<exists>ps qs. calls (snd (injectWindow ok_env (Some test_config) test_key test_flow 8 (test_worker [])))
      = map (\<lambda>p. Sent p None) (ps @ qs) @ [Dropped hello1 None, Dropped hello2 None]
    \<and> (\<forall>p\<in>set (ps @ qs). on_wire test_key p) \<and> wires qs = [(108, [7])]"
proof -
  let ?r = "injectWindow ok_env (Some test_config) test_key test_flow 8 (test_worker [])"
  have r: "fst ?r = None" "case Get (flows (snd ?r)) test_key of None \<Rightarrow> False | Some st \<Rightarrow> State st = StateInjected"
    by code_simp+
  then obtain w' st' where w: "?r = (None, w')" "Get (flows w') test_key = Some st'" "State st' = StateInjected"
    by (cases ?r) (auto split: option.splits)
  obtain b where b: "Reassembler test_flow = Some b" "Contiguous b = [22, 3, 1, 0, 4, 1, 0, 0, 7]"
  proof -
    have "map_option Contiguous (Reassembler test_flow) = Some [22, 3, 1, 0, 4, 1, 0, 0, 7]" by code_simp
    then show thesis using that by auto
  qed
  have f: "BaseSeq test_flow = 100" "HeldPackets test_flow = [hello1, hello2]" "calls (test_worker []) = []"
    by (simp_all add: test_flow_def test_worker_def newWorker_def Let_def del: push_held.simps)
  have fr: "frag hello1 = (100, [22, 3, 1, 0, 4, 1])" "frag hello2 = (106, [0, 0, 7])" unfolding frag_def by code_simp+
  have "separate 100 [hello1, hello2]" by (auto simp: separate_def fr fills_def off_of_def)
  then obtain ps qs where q: "calls w' = map (\<lambda>p. Sent p None) (ps @ qs) @ [Dropped hello1 None, Dropped hello2 None]"
    "\<forall>p\<in>set (ps @ qs). on_wire test_key p" "after_window 100 8 [22, 3, 1, 0, 4, 1, 0, 0, 7] True qs"
    using injection_reproduces_stream [OF ok_env_ok test_flow_collecting w] b f by (auto simp: carries_def)
  then obtain rs where rs: "wires qs = laid 100 8 rs" "concat rs = [7]" "\<forall>q\<in>set qs. wire_payload q \<noteq> []"
    by (auto simp: after_window_def)
  have "map wire_payload qs = rs" using arg_cong [OF rs(1), of "map snd"] by (simp add: comp_def)
  then have "[] \<notin> set rs" using rs(3) by (metis image_iff list.set_map)
  moreover obtain x xs where x: "rs = x # xs" using rs(2) by (cases rs) auto
  ultimately have "x = [7] \<and> concat xs = []" "[] \<notin> set xs" using rs(2) by (cases x; simp)+
  then have "rs = [[7]]" using x by (cases xs) auto
  then show ?thesis using q(1,2) rs(1) w(1) by (intro exI [of _ ps] exI [of _ qs]) simp
qed

end
