(* ===== verification/WorkerPolicy.thy ===== *)
theory WorkerPolicy
  imports WorkerExamples
begin

text \<open>
  The worker's policies: what fail-open sends, how decided flows are treated, which limits
  hold, when flows are removed, and which errors a handler can return.
\<close>

section \<open>Fail-open\<close>

lemma send_all_calls:
  "send_all env ps w = (None, w') \<Longrightarrow> w' = w\<lparr>calls := calls w @ map (\<lambda>p. Sent p None) ps\<rparr>"
proof (induction ps arbitrary: w)
  case (Cons p ps)
  then obtain w1 where "send env p w = (None, w1)" "send_all env ps w1 = (None, w')"
    by (auto split: prod.splits option.splits)
  then show ?case using Cons.IH [of w1] by (auto simp: send_def Let_def)
qed simp

text \<open>Fail-open releases everything, unmodified and in the order of arrival: when it returns
  nil the adapter has accepted exactly the flow's held packets, in order; the flow is in
  StatePassThrough, holds nothing, and its bytes have left both counters.\<close>

theorem fail_open_releases_in_order:
  assumes "counts k st w" "failOpen env k st w = (None, w')"
  shows "calls w' = calls w @ map (\<lambda>p. Sent p None) (HeldPackets st)
    \<and> Get (flows w') k = Some (st\<lparr>State := StatePassThrough, HeldPackets := [], Template := None, Reassembler := None\<rparr>)
    \<and> (\<forall>j. j \<noteq> k \<longrightarrow> Get (flows w') j = Get (flows w) j)
    \<and> heldBytes w' = heldBytes w - data_size (HeldPackets st)
    \<and> reassemblyBytes w' = reassemblyBytes w - buffer_size (Reassembler st)"
proof -
  obtain w1 where s: "send_all env (HeldPackets st) w = (None, w1)"
    using assms(2) by (auto simp: failOpen_def split: prod.splits option.splits)
  note w1 = send_all_calls [OF s]
  have "0 \<le> rest held_size k w" "0 \<le> rest buf_size k w"
    using rest_nonneg [of w k] assms(1) by (simp_all add: counts_def)
  then show ?thesis
    using assms s
    by (auto simp: failOpen_def clearCollectingState_def w1 ft.get_store counts_def clamp0_def
        held_size_def buf_size_def split: option.splits)
qed

lemma fail_open_releases_in_order_witness:
  "calls (snd (failOpen ok_env test_key (new_flow_state 0\<lparr>HeldPackets := [hello1, hello2]\<rparr>)
      ((test_worker [])\<lparr>heldBytes := 89\<rparr>))) = [Sent hello1 None, Sent hello2 None]"
proof -
  let ?st = "new_flow_state 0\<lparr>HeldPackets := [hello1, hello2]\<rparr>" let ?w = "(test_worker [])\<lparr>heldBytes := 89\<rparr>"
  have c: "counts test_key ?st ?w" by code_simp
  obtain w' where f: "failOpen ok_env test_key ?st ?w = (None, w')"
    by (cases "failOpen ok_env test_key ?st ?w") (auto simp: failOpen_def send_def ok_env_def Let_def clearCollectingState_def)
  from fail_open_releases_in_order [OF c f] show ?thesis
    using f by (simp add: test_worker_def newWorker_def Let_def new_flow_state_def)
qed

section \<open>Decided flows\<close>

text \<open>A decided flow is never touched again: a packet of a flow in StateInjected or
  StatePassThrough is handed to the adapter unmodified, exactly once, and the handler returns
  the adapter's answer; the flow's entry keeps all but its time of last activity, and only a
  payload-less FIN or RST that was sent removes it.  No other flow changes.\<close>

theorem decided_flow_passes:
  assumes "Get (flows w) (KeyFromMeta (Meta pkt)) = Some st" "State st = StateInjected \<or> State st = StatePassThrough"
  shows "let (r, w') = handlePacket env (Some c) c1 c2 now pkt w in
    r = env_send env (calls w) pkt \<and> calls w' = calls w @ [Sent pkt r]
    \<and> Get (flows w') = (Get (flows w))(KeyFromMeta (Meta pkt) :=
        if r = None \<and> Payload pkt = [] \<and> (HasFlag pkt TCPFlagRST \<or> HasFlag pkt TCPFlagFIN) then None
        else Some (st\<lparr>LastActive := now\<rparr>))"
  using assms
  by (auto simp: handlePacket_def handle_existing_def Let_def send_def ft.get_store ft.get_remove split: option.split)

lemma decided_flow_passes_witness:
  "calls (snd (handlePacket ok_env (Some test_config) None None 7 hello1
      (save test_key (new_flow_state 0\<lparr>State := StateInjected\<rparr>) (test_worker [])))) = [Sent hello1 None]"
proof -
  let ?w = "save test_key (new_flow_state 0\<lparr>State := StateInjected\<rparr>) (test_worker [])"
  have g: "Get (flows ?w) (KeyFromMeta (Meta hello1)) = Some (new_flow_state 0\<lparr>State := StateInjected\<rparr>)"
    by (simp add: ft.get_store test_key_def)
  have "calls ?w = []" by (simp add: test_worker_def newWorker_def Let_def)
  then show ?thesis
    using decided_flow_passes [OF g, of ok_env test_config None None 7] by (simp add: Let_def case_prod_beta ok_env_def)
qed

section \<open>Limits\<close>

text \<open>The per-worker limits of a configuration, and the per-flow limit on held packets.\<close>

definition within :: "config \<Rightarrow> worker \<Rightarrow> bool" where
  "within c w \<longleftrightarrow> (MaxFlowsPerWorker c > 0 \<longrightarrow> int (Len (flows w)) \<le> MaxFlowsPerWorker c)
     \<and> (MaxHeldBytesPerWorker c > 0 \<longrightarrow> heldBytes w \<le> MaxHeldBytesPerWorker c)
     \<and> (MaxReassemblyBytesPerWorker c > 0 \<longrightarrow> reassemblyBytes w \<le> MaxReassemblyBytesPerWorker c)
     \<and> (\<forall>k st. Get (flows w) k = Some st \<longrightarrow> HeldPackets st = [] \<or> int (length (HeldPackets st)) < MaxHeldPackets c)"

lemma acct_put:
  assumes "acct w'" "Get (flows w') = (Get (flows w))(k \<mapsto> st)" "table_ok (flows w)"
  shows "heldBytes w' = rest held_size k w + held_size st" "reassemblyBytes w' = rest buf_size k w + buf_size st"
proof -
  have "total_of f (flows w') = total_of f (Store (flows w) k st)" for f
    using assms by (intro total_cong) (simp_all add: acct_def ft.good_store ft.get_store)
  then show "heldBytes w' = rest held_size k w + held_size st" "reassemblyBytes w' = rest buf_size k w + buf_size st"
    using assms by (simp_all add: acct_def total_store)
qed

lemma acct_del:
  assumes "acct w'" "Get (flows w') = (Get (flows w))(k := None)" "table_ok (flows w)"
  shows "heldBytes w' = rest held_size k w" "reassemblyBytes w' = rest buf_size k w"
proof -
  have "total_of f (flows w') = rest f k w" for f
    unfolding rest_def using assms by (intro total_cong) (simp_all add: acct_def ft.good_remove ft.get_remove)
  then show "heldBytes w' = rest held_size k w" "reassemblyBytes w' = rest buf_size k w"
    using assms by (simp_all add: acct_def)
qed

text \<open>The state in hand respects the limits when it is written back.\<close>

definition bounded :: "config \<Rightarrow> key \<Rightarrow> worker \<Rightarrow> flow_state \<Rightarrow> bool" where
  "bounded c k w st \<longleftrightarrow> (HeldPackets st = [] \<or> int (length (HeldPackets st)) < MaxHeldPackets c)
     \<and> (MaxHeldBytesPerWorker c > 0 \<longrightarrow> rest held_size k w + held_size st \<le> MaxHeldBytesPerWorker c)
     \<and> (MaxReassemblyBytesPerWorker c > 0 \<longrightarrow> rest buf_size k w + buf_size st \<le> MaxReassemblyBytesPerWorker c)"

text \<open>Where the handler leaves the flow of the packet.\<close>

definition lands :: "config \<Rightarrow> key \<Rightarrow> worker \<Rightarrow> worker \<Rightarrow> bool" where
  "lands c k w w' \<longleftrightarrow> (\<exists>v. Get (flows w') = (Get (flows w))(k := v)
     \<and> (\<forall>st. v = Some st \<longrightarrow> bounded c k w st
         \<and> (Get (flows w) k = None \<longrightarrow> MaxFlowsPerWorker c > 0 \<longrightarrow> int (Len (flows w)) < MaxFlowsPerWorker c)))"

lemma within_lands:
  assumes w: "within c w" "acct w" "acct w'" and l: "lands c k w w'"
  shows "within c w'"
proof -
  obtain v where v: "Get (flows w') = (Get (flows w))(k := v)"
    "\<And>st. v = Some st \<Longrightarrow> bounded c k w st"
    "\<And>st. v = Some st \<Longrightarrow> Get (flows w) k = None \<Longrightarrow> MaxFlowsPerWorker c > 0 \<Longrightarrow> int (Len (flows w)) < MaxFlowsPerWorker c"
    using l unfolding lands_def by blast
  have ok: "table_ok (flows w)" "table_ok (flows w')" using w by (simp_all add: acct_def)
  have r: "rest held_size k w \<le> heldBytes w" "rest buf_size k w \<le> reassemblyBytes w"
    using w(2) by (auto simp: rest_eq [OF ok(1)] acct_def split: option.split)
  show ?thesis
  proof (cases v)
    case None
    have "Len (flows w') = Len (Delete (flows w) k)"
      using v(1) None ok by (intro Len_cong) (simp_all add: ft.good_remove ft.get_remove)
    then have "Len (flows w') \<le> Len (flows w)" by (simp add: ft.count_remove ok)
    then show ?thesis
      using w(1) r acct_del [OF w(3) _ ok(1), of k] v(1) None by (auto simp: within_def split: if_splits)
  next
    case (Some st)
    have "Len (flows w') = Len (Store (flows w) k st)"
      using v(1) Some ok by (intro Len_cong) (simp_all add: ft.good_store ft.get_store)
    then have "MaxFlowsPerWorker c > 0 \<Longrightarrow> int (Len (flows w')) \<le> MaxFlowsPerWorker c"
      using w(1) v(3) [OF Some] by (auto simp: ft.count_store ok within_def)
    then show ?thesis
      using w(1) v(2) [OF Some] acct_put [OF w(3) _ ok(1), of k st] v(1) Some
      by (auto simp: within_def bounded_def split: if_splits)
  qed
qed

lemma within_same:
  "flows w' = flows w \<Longrightarrow> heldBytes w' = heldBytes w \<Longrightarrow> reassemblyBytes w' = reassemblyBytes w
    \<Longrightarrow> within c w' = within c w"
  by (simp add: within_def)

lemma bounded_closed:
  assumes "within c w" "acct w" "HeldPackets st = []" "Reassembler st = None"
  shows "bounded c k w st"
proof -
  have "rest held_size k w \<le> heldBytes w" "rest buf_size k w \<le> reassemblyBytes w"
    using assms(2) by (auto simp: rest_eq acct_def split: option.split)
  then show ?thesis using assms by (auto simp: bounded_def within_def held_size_def buf_size_def)
qed

lemma bounded_same:
  assumes "within c w" "acct w" "Get (flows w) k = Some u" "HeldPackets st = HeldPackets u" "Reassembler st = Reassembler u"
  shows "bounded c k w st"
  using assms by (auto simp: bounded_def within_def rest_eq acct_def held_size_def buf_size_def)

lemma hold_bounded:
  assumes "counts k st w" "hold_and_push env nc c now k pkt st w = Inr (st', w')"
  shows "bounded c k w st'"
proof -
  have k: "counts k st' w'" using hold_and_push_kept [OF assms(1), of pkt env nc c now] assms(2) by simp
  have h: "flows w' = flows w" "int (length (HeldPackets st')) < MaxHeldPackets c"
    "0 < MaxReassemblyBytesPerWorker c \<longrightarrow> reassemblyBytes w' \<le> MaxReassemblyBytesPerWorker c"
    "0 < MaxHeldBytesPerWorker c \<longrightarrow> heldBytes w' \<le> MaxHeldBytesPerWorker c"
    using hold_and_push_flow [where env = env and nc = nc and c = c and now = now and k = k
        and pkt = pkt and st = st and w = w] assms(2) by auto
  have "rest f k w' = rest f k w" for f by (simp add: rest_def h)
  then show ?thesis using k h by (simp add: bounded_def counts_def)
qed

lemma landsI:
  "Get (flows w') = (Get (flows w))(k := v) \<Longrightarrow> (\<And>st. v = Some st \<Longrightarrow> bounded c k w st) \<Longrightarrow>
    (Get (flows w) k = None \<Longrightarrow> MaxFlowsPerWorker c > 0 \<Longrightarrow> int (Len (flows w)) < MaxFlowsPerWorker c) \<Longrightarrow> lands c k w w'"
  unfolding lands_def by (rule exI [of _ v]) simp

lemma closes_lands:
  assumes "within c w" "acct w" "Get (flows u) = (Get (flows w))(k := x)" "closes k u (None, w')"
    and "Get (flows w) k = None \<Longrightarrow> MaxFlowsPerWorker c > 0 \<Longrightarrow> int (Len (flows w)) < MaxFlowsPerWorker c"
  shows "lands c k w w'"
proof -
  obtain st' where "Get (flows w') = (Get (flows w))(k \<mapsto> st')" "closed st'"
    using assms(3,4) by (auto simp: closes_def)
  moreover from this have "bounded c k w st'" by (intro bounded_closed [OF assms(1,2)]) (simp_all add: closed_def)
  ultimately show ?thesis using assms(5) by (intro landsI [where v = "Some st'"]) simp_all
qed

lemma ends_land:
  assumes env: "env_ok env" and w: "within c w" "acct w" and u: "Get (flows u) = (Get (flows w))(k := x)"
    and b: "bounded c k w st"
    and len: "Get (flows w) k = None \<Longrightarrow> MaxFlowsPerWorker c > 0 \<Longrightarrow> int (Len (flows w)) < MaxFlowsPerWorker c"
  shows "failOpen env k st u = (None, w') \<Longrightarrow> lands c k w w'"
    and "fail_and_forget env k st u = (None, w') \<Longrightarrow> lands c k w w'"
    and "try_split env cf c1 c2 k st u = (None, w') \<Longrightarrow> lands c k w w'"
proof -
  show "lands c k w w'" if "failOpen env k st u = (None, w')"
    using closes_lands [OF w u _ len] failOpen_closes [of k u env st] that by simp
  show "lands c k w w'" if f: "fail_and_forget env k st u = (None, w')"
  proof -
    obtain w1 where "failOpen env k st u = (None, w1)" "w' = forget k w1"
      using f by (auto simp: fail_and_forget_def split: prod.splits option.splits)
    then have "Get (flows w') = (Get (flows w))(k := None)"
      using failOpen_moves [of k st u env] u by (auto simp: moves_def ft.get_remove)
    then show ?thesis using len by (intro landsI) auto
  qed
  show "lands c k w w'" if t: "try_split env cf c1 c2 k st u = (None, w')"
  proof -
    obtain st' where "Get (flows w') = (Get (flows w))(k \<mapsto> st')" "st' = st \<or> closed st'"
      using try_split_moves [OF env, of k st u cf c1 c2] u t by (auto simp: moves_def)
    moreover from this have "bounded c k w st'" using b bounded_closed [OF w, of st'] by (auto simp: closed_def)
    ultimately show ?thesis using len by (intro landsI [where v = "Some st'"]) simp_all
  qed
qed

lemma handle_existing_lands:
  assumes env: "env_ok env" and w: "within c w" "acct w" "Get (flows w) k = Some st" and i: "idle_ok st"
    and r: "handle_existing env c c1 c2 now k pkt st w = (None, w')"
  shows "lands c k w w'"
proof -
  define s where "s = st\<lparr>LastActive := now\<rparr>"
  have upd: "Get (flows w) = (Get (flows w))(k := Get (flows w) k)" by simp
  have len: "Get (flows w) k = None \<Longrightarrow> MaxFlowsPerWorker c > 0 \<Longrightarrow> int (Len (flows w)) < MaxFlowsPerWorker c"
    using w(3) by simp
  have sb: "bounded c k w s" using bounded_same [OF w] by (simp add: s_def)
  have saved: "lands c k w (save k s w)" using sb len by (intro landsI) (auto simp: ft.get_store)
  have same: "lands c k w v" if "lands c k w u" "flows v = flows u" for u v using that by (simp add: lands_def)
  let ?fin = "Payload pkt = [] \<and> (HasFlag pkt TCPFlagRST \<or> HasFlag pkt TCPFlagFIN)"
  let ?decided = "State s = StateInjected \<or> State s = StatePassThrough"
  consider (fin) ?fin | (pass) "\<not> ?fin" "?decided \<or> Payload pkt = []"
    | (hold) "\<not> ?decided" "Payload pkt \<noteq> []" by blast
  then show ?thesis
  proof cases
    case fin
    then obtain w1 w2 where
      w1: "(if State s = StateCollecting then failOpen env k s w else (None, save k s w)) = (None, w1)"
      and w2: "send env pkt w1 = (None, w2)" "w' = forget k w2"
      using r by (auto simp: handle_existing_def Let_def s_def [symmetric] split: prod.splits option.splits)
    have "\<exists>x. Get (flows w1) = (Get (flows w))(k := x)"
      using w1 failOpen_moves [of k s w env] by (auto simp: moves_def ft.get_store split: if_splits)
    moreover have "flows w2 = flows w1" using send_only [of w1 env pkt] w2 by (simp add: only_callsD)
    ultimately have "Get (flows w') = (Get (flows w))(k := None)" using w2(2) by (auto simp: ft.get_remove)
    then show ?thesis using len by (intro landsI) auto
  next
    case pass
    then have "send env pkt (save k s w) = (None, w')"
      using r by (auto simp: handle_existing_def Let_def s_def [symmetric] split: if_splits)
    then have "flows w' = flows (save k s w)" using send_only [of "save k s w" env pkt] only_callsD by fastforce
    then show ?thesis using saved same by blast
  next
    case hold
    let ?b = "begin_collect c now pkt s"
    have cs: "counts k ?b w"
      using counts_load [OF w(2,3)] i
      by (intro begin_collect_counts) (auto simp: s_def idle_ok_def counts_def held_size_def buf_size_def)
    show ?thesis
    proof (cases "hold_and_push env True c now k pkt ?b w")
      case (Inl x)
      then have "closes k w (None, w')"
        using r hold hold_and_push_flow [where env = env and nc = True and c = c and now = now and k = k
            and pkt = pkt and st = ?b and w = w]
        by (simp add: handle_existing_def Let_def s_def [symmetric])
      then show ?thesis using closes_lands [OF w(1,2) upd _ len] by blast
    next
      case (Inr y)
      obtain s2 w2 where y: "y = (s2, w2)" by force
      have "flows w2 = flows w"
        using hold_and_push_flow [where env = env and nc = True and c = c and now = now and k = k
            and pkt = pkt and st = ?b and w = w] Inr y by simp
      then have u: "Get (flows w2) = (Get (flows w))(k := Get (flows w) k)" by simp
      note ends = ends_land [OF env w(1,2) u hold_bounded [OF cs Inr [unfolded y]] len]
      show ?thesis
        using r hold ends by (auto simp: handle_existing_def Let_def s_def [symmetric] Inr y split: if_splits)
    qed
  qed
qed

lemma rest_save: "table_ok (flows w) \<Longrightarrow> bounded c k (save k u w) st = bounded c k w st"
  by (simp add: bounded_def)

lemma handle_new_lands:
  assumes env: "env_ok env" and w: "within c w" "acct w" "Get (flows w) k = None"
    and r: "handle_new env c c1 c2 now k pkt w = (None, w')"
  shows "lands c k w w' \<or> flows w' = flows w \<and> heldBytes w' = heldBytes w \<and> reassemblyBytes w' = reassemblyBytes w"
  using w(3)
proof (cases rule: handle_new_cases [of w k env c c1 c2 now pkt])
  case sent
  then have "send env pkt w = (None, w')" using r by (rule trans [OF sym])
  then have "only_calls w w'" using send_only [of w env pkt] by simp
  then show ?thesis by (simp add: only_callsD)
next
  case held
  let ?u = "save k (new_flow_state now) w" and ?s = "fresh c now pkt"
  have ok: "table_ok (flows w)" using w(2) by (simp add: acct_def)
  have u: "Get (flows ?u) = (Get (flows w))(k := Some (new_flow_state now))" by (simp add: ft.get_store)
  note len = held(2)
  show ?thesis
  proof (cases "hold_and_push env False c now k pkt ?s ?u")
    case (Inl x)
    then have "closes k ?u (None, w')"
      using r held hold_and_push_flow [where env = env and nc = False and c = c and now = now and k = k
          and pkt = pkt and st = ?s and w = ?u] by simp
    then show ?thesis using closes_lands [OF w(1,2) u _ len] by blast
  next
    case (Inr y)
    obtain s2 w2 where y: "y = (s2, w2)" by force
    have "flows w2 = flows ?u"
      using hold_and_push_flow [where env = env and nc = False and c = c and now = now and k = k
          and pkt = pkt and st = ?s and w = ?u] Inr y by simp
    then have u2: "Get (flows w2) = (Get (flows w))(k := Some (new_flow_state now))" using u by simp
    have b: "bounded c k w s2"
      using hold_bounded [OF fresh_counts(1) [OF w(2,3)] Inr [unfolded y]] by (simp add: rest_save ok)
    note ends = ends_land [OF env w(1,2) u2 b len]
    have syn: "lands c k w w'"
      if "(case failOpen env k s2 w2 of (Some e, w'') \<Rightarrow> (Some e, w'')
          | (None, w'') \<Rightarrow> (None, if HasFlag pkt TCPFlagRST then forget k w'' else w'')) = (None, w')"
      using that ends(1,2) by (auto simp: fail_and_forget_def split: prod.splits option.splits if_splits)
    show ?thesis using r held(3) syn ends(2,3) by (auto simp: Inr y split: if_splits)
  qed
qed

text \<open>C10. The limits hold: when a packet is handled under a configuration whose limits the worker
  respects, and the handler returns nil, the number of flows, the held bytes, the reassembly
  bytes and the number of packets held per flow still respect them.\<close>

theorem limits_preserved:
  assumes "env_ok env" "worker_inv w" "within c w" "handlePacket env (Some c) c1 c2 now pkt w = (None, w')"
  shows "within c w'"
proof -
  have a: "acct w" using assms(2) by (simp add: worker_inv_def)
  have a': "acct w'" using handlePacket_handled [OF assms(1,2), of pkt "Some c" c1 c2 now] assms(4) by (simp add: handled_def)
  show ?thesis
  proof (cases rule: handlePacket_cases [of "Some c" env c1 c2 now pkt w])
    case (old d st)
    then have "idle_ok st" using assms(2) flow_ok_idle by (auto simp: worker_inv_def)
    then have "lands c (KeyFromMeta (Meta pkt)) w w'"
      using old handle_existing_lands [OF assms(1,3) a old(2)] assms(4) by simp
    then show ?thesis by (rule within_lands [OF assms(3) a a'])
  next
    case (new d)
    then have "lands c (KeyFromMeta (Meta pkt)) w w' \<or> flows w' = flows w \<and> heldBytes w' = heldBytes w \<and> reassemblyBytes w' = reassemblyBytes w"
      using handle_new_lands [OF assms(1,3) a new(2)] assms(4) by simp
    then show ?thesis using within_lands [OF assms(3) a a'] assms(3) within_same [of w' w c] by blast
  qed simp
qed

lemma limits_preserved_witness:
  "within test_config (snd (handlePacket ok_env (Some test_config) (Some test_config) None 0 hello1 (newWorker 0 test_config)))"
proof -
  have "within test_config (newWorker 0 test_config)"
    by (simp add: within_def newWorker_def Let_def test_config_def DefaultConfig_def go_defs)
  moreover have "fst (handlePacket ok_env (Some test_config) (Some test_config) None 0 hello1 (newWorker 0 test_config)) = None"
    by code_simp
  then obtain w' where h: "handlePacket ok_env (Some test_config) (Some test_config) None 0 hello1 (newWorker 0 test_config) = (None, w')"
    by (metis prod.collapse)
  ultimately show ?thesis using limits_preserved [OF ok_env_ok newWorker_inv _ h] by (simp add: h)
qed

end
