(* ===== verification/WorkerEnd.thy ===== *)
theory WorkerEnd
  imports WorkerPolicy
begin

text \<open>
  How flows and workers end: teardown packets, the collection of idle flows, the fail-open at
  shutdown, and the errors that can end the loop.
\<close>

section \<open>Teardown\<close>

text \<open>A payload-less FIN or RST always removes its flow: when the handler returns nil the
  packet was accepted by the adapter, after everything the flow still held, and the table has
  no entry for the flow.\<close>

theorem teardown_removes_flow:
  assumes "handlePacket env (Some c) c1 c2 now pkt w = (None, w')" "Payload pkt = []"
    and "HasFlag pkt TCPFlagRST \<or> HasFlag pkt TCPFlagFIN"
  shows "Get (flows w') (KeyFromMeta (Meta pkt)) = None \<and> last (calls w') = Sent pkt None"
proof (cases "Get (flows w) (KeyFromMeta (Meta pkt))")
  case None
  then have s: "send env pkt w = (None, w')"
    using assms by (simp add: handlePacket_def handle_new_def Let_def)
  then have "flows w' = flows w" using send_only [of w env pkt] by (simp add: only_callsD)
  then show ?thesis using None s by (auto simp: send_def Let_def)
next
  case (Some st)
  then obtain w1 w2 where "send env pkt w1 = (None, w2)" "w' = forget (KeyFromMeta (Meta pkt)) w2"
    using assms by (auto simp: handlePacket_def handle_existing_def Let_def split: prod.splits option.splits)
  then show ?thesis by (auto simp: ft.get_remove send_def Let_def)
qed

definition fin_packet :: packet where "fin_packet = sample_input 109 0x11 []"

lemma teardown_removes_flow_witness:
  "Get (flows (snd (handlePacket ok_env (Some test_config) None None 5 fin_packet
      (save test_key test_flow (test_worker []))))) test_key = None"
proof -
  let ?r = "handlePacket ok_env (Some test_config) None None 5 fin_packet (save test_key test_flow (test_worker []))"
  have "Payload fin_packet = []" "HasFlag fin_packet TCPFlagFIN" "KeyFromMeta (Meta fin_packet) = test_key" "fst ?r = None"
    by code_simp+
  then show ?thesis
    using teardown_removes_flow [of ok_env test_config None None 5 fin_packet "save test_key test_flow (test_worker [])" "snd ?r"]
    by (metis prod.collapse)
qed

section \<open>Collecting idle flows\<close>

lemma gc_visit_error: "fst (gc_visit env now idle k st s) = None \<Longrightarrow> fst s = None"
  by (auto simp: gc_visit_def split: prod.splits option.splits if_splits)

lemma gc_error_stays: "fst (Range ks (\<lambda>s. flows (snd s)) (gc_visit env now idle) s) = None \<Longrightarrow> fst s = None"
proof (induction ks arbitrary: s)
  case (Cons k ks)
  then show ?case
  proof (cases "Get (flows (snd s)) k")
    case (Some st)
    then show ?thesis using Cons.IH [of "gc_visit env now idle k st s"] Cons.prems gc_visit_error by simp
  qed simp
qed simp

lemma gc_visit_get:
  assumes "Get (flows w) k = Some st" "gc_visit env now idle k st (None, w) = (None, w')"
  shows "Get (flows w') = (Get (flows w))(k := if idle < now - LastActive st then None else Some st)"
proof -
  have "Get (flows (forget k u)) = (Get (flows w))(k := None)" if "failOpen env k st w = (None, u)" for u
    using failOpen_moves [of k st w env] that by (auto simp: moves_def ft.get_remove)
  then show ?thesis
    using assms by (auto simp: gc_visit_def ft.get_remove fun_upd_idem split: if_splits prod.splits option.splits)
qed

lemma gc_range:
  "Range ks (\<lambda>s. flows (snd s)) (gc_visit env now idle) (None, w) = (None, w') \<Longrightarrow>
    Get (flows w') k = (case Get (flows w) k of None \<Rightarrow> None
      | Some st \<Rightarrow> if k \<in> set ks \<and> idle < now - LastActive st then None else Some st)"
proof (induction ks arbitrary: w)
  case Nil
  then show ?case by (simp split: option.split)
next
  case (Cons j ks)
  show ?case
  proof (cases "Get (flows w) j")
    case None
    then show ?thesis using Cons by (auto split: option.split)
  next
    case (Some st)
    obtain e u where v: "gc_visit env now idle j st (None, w) = (e, u)" by force
    then have rest: "Range ks (\<lambda>s. flows (snd s)) (gc_visit env now idle) (e, u) = (None, w')"
      using Cons.prems Some by simp
    then have "e = None" using gc_error_stays [of ks env now idle "(e, u)"] by simp
    note g = gc_visit_get [OF Some v [unfolded this]]
    show ?thesis
      using Cons.IH [OF rest [unfolded \<open>e = None\<close>]] g Some by (auto split: option.splits)
  qed
qed

text \<open>The idle time a flow is allowed, and what a collection sends for the flow of a key.\<close>

definition idle_allowed :: "config option \<Rightarrow> int" where
  "idle_allowed co = (case co of Some c \<Rightarrow> if 0 < FlowIdleTimeout c then FlowIdleTimeout c else 30000000000 | None \<Rightarrow> 30000000000)"

lemma gc_idle_allowed: "gc_idle co = idle_allowed co"
  by (auto simp: gc_idle_def idle_allowed_def Second_def go_defs split: option.split)

definition collected :: "int \<Rightarrow> int \<Rightarrow> flow_state option \<Rightarrow> event list" where
  "collected now idle so = (case so of None \<Rightarrow> []
     | Some st \<Rightarrow> if idle < now - LastActive st \<and> State st = StateCollecting then map (\<lambda>p. Sent p None) (HeldPackets st) else [])"

lemma failOpen_sent: "failOpen env k st w = (None, w') \<Longrightarrow> calls w' = calls w @ map (\<lambda>p. Sent p None) (HeldPackets st)"
  by (auto simp: failOpen_def clearCollectingState_def dest!: send_all_calls split: prod.splits option.splits)

lemma gc_visit_calls:
  assumes "gc_visit env now idle k st (None, w) = (None, w')"
  shows "calls w' = calls w @ collected now idle (Some st)"
  using assms by (auto simp: gc_visit_def collected_def dest!: failOpen_sent split: if_splits prod.splits option.splits)

lemma gc_range_calls:
  "distinct ks \<Longrightarrow> Range ks (\<lambda>s. flows (snd s)) (gc_visit env now idle) (None, w) = (None, w') \<Longrightarrow>
    calls w' = calls w @ concat (map (\<lambda>k. collected now idle (Get (flows w) k)) ks)"
proof (induction ks arbitrary: w)
  case (Cons j ks)
  show ?case
  proof (cases "Get (flows w) j")
    case None
    then show ?thesis using Cons by (simp add: collected_def)
  next
    case (Some st)
    obtain e u where v: "gc_visit env now idle j st (None, w) = (e, u)" by force
    then have rest: "Range ks (\<lambda>s. flows (snd s)) (gc_visit env now idle) (e, u) = (None, w')"
      using Cons.prems Some by simp
    then have e: "e = None" using gc_error_stays [of ks env now idle "(e, u)"] by simp
    note g = gc_visit_get [OF Some v [unfolded e]] and c = gc_visit_calls [OF v [unfolded e]]
    have m: "map (\<lambda>k. collected now idle (Get (flows u) k)) ks = map (\<lambda>k. collected now idle (Get (flows w) k)) ks"
      using Cons.prems(1) by (intro map_cong refl) (auto simp: g)
    have "calls w' = calls u @ concat (map (\<lambda>k. collected now idle (Get (flows u) k)) ks)"
      using Cons.IH [OF _ rest [unfolded e]] Cons.prems(1) by simp
    then show ?thesis unfolding m using c Some by simp
  qed
qed simp

text \<open>C14. A collection of idle flows that returns nil removes exactly the flows it visits that have seen
  no activity for longer than \<^verbatim>\<open>FlowIdleTimeout\<close> (30 seconds when that is not positive, or
  without a configuration) and leaves every other entry unchanged; and what it hands to the
  adapter is exactly, flow by flow in the order of the visits, the packets held for the
  collecting flows among those it removes, each sent once, so that none is lost.\<close>

theorem gc_removes_exactly_idle:
  assumes "gc env co now order w = (None, w')" "distinct order"
  shows "(\<forall>k. Get (flows w') k = (case Get (flows w) k of None \<Rightarrow> None
      | Some st \<Rightarrow> if k \<in> set order \<and> idle_allowed co < now - LastActive st then None else Some st))
    \<and> calls w' = calls w @ concat (map (\<lambda>k. collected now (idle_allowed co) (Get (flows w) k)) order)"
  using assms gc_range gc_range_calls unfolding gc_def gc_idle_allowed by blast

lemma gc_removes_exactly_idle_witness:
  "let w' = snd (gc ok_env (Some test_config) 40000000000 [test_key] (save test_key test_flow (test_worker [])))
   in Get (flows w') test_key = None \<and> calls w' = [Sent hello1 None, Sent hello2 None]"
proof -
  let ?w = "save test_key test_flow (test_worker [])"
  let ?r = "gc ok_env (Some test_config) 40000000000 [test_key] ?w"
  have "fst ?r = None" by code_simp
  then have "?r = (None, snd ?r)" by (metis prod.collapse)
  from gc_removes_exactly_idle [OF this] show ?thesis
    by (simp add: ft.get_store idle_allowed_def collected_def test_config_def DefaultConfig_def go_defs test_flow_def new_flow_state_def
        test_worker_def newWorker_def Let_def del: push_held.simps)
qed

section \<open>Shutdown\<close>

text \<open>An adapter that accepts every packet.\<close>

definition accepting :: "adapter_env \<Rightarrow> bool" where
  "accepting env \<longleftrightarrow> (\<forall>es p. env_send env es p = None)"

text \<open>The effect of flushing packets: they are appended to the log as sent.\<close>

definition pushed :: "packet list \<Rightarrow> shutdown \<Rightarrow> shutdown \<Rightarrow> bool" where
  "pushed ps s s' \<longleftrightarrow> sw s' = (sw s)\<lparr>calls := calls (sw s) @ map (\<lambda>p. Sent p None) ps\<rparr>
     \<and> flushed s' = flushed s + int (length ps) \<and> firstErr s' = firstErr s \<and> stopErr s' = stopErr s"

lemma pushed_trans: "pushed ps s t \<Longrightarrow> pushed qs t u \<Longrightarrow> pushed (ps @ qs) s u"
  by (simp add: pushed_def)

lemma reinject_ok:
  assumes "accepting env" "\<forall>n. ctx n = None" "flushed s < mx"
  obtains s' where "reinject env ctx mx p s = (None, s')" "pushed [p] s s'"
  using assms that by (auto simp: reinject_def ctx_check_def send_def Let_def accepting_def pushed_def)

lemma flush_held_ok:
  assumes "accepting env" "\<forall>n. ctx n = None"
  shows "flushed s + int (length ps) \<le> mx \<Longrightarrow> pushed ps s (flush_held env ctx mx ps s)"
proof (induction ps arbitrary: s)
  case Nil
  then show ?case by (simp add: pushed_def)
next
  case (Cons p ps)
  obtain s1 where r: "reinject env ctx mx p s = (None, s1)" "pushed [p] s s1"
    using reinject_ok [OF assms, of s mx p] Cons.prems by auto
  then have "pushed ps s1 (flush_held env ctx mx ps s1)" using Cons by (simp add: pushed_def)
  then show ?case using pushed_trans [OF r(2)] r(1) by simp
qed

definition held_of :: "table \<Rightarrow> key \<Rightarrow> packet list" where
  "held_of t k = (case Get t k of None \<Rightarrow> [] | Some st \<Rightarrow> HeldPackets st)"

lemma flush_range_ok:
  assumes "accepting env" "\<forall>n. ctx n = None"
  shows "stopErr s = None \<Longrightarrow> flushed s + int (length (concat (map (held_of (flows (sw s))) ks))) \<le> mx \<Longrightarrow>
    pushed (concat (map (held_of (flows (sw s))) ks)) s (Range ks (\<lambda>s. flows (sw s)) (flush_visit env ctx mx) s)"
proof (induction ks arbitrary: s)
  case Nil
  then show ?case by (simp add: pushed_def)
next
  case (Cons k ks)
  let ?h = "held_of (flows (sw s)) k"
  define s1 where "s1 = (case Get (flows (sw s)) k of None \<Rightarrow> s | Some st \<Rightarrow> flush_visit env ctx mx k st s)"
  have p1: "pushed ?h s s1"
  proof (cases "Get (flows (sw s)) k")
    case None
    then show ?thesis by (simp add: s1_def held_of_def pushed_def)
  next
    case (Some st)
    then have "pushed (HeldPackets st) s (flush_held env ctx mx (HeldPackets st) s)"
      using Cons.prems(2) by (intro flush_held_ok [OF assms]) (simp add: held_of_def)
    then show ?thesis using Some Cons.prems(1) by (auto simp: s1_def held_of_def flush_visit_def pushed_def)
  qed
  then have fl: "flows (sw s1) = flows (sw s)" "stopErr s1 = None" "flushed s1 = flushed s + int (length ?h)"
    using Cons.prems(1) by (simp_all add: pushed_def)
  have "Range (k # ks) (\<lambda>s. flows (sw s)) (flush_visit env ctx mx) s = Range ks (\<lambda>s. flows (sw s)) (flush_visit env ctx mx) s1"
    by (simp add: s1_def split: option.split)
  moreover have "pushed (concat (map (held_of (flows (sw s))) ks)) s1 (Range ks (\<lambda>s. flows (sw s)) (flush_visit env ctx mx) s1)"
    using Cons.IH [of s1] Cons.prems(2) fl by simp
  ultimately show ?case using pushed_trans [OF p1] by simp
qed

lemma drain_ok:
  assumes "accepting env" "\<forall>n. ctx n = None"
  shows "0 < mx \<Longrightarrow> flushed s + int (length q) < mx \<Longrightarrow>
    \<exists>s'. drain env ctx mx q s = (firstErr s, [], s') \<and> pushed q s s'"
proof (induction q arbitrary: s)
  case Nil
  then show ?case using assms(2) by (subst drain.simps) (auto simp: ctx_check_def pushed_def)
next
  case (Cons p ps)
  obtain s0 where c: "ctx_check ctx s = (None, s0)" "sw s0 = sw s" "flushed s0 = flushed s"
      "firstErr s0 = firstErr s" "stopErr s0 = stopErr s"
    using assms(2) by (simp add: ctx_check_def)
  obtain s1 where r: "reinject env ctx mx p s0 = (None, s1)" "pushed [p] s0 s1"
    using reinject_ok [OF assms, of s0 mx p] Cons.prems c by auto
  obtain s' where d: "drain env ctx mx ps s1 = (firstErr s1, [], s')" "pushed ps s1 s'"
    using Cons.IH [of s1] Cons.prems r(2) c by (auto simp: pushed_def)
  have "pushed (p # ps) s s'" using pushed_trans [OF r(2) d(2)] c by (simp add: pushed_def)
  moreover have "firstErr s1 = firstErr s" using r(2) c by (simp add: pushed_def)
  ultimately show ?case using c r(1) d Cons.prems by (subst drain.simps) auto
qed

text \<open>C7. Shutdown releases everything: with an adapter that accepts packets, a context that does
  not expire, and fewer packets than the limit, \<^verbatim>\<open>shutdownFailOpen\<close> returns nil after
  sending, unmodified, the held packets of every flow visited (per flow in order of arrival)
  and then the whole queue in order, which is then empty.\<close>

theorem shutdown_releases_all:
  assumes "\<forall>es p. env_send env es p = None" "\<forall>n. ctx n = None"
    and "int (length (concat (map (held_of (flows w)) order)) + length (inq w)) < flush_limit co"
  shows "shutdownFailOpen env ctx co order w = (None, w\<lparr>calls := calls w
     @ map (\<lambda>p. Sent p None) (concat (map (held_of (flows w)) order) @ inq w), inq := []\<rparr>)"
proof -
  have env: "accepting env" using assms(1) by (simp add: accepting_def)
  define s0 where "s0 = \<lparr>sw = w, flushed = 0, ticks = 0, firstErr = None, stopErr = None\<rparr>"
  define mx where "mx = flush_limit co"
  define s1 where "s1 = Range order (\<lambda>s. flows (sw s)) (flush_visit env ctx mx) s0"
  let ?h = "concat (map (held_of (flows w)) order)"
  have p1: "pushed ?h s0 s1"
    using flush_range_ok [OF env assms(2), of s0 order mx] assms(3) by (simp add: s0_def s1_def mx_def)
  then have s1: "stopErr s1 = None" "firstErr s1 = None" "flushed s1 = int (length ?h)"
    by (simp_all add: pushed_def s0_def)
  have "0 < mx" by (simp add: mx_def flush_limit_def split: option.split)
  then obtain s2 where d: "drain env ctx mx (inq w) s1 = (None, [], s2)" "pushed (inq w) s1 s2"
    using drain_ok [OF env assms(2), of mx s1 "inq w"] s1 assms(3) by (auto simp: mx_def)
  have "sw s2 = w\<lparr>calls := calls w @ map (\<lambda>p. Sent p None) (?h @ inq w)\<rparr>"
    using pushed_trans [OF p1 d(2)] by (simp add: pushed_def s0_def)
  then show ?thesis
    unfolding shutdownFailOpen_def Let_def s0_def [symmetric] mx_def [symmetric] s1_def [symmetric]
    by (simp add: s1 d)
qed

lemma shutdown_releases_all_witness:
  "calls (snd (shutdownFailOpen ok_env (\<lambda>_. None) None [test_key] (save test_key test_flow (test_worker [later]))))
     = [Sent hello1 None, Sent hello2 None, Sent later None]"
proof -
  let ?w = "save test_key test_flow (test_worker [later])"
  have "concat (map (held_of (flows ?w)) [test_key]) = [hello1, hello2]"
    by (simp add: held_of_def ft.get_store test_flow_def del: push_held.simps)
  moreover have "inq ?w = [later]" "calls ?w = []"
    by (simp_all add: save_def test_worker_def newWorker_def Let_def)
  ultimately show ?thesis
    using shutdown_releases_all [of ok_env "\<lambda>_. None" ?w "[test_key]" None]
    by (simp add: ok_env_def flush_limit_def del: push_held.simps)
qed

section \<open>The bound on the shutdown\<close>

lemma sent_count:
  "reinject env ctx mx p s = (e, s') \<Longrightarrow> 0 < mx \<Longrightarrow> flushed s \<le> mx \<Longrightarrow>
    flushed s' \<le> mx \<and> int (length (released (calls (sw s')))) - flushed s'
      = int (length (released (calls (sw s)))) - flushed s \<and> inq (sw s') = inq (sw s)"
  by (cases "ctx (ticks s)"; cases "env_send env (calls (sw s)) p")
    (auto simp: reinject_def ctx_check_def send_def Let_def split: if_splits dest: sym [of "Some _"])

definition paced :: "int \<Rightarrow> shutdown \<Rightarrow> shutdown \<Rightarrow> bool" where
  "paced mx s s' \<longleftrightarrow> flushed s' \<le> mx \<and> int (length (released (calls (sw s')))) - flushed s'
      = int (length (released (calls (sw s)))) - flushed s"

lemma paced_trans: "paced mx s t \<Longrightarrow> paced mx t u \<Longrightarrow> paced mx s u"
  by (simp add: paced_def)

lemma paced_fields [simp]:
  "paced mx s (u\<lparr>stopErr := a\<rparr>) = paced mx s u" "paced mx s (u\<lparr>firstErr := a\<rparr>) = paced mx s u"
  "paced mx (s\<lparr>firstErr := a\<rparr>) u = paced mx s u"
  by (simp_all add: paced_def)

lemma reinject_paced: "reinject env ctx mx p s = (e, s') \<Longrightarrow> 0 < mx \<Longrightarrow> flushed s \<le> mx \<Longrightarrow> paced mx s s'"
  using sent_count by (simp add: paced_def)

lemma flush_held_paced: "0 < mx \<Longrightarrow> flushed s \<le> mx \<Longrightarrow> paced mx s (flush_held env ctx mx ps s)"
proof (induction ps arbitrary: s)
  case Nil
  then show ?case by (simp add: paced_def)
next
  case (Cons p ps)
  obtain e s1 where r: "reinject env ctx mx p s = (e, s1)" by force
  note p1 = reinject_paced [OF r Cons.prems]
  then have f: "flushed s1 \<le> mx" by (simp add: paced_def)
  show ?case
    using r p1 Cons.IH [OF Cons.prems(1) f] Cons.IH [of "s1\<lparr>firstErr := e\<rparr>"] f Cons.prems(1)
    by (auto split: option.split intro: paced_trans)
qed

lemma drain_paced: "0 < mx \<Longrightarrow> flushed s \<le> mx \<Longrightarrow> paced mx s (snd (snd (drain env ctx mx q s)))"
proof (induction q arbitrary: s)
  case Nil
  then show ?case by (subst drain.simps) (auto simp: ctx_check_def paced_def split: option.split)
next
  case (Cons p ps)
  define s0 where "s0 = snd (ctx_check ctx s)"
  have p0: "paced mx s s0" "flushed s0 \<le> mx" using Cons.prems by (simp_all add: s0_def ctx_check_def paced_def)
  obtain e s1 where r: "reinject env ctx mx p s0 = (e, s1)" by force
  note p1 = reinject_paced [OF r Cons.prems(1) p0(2)]
  then have f: "flushed s1 \<le> mx" by (simp add: paced_def)
  have c: "ctx_check ctx s = (ctx (ticks s), s0)" by (simp add: s0_def ctx_check_def)
  note IH = Cons.IH [OF Cons.prems(1), of s1] Cons.IH [OF Cons.prems(1), of "s1\<lparr>firstErr := e\<rparr>"]
  show ?case
    using r c f IH paced_trans [OF p0(1) p1] p0
    by (subst drain.simps) (auto split: option.split intro: paced_trans)
qed

text \<open>C9. The shutdown is bounded: whatever the adapter and the context do and however many
  packets are held or queued, at most \<^verbatim>\<open>ShutdownFailOpenMaxPackets\<close> packets (200000 when that
  is not positive) are released.\<close>

theorem shutdown_bounded:
  "int (length (released (calls (snd (shutdownFailOpen env ctx co order w))))) \<le>
     int (length (released (calls w))) + flush_limit co"
proof -
  define s0 where "s0 = \<lparr>sw = w, flushed = 0, ticks = 0, firstErr = None, stopErr = None\<rparr>"
  define mx where "mx = flush_limit co"
  define s1 where "s1 = Range order (\<lambda>s. flows (sw s)) (flush_visit env ctx mx) s0"
  have mx: "0 < mx" by (simp add: mx_def flush_limit_def split: option.split)
  have p1: "paced mx s0 s1" unfolding s1_def
  proof (rule Range_induct [where P = "paced mx s0"], goal_cases)
    case 1
    show ?case using mx by (simp add: paced_def s0_def)
  next
    case (2 k st u)
    then have "paced mx u (flush_visit env ctx mx k st u)"
      using flush_held_paced [OF mx, of u env ctx "HeldPackets st"] by (auto simp: flush_visit_def paced_def)
    then show ?case using 2 paced_trans by blast
  qed
  then have "paced mx s1 (snd (snd (drain env ctx mx (inq w) s1)))"
    using mx by (intro drain_paced) (simp_all add: paced_def)
  note p2 = paced_trans [OF p1 this]
  have "calls (snd (shutdownFailOpen env ctx co order w)) =
      (if stopErr s1 = None then calls (sw (snd (snd (drain env ctx mx (inq w) s1)))) else calls (sw s1))"
    unfolding shutdownFailOpen_def Let_def s0_def [symmetric] mx_def [symmetric] s1_def [symmetric]
    by (simp split: option.split prod.split)
  then show ?thesis using p1 p2 by (auto simp: paced_def s0_def mx_def)
qed

end
