(* ===== verification/Engine.thy ===== *)
theory Engine
  imports WorkerRun
begin

text \<open>
  The engine (\<^verbatim>\<open>internal/engine/engine.go\<close>): its construction, the reload of the
  configuration, the receive loop that routes every captured packet, and \<^verbatim>\<open>Run\<close> with its
  goroutines and shutdown.

  The goroutines of \<^verbatim>\<open>Run\<close> are interleaved by a list of actions; one action is one round of
  the receive loop, one round of a worker's loop, a worker's flush after its loop, or one step
  of the main goroutine.  An action that is not enabled is \<^const>\<open>None\<close>.  The adapter is the
  record of the worker theory; the log of the calls made by the receive loop is \<open>esent\<close>,
  those made by a worker are in that worker.
\<close>

section \<open>Construction and reload\<close>

record engine =
  ecfg :: config
  esharder :: sharder
  eworkers :: "worker list"
  esent :: "event list"

definition Engine_New :: "config \<Rightarrow> engine" where
  "Engine_New c = (let sh = NewSharder (WorkerCount c)
     in \<lparr>ecfg = c, esharder = sh, eworkers = map (\<lambda>i. newWorker i c) [0..<Workers sh], esent = []\<rparr>)"

definition restart_error :: "string \<Rightarrow> int \<Rightarrow> int \<Rightarrow> go_error" where
  "restart_error what have want =
     ErrNew (''reload requires restart: '' @ what @ '' '' @ show_int have @ '' -> '' @ show_int want)"

definition Reload :: "config \<Rightarrow> engine \<Rightarrow> go_error option \<times> engine" where
  "Reload c e = (
     let n = int (length (eworkers e));
         store = e\<lparr>ecfg := c, eworkers := map (setConfig c) (eworkers e)\<rparr>
     in if WorkerCount c \<noteq> n then (Some (restart_error ''workers'' n (WorkerCount c)), e)
        else if WorkerQueueSize c > 0 then
          (case find (\<lambda>w. int (inCap w) \<noteq> WorkerQueueSize c) (eworkers e) of
             Some w \<Rightarrow> (Some (restart_error ''worker queue size'' (int (inCap w)) (WorkerQueueSize c)), e)
           | None \<Rightarrow> (None, store))
        else (None, store))"

section \<open>The receive loop\<close>

datatype received = RecvPkt packet | RecvNil | RecvErr go_error

datatype loop = Looping engine | Stopped go_error engine | Blocked

definition pass :: "adapter_env \<Rightarrow> packet \<Rightarrow> engine \<Rightarrow> loop" where
  "pass env pkt e = (let r = env_send env (esent e) pkt; e' = e\<lparr>esent := esent e @ [Sent pkt r]\<rparr>
     in case r of None \<Rightarrow> Looping e' | Some er \<Rightarrow> Stopped er e')"

definition put_worker :: "nat \<Rightarrow> worker \<Rightarrow> engine \<Rightarrow> engine" where
  "put_worker i w e = e\<lparr>eworkers := (eworkers e)[i := w]\<rparr>"

text \<open>Enqueueing at the worker of the packet's flow; a cancelled context passes it instead.\<close>

definition hand_over :: "adapter_env \<Rightarrow> go_error option \<Rightarrow> go_error option \<Rightarrow> packet \<Rightarrow> nat \<Rightarrow> engine \<Rightarrow> loop" where
  "hand_over env ctx0 done pkt i e = (
     if i \<ge> length (eworkers e) then Stopped (GoPanic ''index out of range'') e
     else case enqueue ctx0 done pkt (eworkers e ! i) of
       None \<Rightarrow> Blocked
     | Some (None, w) \<Rightarrow> Looping (put_worker i w e)
     | Some (Some er, w) \<Rightarrow>
         if errors_is er ContextCanceled then pass env pkt (put_worker i w e)
         else Stopped er (put_worker i w e))"

definition recv_step :: "adapter_env \<Rightarrow> received \<Rightarrow> go_error option \<Rightarrow> go_error option \<Rightarrow> engine \<Rightarrow> loop" where
  "recv_step env rcv ctx0 done e = (case rcv of
     RecvErr er \<Rightarrow> Stopped er e
   | RecvNil \<Rightarrow> Looping e
   | RecvPkt pkt0 \<Rightarrow> (case DecodeIPv4TCP pkt0 of
       None \<Rightarrow> Stopped (GoPanic ''index out of range'') e
     | Some (Some _, pkt) \<Rightarrow> pass env pkt e
     | Some (None, pkt) \<Rightarrow>
         if DstPort (Meta pkt) \<noteq> 443 then pass env pkt e else
         let payload = Payload pkt; k = KeyFromMeta (Meta pkt); i = Index (esharder e) k in
         if payload = [] then
           (if HasFlag pkt TCPFlagFIN \<or> HasFlag pkt TCPFlagRST then hand_over env ctx0 done pkt i e
            else if i \<ge> length (eworkers e) then Stopped (GoPanic ''index out of range'') e
            else pass env pkt (put_worker i (touchFlow k (eworkers e ! i)) e))
         else hand_over env ctx0 done pkt i e))"

fun recvLoop :: "adapter_env \<Rightarrow> (received \<times> go_error option \<times> go_error option) list \<Rightarrow> engine \<Rightarrow> loop" where
  "recvLoop env [] e = Looping e"
| "recvLoop env ((rcv, ctx0, done) # rs) e = (case recv_step env rcv ctx0 done e of
     Looping e' \<Rightarrow> recvLoop env rs e' | Stopped er e' \<Rightarrow> Stopped er e' | Blocked \<Rightarrow> Blocked)"

section \<open>The end of a worker's goroutine\<close>

text \<open>Combining an error with the one of a flush, the same code for a worker and for the
  adapter: \<^term>\<open>excused\<close> says which flush errors are forgiven after a cancellation.\<close>

definition unexcused :: "(go_error \<Rightarrow> bool) \<Rightarrow> go_error option \<Rightarrow> go_error option \<Rightarrow> go_error option" where
  "unexcused excused err flushErr = (case flushErr of None \<Rightarrow> None
     | Some f \<Rightarrow> if is_err err ContextCanceled \<and> excused f then None else Some f)"

definition flush_join :: "(go_error \<Rightarrow> bool) \<Rightarrow> go_error option \<Rightarrow> go_error option \<Rightarrow> go_error option" where
  "flush_join excused err flushErr = (case unexcused excused err flushErr of
     None \<Rightarrow> err
   | Some f \<Rightarrow> (case err of None \<Rightarrow> Some f
       | Some e \<Rightarrow> if errors_is e ContextCanceled then Some f else Some (ErrJoin [e, f])))"

definition worker_excused :: "go_error \<Rightarrow> bool" where
  "worker_excused f \<longleftrightarrow> errors_is f ContextDeadlineExceeded \<or> errors_is f ErrShutdownFailOpenLimitReached"

definition adapter_excused :: "go_error \<Rightarrow> bool" where
  "adapter_excused f \<longleftrightarrow> errors_is f ContextDeadlineExceeded"

definition fatal :: "go_error option \<Rightarrow> bool" where
  "fatal e \<longleftrightarrow> e \<noteq> None \<and> \<not> is_err e ContextCanceled"

section \<open>Run\<close>

datatype goroutine = WorkerLoop | WorkerReturned "go_error option" | WorkerFinished

datatype recv_state = RecvRunning | RecvReturned go_error | RecvTaken

datatype main_state = Selecting | AwaitRecv go_error | Closing go_error | Waiting go_error
  | Flushing go_error | Finished "go_error option"

record running =
  eng :: engine
  ctxErr :: "go_error option"
  gos :: "goroutine list"
  workerErrCh :: "go_error option"
  recvGo :: recv_state
  mainGo :: main_state

definition Run_start :: "engine \<Rightarrow> running" where
  "Run_start e = \<lparr>eng = e, ctxErr = None, gos = map (\<lambda>_. WorkerLoop) (eworkers e),
     workerErrCh = None, recvGo = RecvRunning, mainGo = Selecting\<rparr>"

text \<open>\<^verbatim>\<open>cancel()\<close> of \<^verbatim>\<open>context.WithCancel\<close>: the first reason stays.\<close>

definition cancel_ctx :: "running \<Rightarrow> running" where
  "cancel_ctx s = s\<lparr>ctxErr := (case ctxErr s of None \<Rightarrow> Some ContextCanceled | e \<Rightarrow> e)\<rparr>"

text \<open>A send to \<^verbatim>\<open>workerErrCh\<close>, of capacity one, that does not block.\<close>

definition offer_err :: "go_error \<Rightarrow> running \<Rightarrow> running" where
  "offer_err er s = (if workerErrCh s = None then s\<lparr>workerErrCh := Some er\<rparr> else s)"

text \<open>
  The actions: the caller's context ends; a round of the receive loop (the flags say that
  the first test of the context came before its end, and that the select took its end); a
  round of a worker's loop; a worker's flush (with the results of its own context and the map
  order); a reload; the arms of the main goroutine's select, and its later steps with the
  result of the adapter's \<^verbatim>\<open>Flush\<close>.
\<close>

datatype act =
    EndContext go_error
  | RecvRound received bool bool
  | WorkerRound nat choice
  | WorkerFlush nat "nat \<Rightarrow> go_error option" "config option" "key list"
  | DoReload config
  | MainTakeWorkerErr
  | MainTakeRecvErr
  | MainCloseQueues
  | MainWait
  | MainFlush "go_error option"

definition recv_round :: "adapter_env \<Rightarrow> received \<Rightarrow> bool \<Rightarrow> bool \<Rightarrow> running \<Rightarrow> running option" where
  "recv_round env rcv early taken s = (
     if recvGo s \<noteq> RecvRunning then None else
     case recv_step env rcv (if early then None else ctxErr s) (if taken then ctxErr s else None) (eng s) of
       Looping e \<Rightarrow> Some (s\<lparr>eng := e\<rparr>)
     | Stopped er e \<Rightarrow> Some (s\<lparr>eng := e, recvGo := RecvReturned er\<rparr>)
     | Blocked \<Rightarrow> None)"

definition worker_round :: "adapter_env \<Rightarrow> nat \<Rightarrow> choice \<Rightarrow> running \<Rightarrow> running option" where
  "worker_round env i ch s = (
     if i \<ge> length (gos s) \<or> gos s ! i \<noteq> WorkerLoop \<or> (case ch of TakeDone er \<Rightarrow> ctxErr s \<noteq> Some er | _ \<Rightarrow> False) then None
     else case run_step env ch (eworkers (eng s) ! i) of
       NotReady \<Rightarrow> None
     | Running w \<Rightarrow> Some (s\<lparr>eng := put_worker i w (eng s)\<rparr>)
     | Returned e w \<Rightarrow>
         let s = s\<lparr>eng := put_worker i w (eng s), gos := (gos s)[i := WorkerReturned e]\<rparr>
         in Some (if fatal e then cancel_ctx s else s))"

definition worker_flush :: "adapter_env \<Rightarrow> nat \<Rightarrow> (nat \<Rightarrow> go_error option) \<Rightarrow> config option \<Rightarrow> key list
    \<Rightarrow> running \<Rightarrow> running option" where
  "worker_flush env i fctx co order s = (if i \<ge> length (gos s) then None else
     case gos s ! i of
       WorkerReturned err \<Rightarrow>
         (case shutdownFailOpen env fctx co order (eworkers (eng s) ! i) of (flushErr, w) \<Rightarrow>
            let s1 = s\<lparr>eng := put_worker i w (eng s), gos := (gos s)[i := WorkerFinished]\<rparr>;
                err' = flush_join worker_excused err flushErr;
                s2 = (if unexcused worker_excused err flushErr \<noteq> None then cancel_ctx s1 else s1)
            in Some (case err' of None \<Rightarrow> s2 | Some er \<Rightarrow> if fatal err' then offer_err er s2 else s2))
     | _ \<Rightarrow> None)"

text \<open>The main goroutine.  \<^verbatim>\<open>recvDrained\<close> is true after either arm of its select, so the
  later wait for the receive loop is never reached.\<close>

definition main_select :: "bool \<Rightarrow> running \<Rightarrow> running option" where
  "main_select workerArm s = (case mainGo s of
     Selecting \<Rightarrow>
       if workerArm then (case workerErrCh s of None \<Rightarrow> None
         | Some er \<Rightarrow> Some (cancel_ctx (s\<lparr>workerErrCh := None, mainGo := AwaitRecv er\<rparr>)))
       else (case recvGo s of
           RecvReturned er \<Rightarrow> Some (cancel_ctx (s\<lparr>recvGo := RecvTaken, mainGo := Closing er\<rparr>))
         | _ \<Rightarrow> None)
   | AwaitRecv er \<Rightarrow> if workerArm then None else (case recvGo s of
         RecvReturned _ \<Rightarrow> Some (s\<lparr>recvGo := RecvTaken, mainGo := Closing er\<rparr>)
       | _ \<Rightarrow> None)
   | _ \<Rightarrow> None)"

definition close_all :: "engine \<Rightarrow> engine" where
  "close_all e = e\<lparr>eworkers := map close_worker (eworkers e)\<rparr>"

definition main_finish :: "go_error \<Rightarrow> go_error option \<Rightarrow> go_error option \<Rightarrow> go_error option" where
  "main_finish err flushErr late = (
     let err = flush_join adapter_excused (Some err) flushErr;
         err = (if is_err err ContextCanceled then (case late of Some w \<Rightarrow> Some w | None \<Rightarrow> err) else err)
     in if is_err err ContextCanceled then None else err)"

fun act_step :: "adapter_env \<Rightarrow> act \<Rightarrow> running \<Rightarrow> running option" where
  "act_step env (EndContext er) s = (if ctxErr s = None then Some (s\<lparr>ctxErr := Some er\<rparr>) else None)"
| "act_step env (RecvRound rcv early taken) s = recv_round env rcv early taken s"
| "act_step env (WorkerRound i ch) s = worker_round env i ch s"
| "act_step env (WorkerFlush i fctx co order) s = worker_flush env i fctx co order s"
| "act_step env (DoReload c) s = Some (s\<lparr>eng := snd (Reload c (eng s))\<rparr>)"
| "act_step env MainTakeWorkerErr s = main_select True s"
| "act_step env MainTakeRecvErr s = main_select False s"
| "act_step env MainCloseQueues s = (case mainGo s of
     Closing er \<Rightarrow> Some (s\<lparr>eng := close_all (eng s), mainGo := Waiting er\<rparr>) | _ \<Rightarrow> None)"
| "act_step env MainWait s = (case mainGo s of
     Waiting er \<Rightarrow> if list_all (\<lambda>g. g = WorkerFinished) (gos s) then Some (s\<lparr>mainGo := Flushing er\<rparr>) else None
   | _ \<Rightarrow> None)"
| "act_step env (MainFlush flushErr) s = (case mainGo s of
     Flushing er \<Rightarrow> Some (s\<lparr>workerErrCh :=
          (if is_err (flush_join adapter_excused (Some er) flushErr) ContextCanceled then None else workerErrCh s),
        mainGo := Finished (main_finish er flushErr (workerErrCh s))\<rparr>)
   | _ \<Rightarrow> None)"

fun Run :: "adapter_env \<Rightarrow> act list \<Rightarrow> running \<Rightarrow> running option" where
  "Run env [] s = Some s"
| "Run env (a # as) s = (case act_step env a s of None \<Rightarrow> None | Some s' \<Rightarrow> Run env as s')"

end
