(* ===== verification/EngineProps.thy ===== *)
theory EngineProps
  imports Engine WorkerExamples
begin

text \<open>
  Properties of the engine: the routing of packets, the reload, and, along every interleaving
  of the receive loop with the workers, the conservation of packets and the assignment of
  flows to workers.
\<close>

section \<open>Routing\<close>

text \<open>The classification of a raw packet that the receive loop makes, on the bytes.\<close>

definition to_https :: "bytes \<Rightarrow> bool" where
  "to_https d \<longleftrightarrow> valid_tcp4 d \<and> be16 d (ip_hlen d + 2) = 443"

definition bare_header :: "bytes \<Rightarrow> bool" where
  "bare_header d \<longleftrightarrow> length d = ip_hlen d + tcp_hlen d"

definition fin_or_rst :: "bytes \<Rightarrow> bool" where
  "fin_or_rst d \<longleftrightarrow> d ! (ip_hlen d + 13) AND 5 \<noteq> 0"

definition sharded :: "engine \<Rightarrow> bool" where
  "sharded e \<longleftrightarrow> (\<exists>n < 2 ^ 63. esharder e = NewSharder n) \<and> length (eworkers e) = Workers (esharder e)"

lemma sharded_Index: "sharded e \<Longrightarrow> Index (esharder e) k < length (eworkers e)"
  using Index_less by (auto simp: sharded_def)

lemma put_worker_simps [simp]:
  "esharder (put_worker i w e) = esharder e" "esent (put_worker i w e) = esent e"
  "eworkers (put_worker i w e) = (eworkers e)[i := w]" "ecfg (put_worker i w e) = ecfg e"
  by (simp_all add: put_worker_def)

lemma flags_and5: "(f AND TCPFlagFIN \<noteq> 0 \<or> f AND TCPFlagRST \<noteq> 0) = (f AND 5 \<noteq> 0)" for f :: byte
proof -
  have "f AND 5 = (f AND 1) OR (f AND 4)" by (simp flip: bit.conj_disj_distrib)
  then show ?thesis by (simp add: go_defs or_eq_0_iff)
qed

text \<open>C11. Routing is exact, stated on the bytes of the captured packet: what is not an unfragmented
  IPv4 TCP packet, or is not for port 443, is passed on; a packet for 443 that is a bare header
  with neither FIN nor RST is passed on after its flow has been marked active; everything else
  goes to the queue of the worker that its flow is assigned to.  Only the metadata of the
  packet changes and the loop never panics.\<close>

theorem routing_exact:
  assumes "sharded e"
  shows "\<exists>m. let q = p\<lparr>Meta := m\<rparr>; d = Data p; k = KeyFromMeta m; i = Index (esharder e) k in
    (valid_tcp4 d \<longrightarrow> m = decoded_meta d) \<and> i < length (eworkers e)
    \<and> recv_step env (RecvPkt p) ctx0 dn e =
      (if \<not> to_https d then pass env q e
       else if bare_header d \<and> \<not> fin_or_rst d then pass env q (put_worker i (touchFlow k (eworkers e ! i)) e)
       else hand_over env ctx0 dn q i e)"
proof -
  obtain er q where d: "DecodeIPv4TCP p = Some (er, q)" "q = p\<lparr>Meta := Meta q\<rparr>" using decode_total by blast
  note ix = sharded_Index [OF assms]
  show ?thesis
  proof (cases "valid_tcp4 (Data p)")
    case False
    then have "er \<noteq> None" using d(1) decode_okD(1) [of p q] by (cases er) auto
    then obtain er' where "er = Some er'" by blast
    then have "recv_step env (RecvPkt p) ctx0 dn e = pass env q e" using d(1) by (simp add: recv_step_def)
    then show ?thesis using False d(2) ix by (intro exI [of _ "Meta q"]) (auto simp: Let_def to_https_def)
  next
    case True
    let ?m = "decoded_meta (Data p)" and ?q = "p\<lparr>Meta := decoded_meta (Data p)\<rparr>"
    have q: "DecodeIPv4TCP p = Some (None, ?q)" using True by (rule decode_okI)
    have len: "ip_hlen (Data p) + tcp_hlen (Data p) \<le> length (Data p)" "20 \<le> ip_hlen (Data p)"
      using True by (simp_all add: valid_tcp4_def)
    then have pl: "Payload ?q = [] \<longleftrightarrow> bare_header (Data p)"
      by (auto simp: Payload_def decoded_meta_def bare_header_def)
    have fl: "HasFlag ?q TCPFlagFIN \<or> HasFlag ?q TCPFlagRST \<longleftrightarrow> fin_or_rst (Data p)"
      unfolding HasFlag_def fin_or_rst_def flags_and5 by (simp add: decoded_meta_def)
    have dp: "DstPort ?m = 443 \<longleftrightarrow> to_https (Data p)" using True by (simp add: to_https_def decoded_meta_def)
    have "recv_step env (RecvPkt p) ctx0 dn e =
      (if \<not> to_https (Data p) then pass env ?q e
       else if bare_header (Data p) \<and> \<not> fin_or_rst (Data p)
         then pass env ?q (put_worker (Index (esharder e) (KeyFromMeta ?m)) (touchFlow (KeyFromMeta ?m)
                (eworkers e ! Index (esharder e) (KeyFromMeta ?m))) e)
       else hand_over env ctx0 dn ?q (Index (esharder e) (KeyFromMeta ?m)) e)"
      using ix [of "KeyFromMeta ?m"]
      by (auto simp: recv_step_def q Let_def pl fl dp)
    then show ?thesis using ix by (intro exI [of _ ?m]) (simp add: Let_def)
  qed
qed

lemma routing_exact_witness:
  "\<exists>m. KeyFromMeta m = test_key \<and> recv_step ok_env (RecvPkt hello1) None None (Engine_New test_config)
     = hand_over ok_env None None (hello1\<lparr>Meta := m\<rparr>) (Index (NewSharder 4) test_key) (Engine_New test_config)"
proof -
  have c: "esharder (Engine_New test_config) = NewSharder 4" "length (eworkers (Engine_New test_config)) = 4"
    "Workers (NewSharder 4) = 4" by code_simp+
  have "sharded (Engine_New test_config)"
    unfolding sharded_def using c by (intro conjI exI [of _ "4 :: int"]) simp_all
  from routing_exact [OF this, where p = hello1 and env = ok_env and ?ctx0.0 = None and dn = None] obtain m where
    m: "valid_tcp4 (Data hello1) \<longrightarrow> m = decoded_meta (Data hello1)"
      "recv_step ok_env (RecvPkt hello1) None None (Engine_New test_config)
       = (if \<not> to_https (Data hello1) then pass ok_env (hello1\<lparr>Meta := m\<rparr>) (Engine_New test_config)
          else if bare_header (Data hello1) \<and> \<not> fin_or_rst (Data hello1) then pass ok_env (hello1\<lparr>Meta := m\<rparr>)
            (put_worker (Index (esharder (Engine_New test_config)) (KeyFromMeta m)) (touchFlow (KeyFromMeta m)
              (eworkers (Engine_New test_config) ! Index (esharder (Engine_New test_config)) (KeyFromMeta m))) (Engine_New test_config))
          else hand_over ok_env None None (hello1\<lparr>Meta := m\<rparr>)
            (Index (esharder (Engine_New test_config)) (KeyFromMeta m)) (Engine_New test_config))"
    by (auto simp: Let_def)
  have v: "valid_tcp4 (Data hello1)" "to_https (Data hello1)" "\<not> bare_header (Data hello1)"
    "KeyFromMeta (decoded_meta (Data hello1)) = test_key" by code_simp+
  show ?thesis using m v c by (intro exI [of _ m]) simp
qed

section \<open>Reload\<close>

text \<open>A reload is atomic: it is refused, with nothing changed, exactly when it would change the
  number of workers or the size of their queues; otherwise every worker has the new
  configuration and keeps everything else: queues, flows, counters and calls.\<close>

theorem reload_atomic:
  "case Reload c e of
     (Some er, e') \<Rightarrow> e' = e \<and> (WorkerCount c \<noteq> int (length (eworkers e))
        \<or> WorkerQueueSize c > 0 \<and> (\<exists>w\<in>set (eworkers e). int (inCap w) \<noteq> WorkerQueueSize c))
   | (None, e') \<Rightarrow> WorkerCount c = int (length (eworkers e))
        \<and> (WorkerQueueSize c > 0 \<longrightarrow> (\<forall>w\<in>set (eworkers e). int (inCap w) = WorkerQueueSize c))
        \<and> ecfg e' = c \<and> esharder e' = esharder e \<and> esent e' = esent e
        \<and> eworkers e' = map (\<lambda>w. w\<lparr>cfg := Some c\<rparr>) (eworkers e)"
  by (auto simp: Reload_def Let_def setConfig_def [abs_def] find_None_iff find_Some_iff split: option.split)

lemma reload_atomic_witness:
  "eworkers (snd (Reload (test_config\<lparr>SplitChunk := 9\<rparr>) (Engine_New test_config)))
   = map (\<lambda>w. w\<lparr>cfg := Some (test_config\<lparr>SplitChunk := 9\<rparr>)\<rparr>) (eworkers (Engine_New test_config))"
proof -
  have "fst (Reload (test_config\<lparr>SplitChunk := 9\<rparr>) (Engine_New test_config)) = None" by code_simp
  then show ?thesis
    using reload_atomic [of "test_config\<lparr>SplitChunk := 9\<rparr>" "Engine_New test_config"]
    by (auto split: prod.splits)
qed

section \<open>Interleavings\<close>

text \<open>Where a packet is: passed on by the receive loop, or with one of the workers.\<close>

definition tally :: "packet \<Rightarrow> engine \<Rightarrow> int" where
  "tally x e = int (count_list (released (esent e)) x) + (\<Sum>w\<leftarrow>eworkers e. whereabouts x w)"

text \<open>The packet as the receive loop sees it after decoding, and how often it has arrived.\<close>

definition seen :: "packet \<Rightarrow> packet" where
  "seen p = (case DecodeIPv4TCP p of Some (_, q) \<Rightarrow> q | None \<Rightarrow> p)"

fun arrival :: "packet \<Rightarrow> received \<Rightarrow> int" where
  "arrival x (RecvPkt p) = (if seen p = x then 1 else 0)"
| "arrival x _ = 0"

text \<open>What an adapter delivers.\<close>

fun delivered :: "received \<Rightarrow> bool" where
  "delivered (RecvPkt p) = (captured p \<and> length (Data p) \<le> 65535)"
| "delivered _ = True"

definition homed :: "sharder \<Rightarrow> nat \<Rightarrow> worker \<Rightarrow> bool" where
  "homed sh i w \<longleftrightarrow> (\<forall>p\<in>set (inq w). Index sh (KeyFromMeta (Meta p)) = i)
     \<and> (\<forall>k. Get (flows w) k \<noteq> None \<longrightarrow> Index sh k = i)"

definition engine_inv :: "engine \<Rightarrow> bool" where
  "engine_inv e \<longleftrightarrow> sharded e
     \<and> (\<forall>i < length (eworkers e). run_inv (eworkers e ! i) \<and> homed (esharder e) i (eworkers e ! i))"

lemma sum_list_put: "i < length xs \<Longrightarrow> (\<Sum>x\<leftarrow>xs[i := y]. f x) = (\<Sum>x\<leftarrow>xs. f x) - f (xs ! i) + (f y :: int)"
  by (induction xs arbitrary: i) (auto split: nat.split simp: nth_Cons)

lemma tally_put: "i < length (eworkers e) \<Longrightarrow>
    tally x (put_worker i w e) = tally x e - whereabouts x (eworkers e ! i) + whereabouts x w"
  by (simp add: tally_def sum_list_put)

lemma engine_inv_put:
  "engine_inv e \<Longrightarrow> i < length (eworkers e) \<Longrightarrow> run_inv w \<Longrightarrow> homed (esharder e) i w \<Longrightarrow> engine_inv (put_worker i w e)"
  by (auto simp: engine_inv_def sharded_def nth_list_update)

lemma engine_inv_sent [simp]: "engine_inv (e\<lparr>esent := es\<rparr>) = engine_inv e"
  by (simp add: engine_inv_def sharded_def)

text \<open>A round of a worker's loop takes packets from the queue and flows of those packets only.\<close>

lemma run_step_homed:
  assumes "env_ok env" "homed sh i w" "run_step env ch w = Running w'"
  shows "homed sh i w'"
proof (cases ch)
  case (TakeIn c0 c1 c2 now)
  then obtain p ps where q: "inq w = p # ps"
    and h: "handlePacket env c0 c1 c2 now p (w\<lparr>inq := ps\<rparr>) = (None, w')"
    using assms(3) by (auto split: list.splits if_splits prod.splits option.splits)
  have "framed (KeyFromMeta (Meta p)) (w\<lparr>inq := ps\<rparr>) w'"
    using handlePacket_framed [OF assms(1), of p "w\<lparr>inq := ps\<rparr>" c0 c1 c2 now] h by simp
  then have "inq w' = ps" "\<And>j. j \<noteq> KeyFromMeta (Meta p) \<Longrightarrow> Get (flows w') j = Get (flows w) j"
    by (simp_all add: framed_def)
  note f = this
  have i: "Index sh (KeyFromMeta (Meta p)) = i" using assms(2) q by (simp add: homed_def)
  show ?thesis unfolding homed_def
  proof (intro conjI allI impI)
    show "Index sh k = i" if "Get (flows w') k \<noteq> None" for k
      using that i f(2) assms(2) by (cases "k = KeyFromMeta (Meta p)") (auto simp: homed_def)
  qed (use assms(2) q f(1) in \<open>simp add: homed_def\<close>)
next
  case (TakeTouch now)
  then show ?thesis
    using assms by (auto simp: homed_def save_def ft.get_store split: list.splits option.splits if_splits)
next
  case (TakeTimer co now order)
  then have "gc env co now order w = (None, w')" using assms(3) by (auto split: prod.splits option.splits)
  then have "shrunk w w'" using gc_shrunk [of w env co now order] by simp
  then show ?thesis using assms(2) by (auto simp: homed_def shrunk_def)
next
  case (TakeDone e)
  then show ?thesis using assms by simp
qed

lemma touch_fields [simp]:
  "flows (touchFlow k w) = flows w" "inq (touchFlow k w) = inq w" "calls (touchFlow k w) = calls w"
  "heldBytes (touchFlow k w) = heldBytes w" "reassemblyBytes (touchFlow k w) = reassemblyBytes w"
  by (simp_all add: touchFlow_def)

lemma touch_inv: "run_inv w \<Longrightarrow> homed sh i w \<Longrightarrow> run_inv (touchFlow k w) \<and> homed sh i (touchFlow k w)
    \<and> whereabouts x (touchFlow k w) = whereabouts x w"
  using worker_inv_cong [of "touchFlow k w" w] fate_cong [of "touchFlow k w" w x]
  by (simp add: run_inv_def homed_def whereabouts_def)

lemma pass_tally:
  "pass env q e = Looping e' \<Longrightarrow> engine_inv e \<Longrightarrow>
     engine_inv e' \<and> tally x e' = tally x e + (if q = x then 1 else 0)"
  by (auto simp: pass_def Let_def tally_def split: option.splits)

lemma hand_over_tally:
  assumes "hand_over env ctx0 done q i e = Looping e'" "engine_inv e" "input_ok q"
    "Index (esharder e) (KeyFromMeta (Meta q)) = i"
  shows "engine_inv e' \<and> tally x e' = tally x e + (if q = x then 1 else 0)"
proof -
  have i: "i < length (eworkers e)" using sharded_Index assms(2,4) by (auto simp: engine_inv_def)
  let ?w = "eworkers e ! i"
  have w: "run_inv ?w" "homed (esharder e) i ?w" using assms(2) i by (simp_all add: engine_inv_def)
  consider w' where "enqueue ctx0 done q ?w = Some (None, w')" "e' = put_worker i w' e"
    | w' er where "enqueue ctx0 done q ?w = Some (Some er, w')" "pass env q (put_worker i w' e) = Looping e'"
    using assms(1) i by (auto simp: hand_over_def split: option.splits if_splits)
  then show ?thesis
  proof cases
    case (1 w')
    then have w': "w' = ?w\<lparr>inq := inq ?w @ [q]\<rparr>" by (auto simp: enqueue_def split: option.splits if_splits)
    have "run_inv w'" "homed (esharder e) i w'" "whereabouts x w' = whereabouts x ?w + (if q = x then 1 else 0)"
      using w assms(3,4) worker_inv_cong [of w' ?w] fate_cong [of w' ?w]
      by (auto simp: w' run_inv_def homed_def whereabouts_def)
    then show ?thesis using 1(2) i assms(2) by (simp add: engine_inv_put tally_put)
  next
    case (2 w' er)
    then have "w' = ?w" by (auto simp: enqueue_def split: option.splits if_splits)
    then have "put_worker i w' e = e" by (simp add: put_worker_def)
    then show ?thesis using 2 pass_tally assms(2) by metis
  qed
qed

lemma recv_step_tally:
  assumes "recv_step env rcv ctx0 done e = Looping e'" "engine_inv e" "delivered rcv" "captured x"
  shows "engine_inv e' \<and> tally x e' = tally x e + arrival x rcv"
proof (cases rcv)
  case (RecvPkt p)
  then obtain er q where d: "DecodeIPv4TCP p = Some (er, q)" using decode_total by blast
  then have s: "seen p = q" by (simp add: seen_def)
  let ?i = "Index (esharder e) (KeyFromMeta (Meta q))"
  show ?thesis
  proof (cases er)
    case None
    then have q: "valid_tcp4 (Data p)" "q = p\<lparr>Meta := decoded_meta (Data p)\<rparr>" using d decode_okD by blast+
    then have ok: "input_ok q" using assms(3) RecvPkt by (simp add: input_ok_def decoded_def captured_def)
    have i: "?i < length (eworkers e)" using sharded_Index assms(2) by (auto simp: engine_inv_def)
    then have w: "run_inv (eworkers e ! ?i)" "homed (esharder e) ?i (eworkers e ! ?i)"
      using assms(2) by (auto simp: engine_inv_def)
    let ?t = "put_worker ?i (touchFlow (KeyFromMeta (Meta q)) (eworkers e ! ?i)) e"
    have t: "engine_inv ?t" "tally x ?t = tally x e"
      using touch_inv [OF w] i assms(2) by (simp_all add: engine_inv_put tally_put)
    have "pass env q e = Looping e' \<or> pass env q ?t = Looping e' \<or> hand_over env ctx0 done q ?i e = Looping e'"
      using assms(1) i by (auto simp: RecvPkt recv_step_def d None Let_def split: if_splits)
    then show ?thesis
      using pass_tally [of env q e e' x] pass_tally [of env q ?t e' x] t assms(2)
        hand_over_tally [of env ctx0 "done" q ?i e e' x] ok by (auto simp: RecvPkt s)
  next
    case (Some er')
    then have "pass env q e = Looping e'" using assms(1) d by (simp add: RecvPkt recv_step_def)
    then show ?thesis using pass_tally assms(2) by (simp add: RecvPkt s)
  qed
next
  case RecvNil
  then show ?thesis using assms by (simp add: recv_step_def)
next
  case (RecvErr er)
  then show ?thesis using assms by (simp add: recv_step_def)
qed

text \<open>\<^verbatim>\<open>Run\<close> has not begun to stop.\<close>

definition up :: "running \<Rightarrow> bool" where
  "up s \<longleftrightarrow> recvGo s = RecvRunning \<and> mainGo s = Selecting \<and> (\<forall>g\<in>set (gos s). g = WorkerLoop)
     \<and> length (gos s) = length (eworkers (eng s))"

fun arrived :: "packet \<Rightarrow> act list \<Rightarrow> int" where
  "arrived x [] = 0"
| "arrived x (RecvRound rcv _ _ # as) = arrival x rcv + arrived x as"
| "arrived x (_ # as) = arrived x as"

fun deliveries :: "act list \<Rightarrow> bool" where
  "deliveries [] = True"
| "deliveries (RecvRound rcv _ _ # as) = (delivered rcv \<and> deliveries as)"
| "deliveries (_ # as) = deliveries as"

lemma recv_step_length:
  "recv_step env rcv ctx0 done e = Looping e' \<or> recv_step env rcv ctx0 done e = Stopped er e'
    \<Longrightarrow> length (eworkers e') = length (eworkers e)"
  by (auto simp: recv_step_def pass_def hand_over_def Let_def split: received.splits option.splits if_splits prod.splits)

lemma cancel_ctx_simps [simp]:
  "eng (cancel_ctx s) = eng s" "gos (cancel_ctx s) = gos s" "recvGo (cancel_ctx s) = recvGo s"
  "mainGo (cancel_ctx s) = mainGo s" "workerErrCh (cancel_ctx s) = workerErrCh s"
  by (simp_all add: cancel_ctx_def)

lemma offer_err_simps [simp]:
  "eng (offer_err er s) = eng s" "gos (offer_err er s) = gos s" "recvGo (offer_err er s) = recvGo s"
  "mainGo (offer_err er s) = mainGo s"
  by (simp_all add: offer_err_def)

lemma reload_tally:
  "engine_inv e \<Longrightarrow> engine_inv (snd (Reload c e)) \<and> tally x (snd (Reload c e)) = tally x e
     \<and> length (eworkers (snd (Reload c e))) = length (eworkers e)"
proof -
  assume e: "engine_inv e"
  let ?e = "e\<lparr>ecfg := c, eworkers := map (setConfig c) (eworkers e)\<rparr>"
  have w: "run_inv (setConfig c w) = run_inv w" "homed sh i (setConfig c w) = homed sh i w"
    "whereabouts x (setConfig c w) = whereabouts x w" for w sh i
    using worker_inv_cong [of "setConfig c w" w] fate_cong [of "setConfig c w" w]
    by (simp_all add: setConfig_def run_inv_def homed_def whereabouts_def)
  have "engine_inv ?e \<and> tally x ?e = tally x e"
    using e by (simp add: engine_inv_def sharded_def w tally_def comp_def)
  then show ?thesis using e by (auto simp: Reload_def Let_def split: option.split)
qed

lemma worker_round_tally:
  assumes env: "env_ok env" and s: "worker_round env i ch s = Some s'" "up s'" "up s \<Longrightarrow> engine_inv (eng s)"
  shows "up s \<and> engine_inv (eng s') \<and> (captured x \<longrightarrow> tally x (eng s') = tally x (eng s))"
proof -
  have i: "i < length (gos s)" "gos s ! i = WorkerLoop" using s(1) by (auto simp: worker_round_def split: if_splits)
  consider (run) w where "run_step env ch (eworkers (eng s) ! i) = Running w" "s' = s\<lparr>eng := put_worker i w (eng s)\<rparr>"
    | (ret) e where "gos s' = (gos s)[i := WorkerReturned e]"
    using s(1) by (auto simp: worker_round_def Let_def split: if_splits progress.splits)
  then show ?thesis
  proof cases
    case (run w)
    have u: "up s" using s(2) by (simp add: run(2) up_def)
    then have e: "engine_inv (eng s)" "i < length (eworkers (eng s))" using s(3) i by (simp_all add: up_def)
    then have "run_inv (eworkers (eng s) ! i)" "homed (esharder (eng s)) i (eworkers (eng s) ! i)"
      by (simp_all add: engine_inv_def)
    then show ?thesis
      using run_step_Running [OF env _ run(1)] run_step_homed [OF env _ run(1)] e u
      by (simp add: run(2) engine_inv_put tally_put)
  next
    case (ret e)
    then have "WorkerReturned e \<in> set (gos s')" using i(1) by (simp add: set_update_memI)
    then show ?thesis using s(2) by (auto simp: up_def)
  qed
qed

lemma act_step_tally:
  assumes env: "env_ok env" and s: "act_step env a s = Some s'" "up s'" "deliveries [a]" "captured x"
    and inv: "up s \<Longrightarrow> engine_inv (eng s)"
  shows "up s \<and> engine_inv (eng s') \<and> tally x (eng s') = tally x (eng s) + arrived x [a]"
proof (cases a)
  case (RecvRound rcv early taken)
  then obtain e' where r: "recv_step env rcv (if early then None else ctxErr s) (if taken then ctxErr s else None) (eng s) = Looping e'"
    "s' = s\<lparr>eng := e'\<rparr>" using s(1,2) by (auto simp: recv_round_def up_def split: loop.splits if_splits)
  then have u: "up s" using recv_step_length [of env rcv _ _ "eng s" e'] s(2) by (auto simp: up_def)
  show ?thesis using recv_step_tally [OF r(1) inv [OF u] _ s(4)] s(3) u by (simp add: RecvRound r(2))
next
  case (WorkerRound i ch)
  then show ?thesis using worker_round_tally [OF env _ s(2) inv] s by simp
next
  case (WorkerFlush i fctx co order)
  then obtain err where "gos s ! i = WorkerReturned err" "i < length (gos s)" "gos s' = (gos s)[i := WorkerFinished]"
    using s(1) by (auto simp: worker_flush_def Let_def split: if_splits goroutine.splits prod.splits option.splits)
  then have "WorkerFinished \<in> set (gos s')" by (simp add: set_update_memI)
  then show ?thesis using s(2) by (auto simp: up_def)
next
  case (DoReload c)
  then have s': "s' = s\<lparr>eng := snd (Reload c (eng s))\<rparr>" using s(1) by simp
  have "length (eworkers (snd (Reload c (eng s)))) = length (eworkers (eng s))"
    by (auto simp: Reload_def Let_def split: option.split)
  then have "up s" using s(2) by (simp add: s' up_def)
  then show ?thesis using reload_tally [OF inv] by (simp add: s' DoReload)
qed (use s inv in \<open>auto simp: main_select_def up_def split: main_state.splits recv_state.splits option.splits if_splits\<close>)

lemma Run_tally:
  assumes env: "env_ok env" and x: "captured x"
  shows "Run env as s = Some s' \<Longrightarrow> up s' \<Longrightarrow> deliveries as \<Longrightarrow> (up s \<Longrightarrow> engine_inv (eng s)) \<Longrightarrow>
    up s \<and> engine_inv (eng s') \<and> tally x (eng s') = tally x (eng s) + arrived x as"
proof (induction as arbitrary: s)
  case (Cons a as)
  then obtain s1 where s1: "act_step env a s = Some s1" "Run env as s1 = Some s'" by (auto split: option.splits)
  have d: "deliveries [a]" "deliveries as" "arrived x (a # as) = arrived x [a] + arrived x as"
    using Cons.prems(3) by (cases a; simp)+
  note a = act_step_tally [OF env s1(1) _ d(1) x Cons.prems(4)]
  note r = Cons.IH [OF s1(2) Cons.prems(2) d(2)]
  show ?case using a r d(3) by auto
qed simp

lemma engine_new_inv:
  assumes "WorkerCount c < 2 ^ 63"
  shows "engine_inv (Engine_New c)" "tally x (Engine_New c) = 0"
proof -
  have "run_inv (newWorker i c)" "homed sh i (newWorker i c)" "whereabouts x (newWorker i c) = 0" for i sh
    using newWorker_inv [of i c] by (simp_all add: run_inv_def homed_def whereabouts_def fate_def newWorker_def Let_def)
  then show "engine_inv (Engine_New c)" "tally x (Engine_New c) = 0"
    using assms by (auto simp: engine_inv_def sharded_def Engine_New_def Let_def Workers_def tally_def comp_def)
qed

lemma up_start: "engine_inv e \<Longrightarrow> up (Run_start e)"
  by (simp add: up_def Run_start_def)

lemma Run_from_start:
  assumes "env_ok env" "WorkerCount c < 2 ^ 63" "Run env as (Run_start (Engine_New c)) = Some s" "up s" "deliveries as"
  shows "engine_inv (eng s) \<and> (captured x \<longrightarrow> tally x (eng s) = arrived x as)"
proof -
  have e: "engine_inv (eng (Run_start (Engine_New c)))" "tally x (eng (Run_start (Engine_New c))) = 0"
    using engine_new_inv [OF assms(2)] by (simp_all add: Run_start_def)
  obtain y where y: "captured y" by (rule that [of "\<lparr>Data = [], Addr = [], Meta = undefined, Source = SourceCaptured, NFQID = 0\<rparr>"]) (simp add: captured_def)
  show ?thesis
    using Run_tally [OF assms(1) _ assms(3,4,5) e(1)] y e(2) by auto
qed

text \<open>Two workers take the parts of a ClientHello and a packet of another flow.\<close>

definition other_flow :: packet where
  "other_flow = (let p = sample_packet 7 0x18 [1, 2] in p\<lparr>Data := (Data p)[21 := 0x41]\<rparr>)"

definition sample_acts :: "act list" where
  "sample_acts = [RecvRound (RecvPkt (sample_packet 100 0x18 [22, 3, 1, 0, 4, 1])) False False,
     RecvRound (RecvPkt other_flow) False False, RecvRound (RecvPkt (sample_packet 120 0x18 [8, 9])) True False,
     WorkerRound (Index (NewSharder 4) test_key) take_in]"

definition sample_state :: running where
  "sample_state = the (Run ok_env sample_acts (Run_start (Engine_New test_config)))"

lemma sample_run:
  "Run ok_env sample_acts (Run_start (Engine_New test_config)) = Some sample_state"
  "up sample_state" "deliveries sample_acts" "WorkerCount test_config < 2 ^ 63"
proof -
  have "Run ok_env sample_acts (Run_start (Engine_New test_config)) \<noteq> None" by code_simp
  then show "Run ok_env sample_acts (Run_start (Engine_New test_config)) = Some sample_state"
    by (simp add: sample_state_def)
  show "up sample_state" by code_simp
  show "deliveries sample_acts"
    by (simp add: sample_acts_def captured_def sample_packet_def other_flow_def Let_def)
  show "WorkerCount test_config < 2 ^ 63" by (simp add: test_config_def DefaultConfig_def)
qed

text \<open>C1. No captured packet is lost or duplicated by the whole engine: as long as \<^verbatim>\<open>Run\<close> has not
  begun to stop, and whatever the interleaving of the receive loop, the workers' loops, their
  collections and reloads, each packet that has arrived as often as it did has been passed on
  by the receive loop, released by a worker (sent or dropped after injection), is held in a
  flow or waits in a queue, exactly that many times.\<close>

theorem engine_conserves_packets:
  assumes "env_ok env" "WorkerCount c < 2 ^ 63" "Run env as (Run_start (Engine_New c)) = Some s" "up s"
    and "deliveries as" "Source x \<noteq> SourceInjected"
  shows "int (count_list (released (esent (eng s))) x) + (\<Sum>w\<leftarrow>eworkers (eng s).
      int (count_list (released (calls w)) x) + total_of (\<lambda>st. int (count_list (HeldPackets st) x)) (flows w)
      + int (count_list (inq w) x)) = arrived x as"
proof -
  have "(\<lambda>st. int (count_list (HeldPackets st) x)) = held_count x" by (simp add: held_count_def fun_eq_iff)
  then show ?thesis
    using Run_from_start [OF assms(1-5), of x] assms(6)
    by (simp add: captured_def tally_def whereabouts_def fate_def [abs_def])
qed

lemma engine_conserves_packets_witness:
  "let x = seen (sample_packet 120 0x18 [8, 9]) in
   int (count_list (released (esent (eng sample_state))) x) + (\<Sum>w\<leftarrow>eworkers (eng sample_state).
      int (count_list (released (calls w)) x) + total_of (\<lambda>st. int (count_list (HeldPackets st) x)) (flows w)
      + int (count_list (inq w) x)) = 1"
proof -
  have "arrived (seen (sample_packet 120 0x18 [8, 9])) sample_acts = 1"
    "Source (seen (sample_packet 120 0x18 [8, 9])) \<noteq> SourceInjected" by code_simp+
  then show ?thesis
    using engine_conserves_packets [OF ok_env_ok sample_run(4,1,2,3)] by (simp add: Let_def)
qed

text \<open>C12. A flow belongs to one worker: in every state before the stop, a worker's queue and flow
  table hold packets and flows only of the keys that the sharder assigns to it, so no flow is
  tracked by two workers and a flow's packets are handled in their order of arrival.\<close>

theorem flow_affinity:
  assumes "env_ok env" "WorkerCount c < 2 ^ 63" "Run env as (Run_start (Engine_New c)) = Some s" "up s"
    and "deliveries as" "i < length (eworkers (eng s))" "j < length (eworkers (eng s))" "i \<noteq> j"
  shows "dom (Get (flows (eworkers (eng s) ! i))) \<inter> dom (Get (flows (eworkers (eng s) ! j))) = {}
    \<and> (\<forall>p\<in>set (inq (eworkers (eng s) ! i)). KeyFromMeta (Meta p) \<notin> dom (Get (flows (eworkers (eng s) ! j)))
         \<and> (\<forall>q\<in>set (inq (eworkers (eng s) ! j)). KeyFromMeta (Meta p) \<noteq> KeyFromMeta (Meta q)))"
proof -
  let ?sh = "esharder (eng s)" and ?w = "\<lambda>i. eworkers (eng s) ! i"
  have h: "homed ?sh i (?w i)" "homed ?sh j (?w j)"
    using Run_from_start [OF assms(1-5)] assms(6,7) by (simp_all add: engine_inv_def)
  have f: "Get (flows (?w i)) k = Some st \<Longrightarrow> Index ?sh k = i" "Get (flows (?w j)) k = Some st \<Longrightarrow> Index ?sh k = j" for k st
    using h by (simp_all add: homed_def)
  have q: "p \<in> set (inq (?w i)) \<Longrightarrow> Index ?sh (KeyFromMeta (Meta p)) = i"
    "p \<in> set (inq (?w j)) \<Longrightarrow> Index ?sh (KeyFromMeta (Meta p)) = j" for p
    using h by (simp_all add: homed_def)
  show ?thesis using assms(8) by (auto dest: f q) (metis q)
qed

lemma flow_affinity_witness:
  "list_all (\<lambda>p. KeyFromMeta (Meta p) \<notin> dom (Get (flows (eworkers (eng sample_state) ! 2))))
     (inq (eworkers (eng sample_state) ! 3))"
proof -
  have "length (eworkers (eng sample_state)) = 4" by code_simp
  then show ?thesis
    using flow_affinity [OF ok_env_ok sample_run(4,1,2,3), of 3 2] by (simp add: list_all_iff)
qed

end
