(* ===== verification/EngineEnd.thy ===== *)
theory EngineEnd
  imports EngineProps
begin

text \<open>
  How \<^verbatim>\<open>Run\<close> stops: the order in which the receive loop, the workers and the adapter are
  shut down, and that the failure of a worker stays on its way to the result.
\<close>

section \<open>What the steps keep\<close>

definition queue_open :: "engine \<Rightarrow> bool list" where
  "queue_open e = map (\<lambda>w. \<not> inClosed w) (eworkers e)"

lemma queue_open_put:
  "inClosed w = inClosed (eworkers e ! i) \<Longrightarrow> i < length (eworkers e) \<Longrightarrow> queue_open (put_worker i w e) = queue_open e"
  by (simp add: queue_open_def map_update list_update_same_conv)

lemma queue_open_length: "length (queue_open e) = length (eworkers e)"
  by (simp add: queue_open_def)

lemma enqueue_closed: "enqueue ctx0 dn p w = Some (e, w') \<Longrightarrow> inClosed w' = inClosed w"
  by (auto simp: enqueue_def split: option.splits if_splits)

lemma recv_step_open:
  "recv_step env rcv ctx0 dn e = Looping e' \<or> recv_step env rcv ctx0 dn e = Stopped er e' \<Longrightarrow> queue_open e' = queue_open e"
proof -
  have p: "queue_open e' = queue_open u" if "pass env q u = Looping e' \<or> pass env q u = Stopped er e'" for q u
    using that by (auto simp: pass_def Let_def queue_open_def split: option.splits)
  have h: "queue_open e' = queue_open e"
    if "hand_over env ctx0 dn q i e = Looping e' \<or> hand_over env ctx0 dn q i e = Stopped er e'" for q i
    using that p queue_open_put enqueue_closed [of ctx0 dn q "eworkers e ! i"]
    by (fastforce simp: hand_over_def split: if_splits option.splits)
  have t: "queue_open (put_worker i (touchFlow k (eworkers e ! i)) e) = queue_open e" if "i < length (eworkers e)" for i k
    using that by (intro queue_open_put) (simp_all add: touchFlow_def)
  assume "recv_step env rcv ctx0 dn e = Looping e' \<or> recv_step env rcv ctx0 dn e = Stopped er e'"
  then show ?thesis
    using p h t by (fastforce simp: recv_step_def Let_def split: received.splits option.splits prod.splits if_splits)
qed

lemma run_step_closed:
  assumes "env_ok env" "run_step env ch w = Running w' \<or> run_step env ch w = Returned e w'"
  shows "inClosed w' = inClosed w"
proof (cases ch)
  case (TakeIn c0 c1 c2 now)
  then show ?thesis
    using assms(2) handlePacket_framed [OF assms(1), of "hd (inq w)" "w\<lparr>inq := tl (inq w)\<rparr>" c0 c1 c2 now]
    by (auto simp: framed_def split: list.splits prod.splits option.splits if_splits)
next
  case (TakeTouch now)
  then show ?thesis using assms(2) by (auto simp: save_def split: list.splits option.splits if_splits)
next
  case (TakeTimer co now order)
  then show ?thesis
    using assms(2) gc_shrunk [of w env co now order] by (auto simp: shrunk_def split: prod.splits option.splits)
next
  case (TakeDone e)
  then show ?thesis using assms by simp
qed

text \<open>The errors of a flush: not a cancellation, if neither the adapter nor the flush's own context
  reports one.\<close>

definition uncancelled :: "go_error option \<Rightarrow> bool" where
  "uncancelled e \<longleftrightarrow> \<not> is_err e ContextCanceled"

definition clean_flush :: "adapter_env \<Rightarrow> (nat \<Rightarrow> go_error option) \<Rightarrow> bool" where
  "clean_flush env ctx \<longleftrightarrow> (\<forall>es p. uncancelled (env_send env es p)) \<and> (\<forall>n. uncancelled (ctx n))"

definition tidy :: "bool \<Rightarrow> bool \<Rightarrow> shutdown \<Rightarrow> bool" where
  "tidy cl b s \<longleftrightarrow> inClosed (sw s) = b \<and> (cl \<longrightarrow> uncancelled (firstErr s) \<and> uncancelled (stopErr s))"

lemma uncancelled_simps [simp]:
  "uncancelled None" "uncancelled (Some ErrShutdownFailOpenLimitReached)"
  "uncancelled (Some (ErrJoin es)) = (\<forall>e\<in>set es. uncancelled (Some e))"
  by (auto simp: uncancelled_def list_ex_iff)

lemma join_uncancelled: "uncancelled fe \<Longrightarrow> uncancelled (Some e) \<Longrightarrow> uncancelled (join_err fe e)"
  by (auto simp: join_err_def split: option.split)

lemma ctx_check_tidy:
  "ctx_check ctx s = (e, s') \<Longrightarrow> tidy cl b s \<Longrightarrow> (cl \<Longrightarrow> clean_flush env ctx) \<Longrightarrow>
    tidy cl b s' \<and> (cl \<longrightarrow> uncancelled e)"
  by (auto simp: ctx_check_def tidy_def clean_flush_def)

lemma reinject_tidy:
  "reinject env ctx mx p s = (e, s') \<Longrightarrow> tidy cl b s \<Longrightarrow> (cl \<Longrightarrow> clean_flush env ctx) \<Longrightarrow>
    tidy cl b s' \<and> (cl \<longrightarrow> uncancelled e)"
  using ctx_check_tidy [of ctx s "fst (ctx_check ctx s)" "snd (ctx_check ctx s)" cl b env]
  by (cases "env_send env (calls (sw (snd (ctx_check ctx s)))) p"; cases cl)
    (auto simp: reinject_def send_def Let_def tidy_def clean_flush_def split: option.splits if_splits prod.splits
      dest: spec2 [where P = "\<lambda>a b. uncancelled (env_send env a b)"] sym [of "Some _"])

lemma flush_held_tidy:
  "tidy cl b s \<Longrightarrow> (cl \<Longrightarrow> clean_flush env ctx) \<Longrightarrow> tidy cl b (flush_held env ctx mx ps s)"
proof (induction ps arbitrary: s)
  case (Cons p ps)
  obtain e s1 where r: "reinject env ctx mx p s = (e, s1)" by force
  then have t: "tidy cl b s1 \<and> (cl \<longrightarrow> uncancelled e)" using Cons.prems reinject_tidy by blast
  then have "tidy cl b (s1\<lparr>firstErr := e\<rparr>)" "tidy cl b (s1\<lparr>stopErr := e\<rparr>)" by (auto simp: tidy_def)
  then show ?case using r t Cons by (auto split: option.split)
qed simp

lemma drain_tidy:
  "tidy cl b s \<Longrightarrow> (cl \<Longrightarrow> clean_flush env ctx) \<Longrightarrow> drain env ctx mx q s = (e, q', s') \<Longrightarrow>
    tidy cl b s' \<and> (cl \<longrightarrow> uncancelled e)"
proof (induction q arbitrary: s)
  case Nil
  obtain e0 s0 where c: "ctx_check ctx s = (e0, s0)" by force
  then have "tidy cl b s0 \<and> (cl \<longrightarrow> uncancelled e0)" using Nil ctx_check_tidy by blast
  then show ?case using Nil(3) c
    by (subst (asm) drain.simps) (auto simp: tidy_def join_uncancelled split: option.splits if_splits)
next
  case (Cons p q)
  obtain e0 s0 where c: "ctx_check ctx s = (e0, s0)" by force
  then have t0: "tidy cl b s0 \<and> (cl \<longrightarrow> uncancelled e0)" using Cons.prems ctx_check_tidy by blast
  obtain e1 s1 where r: "reinject env ctx mx p s0 = (e1, s1)" by force
  then have t1: "tidy cl b s1 \<and> (cl \<longrightarrow> uncancelled e1)" using t0 Cons.prems reinject_tidy by blast
  then have t2: "tidy cl b (s1\<lparr>firstErr := e1\<rparr>)" by (simp add: tidy_def)
  note IH = Cons.IH [OF conjunct1 [OF t1] Cons.prems(2)] Cons.IH [OF t2 Cons.prems(2)]
  show ?case using Cons.prems(3) c r t0 t1 IH
    by (subst (asm) drain.simps) (auto simp: tidy_def join_uncancelled split: option.splits if_splits)
qed

lemma shutdown_tidy:
  assumes "shutdownFailOpen env ctx co order w = (e, w')"
  shows "inClosed w' = inClosed w \<and> (clean_flush env ctx \<longrightarrow> uncancelled e)"
proof -
  let ?cl = "clean_flush env ctx" and ?b = "inClosed w" and ?mx = "flush_limit co"
  define s0 where "s0 = \<lparr>sw = w, flushed = 0, ticks = 0, firstErr = None, stopErr = None\<rparr>"
  define s1 where "s1 = Range order (\<lambda>s. flows (sw s)) (flush_visit env ctx ?mx) s0"
  have t: "tidy ?cl ?b s1" unfolding s1_def
  proof (rule Range_induct [where P = "tidy ?cl ?b"], goal_cases)
    case (2 k st u)
    then show ?case by (simp add: flush_visit_def flush_held_tidy)
  qed (simp add: s0_def tidy_def)
  obtain e2 q s2 where d: "drain env ctx ?mx (inq w) s1 = (e2, q, s2)" by (metis prod_cases3)
  note t2 = drain_tidy [OF t _ d]
  show ?thesis
    using assms t t2 unfolding shutdownFailOpen_def Let_def s0_def [symmetric] s1_def [symmetric] d
    by (auto simp: tidy_def join_uncancelled split: option.splits)
qed

section \<open>The order of the shutdown\<close>

text \<open>The phase of the main goroutine decides what else can be going on.\<close>

definition run_ok :: "running \<Rightarrow> bool" where
  "run_ok s \<longleftrightarrow> length (gos s) = length (eworkers (eng s)) \<and> (case mainGo s of
     Selecting \<Rightarrow> recvGo s \<noteq> RecvTaken \<and> (\<forall>b\<in>set (queue_open (eng s)). b)
   | AwaitRecv _ \<Rightarrow> recvGo s \<noteq> RecvTaken \<and> (\<forall>b\<in>set (queue_open (eng s)). b)
   | Closing _ \<Rightarrow> recvGo s = RecvTaken
   | Waiting _ \<Rightarrow> recvGo s = RecvTaken \<and> (\<forall>b\<in>set (queue_open (eng s)). \<not> b)
   | Flushing _ \<Rightarrow> recvGo s = RecvTaken \<and> (\<forall>b\<in>set (queue_open (eng s)). \<not> b) \<and> (\<forall>g\<in>set (gos s). g = WorkerFinished)
   | Finished _ \<Rightarrow> recvGo s = RecvTaken \<and> (\<forall>b\<in>set (queue_open (eng s)). \<not> b) \<and> (\<forall>g\<in>set (gos s). g = WorkerFinished))"

lemma run_okI:
  assumes "run_ok s" "mainGo s' = mainGo s" "queue_open (eng s') = queue_open (eng s)"
    "length (gos s') = length (gos s)" "recvGo s' \<noteq> RecvTaken \<longleftrightarrow> recvGo s \<noteq> RecvTaken"
    "gos s' = gos s \<or> (\<exists>g\<in>set (gos s). g \<noteq> WorkerFinished)"
  shows "run_ok s'"
proof -
  have "length (eworkers (eng s')) = length (eworkers (eng s))"
    using arg_cong [OF assms(3), of length] by (simp add: queue_open_length)
  then show ?thesis using assms by (auto simp: run_ok_def split: main_state.splits)
qed

lemma reload_open: "queue_open (snd (Reload c e)) = queue_open e"
  by (auto simp: Reload_def Let_def queue_open_def setConfig_def split: option.split)

lemma main_select_cases:
  assumes "main_select b s = Some s'"
  obtains (worker) er where "mainGo s = Selecting" "workerErrCh s = Some er"
      "s' = cancel_ctx (s\<lparr>workerErrCh := None, mainGo := AwaitRecv er\<rparr>)"
  | (recv) er where "mainGo s = Selecting" "recvGo s = RecvReturned er"
      "s' = cancel_ctx (s\<lparr>recvGo := RecvTaken, mainGo := Closing er\<rparr>)"
  | (await) er er' where "mainGo s = AwaitRecv er" "recvGo s = RecvReturned er'"
      "s' = s\<lparr>recvGo := RecvTaken, mainGo := Closing er\<rparr>"
  using assms unfolding main_select_def
  by (cases "mainGo s"; cases b; cases "recvGo s"; cases "workerErrCh s") auto

lemma act_step_ok:
  assumes env: "env_ok env" and ok: "run_ok s" and s: "act_step env a s = Some s'"
  shows "run_ok s'"
proof (cases a)
  case (RecvRound rcv early taken)
  then show ?thesis
    using s by (intro run_okI [OF ok]) (auto simp: recv_round_def split: loop.splits if_splits
      intro: recv_step_open [OF disjI1] recv_step_open [OF disjI2])
next
  case (WorkerRound i ch)
  then have i: "i < length (gos s)" "gos s ! i = WorkerLoop" using s by (auto simp: worker_round_def split: if_splits)
  then have "i < length (eworkers (eng s))" using ok by (simp add: run_ok_def)
  then show ?thesis
    using s WorkerRound i nth_mem [OF i(1)]
    by (intro run_okI [OF ok])
      (auto simp: worker_round_def Let_def split: if_splits progress.splits intro!: bexI [of _ WorkerLoop]
        intro: queue_open_put [OF run_step_closed [OF env disjI1]] queue_open_put [OF run_step_closed [OF env disjI2]])
next
  case (WorkerFlush i fctx co order)
  then obtain err where i: "gos s ! i = WorkerReturned err" "i < length (gos s)"
    using s by (auto simp: worker_flush_def split: if_splits goroutine.splits)
  then have l: "i < length (eworkers (eng s))" using ok by (simp add: run_ok_def)
  obtain fe w where f: "shutdownFailOpen env fctx co order (eworkers (eng s) ! i) = (fe, w)" by force
  have q: "queue_open (put_worker i w (eng s)) = queue_open (eng s)"
    using shutdown_tidy [OF f] l by (intro queue_open_put) simp_all
  have "eng s' = put_worker i w (eng s) \<and> gos s' = (gos s)[i := WorkerFinished] \<and> recvGo s' = recvGo s \<and> mainGo s' = mainGo s"
    using s i f by (auto simp: WorkerFlush worker_flush_def Let_def split: option.splits if_splits)
  then show ?thesis using i nth_mem [OF i(2)] q by (intro run_okI [OF ok]) (auto intro!: bexI [of _ "WorkerReturned err"])
next
  case (DoReload c)
  then show ?thesis using s by (intro run_okI [OF ok]) (auto simp: reload_open)
next
  case (EndContext er)
  then show ?thesis using s by (intro run_okI [OF ok]) (auto split: if_splits)
next
  case MainCloseQueues
  then show ?thesis using s ok by (auto simp: run_ok_def close_all_def close_worker_def queue_open_def split: main_state.splits)
next
  case MainWait
  then show ?thesis using s ok by (auto simp: run_ok_def list_all_iff split: main_state.splits if_splits)
next
  case (MainFlush fe)
  then show ?thesis using s ok by (auto simp: run_ok_def split: main_state.splits if_splits)
next
  case MainTakeWorkerErr
  then have "main_select True s = Some s'" using s by simp
  then show ?thesis using ok by (cases rule: main_select_cases) (auto simp: run_ok_def)
next
  case MainTakeRecvErr
  then have "main_select False s = Some s'" using s by simp
  then show ?thesis using ok by (cases rule: main_select_cases) (auto simp: run_ok_def)
qed

lemma Run_ok: "env_ok env \<Longrightarrow> run_ok s \<Longrightarrow> Run env as s = Some s' \<Longrightarrow> run_ok s'"
  by (induction as arbitrary: s) (auto split: option.splits intro: act_step_ok)

lemma Run_append: "Run env (as @ bs) s = (case Run env as s of None \<Rightarrow> None | Some s' \<Rightarrow> Run env bs s')"
  by (induction as arbitrary: s) (auto split: option.split)

lemma start_ok: "run_ok (Run_start (Engine_New c))"
  by (auto simp: run_ok_def Run_start_def Engine_New_def Let_def queue_open_def newWorker_def)

text \<open>C8. The shutdown happens in order, in every interleaving: as long as the receive loop runs
  no worker queue is closed, so \<^verbatim>\<open>enqueue\<close> never sends on a closed channel; and when the
  adapter is flushed and closed, the receive loop has ended, the queues are closed, and every
  worker's goroutine has finished its own flush.\<close>

theorem shutdown_in_order:
  assumes "env_ok env" "Run env as (Run_start (Engine_New c)) = Some s"
  shows "(recvGo s = RecvRunning \<longrightarrow> (\<forall>w\<in>set (eworkers (eng s)). \<not> inClosed w))
    \<and> (\<forall>er r. mainGo s = Flushing er \<or> mainGo s = Finished r \<longrightarrow> recvGo s = RecvTaken
         \<and> (\<forall>w\<in>set (eworkers (eng s)). inClosed w) \<and> (\<forall>g\<in>set (gos s). g = WorkerFinished))"
  using Run_ok [OF assms(1) start_ok assms(2)]
  by (auto simp: run_ok_def queue_open_def split: main_state.splits)

text \<open>The context ends, the receive loop returns its error, and the workers and the adapter stop.\<close>

definition stop_acts :: "act list" where
  "stop_acts = sample_acts @ [EndContext ContextCanceled, RecvRound (RecvErr ContextCanceled) False False, MainTakeRecvErr,
     MainCloseQueues]
   @ concat (map (\<lambda>i. [WorkerRound i (TakeDone ContextCanceled), WorkerFlush i (\<lambda>_. None) (Some test_config) [test_key]]) [0..<4])
   @ [MainWait, MainFlush None]"

definition stopped_state :: running where
  "stopped_state = the (Run ok_env stop_acts (Run_start (Engine_New test_config)))"

lemma stop_run: "Run ok_env stop_acts (Run_start (Engine_New test_config)) = Some stopped_state"
  "mainGo stopped_state = Finished None"
proof -
  have "Run ok_env stop_acts (Run_start (Engine_New test_config)) \<noteq> None" by code_simp
  then show "Run ok_env stop_acts (Run_start (Engine_New test_config)) = Some stopped_state"
    by (simp add: stopped_state_def)
  show "mainGo stopped_state = Finished None" by code_simp
qed

lemma shutdown_in_order_witness:
  "recvGo stopped_state = RecvTaken \<and> list_all inClosed (eworkers (eng stopped_state))"
  using shutdown_in_order [OF ok_env_ok stop_run(1)] stop_run(2) by (auto simp: list_all_iff)

section \<open>Failures are reported\<close>

text \<open>No cancellation comes out of the flushes.\<close>

definition honest :: "adapter_env \<Rightarrow> act \<Rightarrow> bool" where
  "honest env a = (case a of WorkerFlush i fctx co order \<Rightarrow> clean_flush env fctx
     | MainFlush fe \<Rightarrow> uncancelled fe | _ \<Rightarrow> True)"

text \<open>The failure of worker \<^term>\<open>i\<close> is on its way: in its goroutine, in the channel, or with the
  main goroutine.\<close>

definition reporting :: "nat \<Rightarrow> running \<Rightarrow> bool" where
  "reporting i s \<longleftrightarrow> (i < length (gos s) \<and> (\<exists>er. gos s ! i = WorkerReturned (Some er) \<and> fatal (Some er)))
     \<or> workerErrCh s \<noteq> None \<and> (\<forall>r. mainGo s \<noteq> Finished r)
     \<or> (case mainGo s of Selecting \<Rightarrow> False | Finished r \<Rightarrow> r \<noteq> None
         | AwaitRecv er \<Rightarrow> fatal (Some er) | Closing er \<Rightarrow> fatal (Some er)
         | Waiting er \<Rightarrow> fatal (Some er) | Flushing er \<Rightarrow> fatal (Some er))"

definition channel_fatal :: "running \<Rightarrow> bool" where
  "channel_fatal s \<longleftrightarrow> workerErrCh s = None \<or> fatal (workerErrCh s)"

lemma fatal_join:
  "fatal (Some er) \<Longrightarrow> uncancelled fe \<Longrightarrow> fatal (flush_join ex (Some er) fe)"
  by (auto simp: flush_join_def unexcused_def fatal_def uncancelled_def split: option.split)

lemma flush_join_Some: "flush_join ex (Some er) fe \<noteq> None"
  by (auto simp: flush_join_def split: option.split)

lemma main_finish_fails:
  "uncancelled fe \<Longrightarrow> late = None \<or> fatal late \<Longrightarrow> fatal (Some er) \<or> late \<noteq> None \<Longrightarrow> main_finish er fe late \<noteq> None"
  using fatal_join [of er fe adapter_excused] flush_join_Some [of adapter_excused er fe]
  by (auto simp: main_finish_def Let_def fatal_def split: option.splits)

lemma reporting_cong:
  "workerErrCh s' = workerErrCh s \<Longrightarrow> mainGo s' = mainGo s \<Longrightarrow> gos s' = gos s \<Longrightarrow> reporting i s' = reporting i s"
  by (simp add: reporting_def)

lemma act_step_reports:
  assumes ok: "run_ok s" "channel_fatal s" and s: "act_step env a s = Some s'" "honest env a"
  shows "channel_fatal s' \<and> (reporting i s \<longrightarrow> reporting i s')"
proof (cases a)
  case (RecvRound rcv early taken)
  then have "workerErrCh s' = workerErrCh s" "mainGo s' = mainGo s" "gos s' = gos s"
    using s by (auto simp: recv_round_def split: loop.splits if_splits)
  then show ?thesis using ok reporting_cong [of s' s i] by (simp add: channel_fatal_def)
next
  case (WorkerRound j ch)
  then have j: "j < length (gos s)" "gos s ! j = WorkerLoop" using s by (auto simp: worker_round_def split: if_splits)
  have "workerErrCh s' = workerErrCh s \<and> mainGo s' = mainGo s \<and> (\<forall>i < length (gos s). i \<noteq> j \<longrightarrow> gos s' ! i = gos s ! i)
      \<and> length (gos s') = length (gos s)"
    using s WorkerRound by (auto simp: worker_round_def Let_def split: if_splits progress.splits)
  then show ?thesis using ok j by (auto simp: channel_fatal_def reporting_def)
next
  case (WorkerFlush j fctx co order)
  then obtain err where j: "gos s ! j = WorkerReturned err" "j < length (gos s)"
    using s by (auto simp: worker_flush_def split: if_splits goroutine.splits)
  obtain fe w where f: "shutdownFailOpen env fctx co order (eworkers (eng s) ! j) = (fe, w)" by force
  have u: "uncancelled fe" using shutdown_tidy [OF f] s(2) WorkerFlush by (simp add: honest_def)
  have m: "\<forall>r. mainGo s \<noteq> Finished r" using ok(1) j nth_mem [OF j(2)] by (auto simp: run_ok_def)
  define err' where "err' = flush_join worker_excused err fe"
  have s': "workerErrCh s' = (if fatal err' \<and> workerErrCh s = None then err' else workerErrCh s)"
    "mainGo s' = mainGo s" "gos s' = (gos s)[j := WorkerFinished]"
    using s j f by (auto simp: WorkerFlush worker_flush_def Let_def err'_def [symmetric] offer_err_def fatal_def
        split: option.splits if_splits)
  have "fatal err'" if "err = Some er" "fatal (Some er)" for er
    using fatal_join [OF that(2) u] that(1) by (simp add: err'_def)
  then show ?thesis using ok(2) m s' j by (auto simp: channel_fatal_def reporting_def nth_list_update fatal_def split: if_splits)
next
  case (MainFlush fe)
  then obtain er where "mainGo s = Flushing er" "mainGo s' = Finished (main_finish er fe (workerErrCh s))"
    "workerErrCh s' = None \<or> workerErrCh s' = workerErrCh s" "gos s' = gos s"
    using s by (auto split: main_state.splits)
  moreover have "uncancelled fe" using s MainFlush by (simp add: honest_def)
  ultimately show ?thesis
    using ok main_finish_fails [of fe "workerErrCh s" er] by (auto simp: channel_fatal_def reporting_def)
next
  case MainTakeWorkerErr
  then have "main_select True s = Some s'" using s by simp
  then show ?thesis using ok by (cases rule: main_select_cases) (auto simp: channel_fatal_def reporting_def)
next
  case MainTakeRecvErr
  then have "main_select False s = Some s'" using s by simp
  then show ?thesis using ok by (cases rule: main_select_cases) (auto simp: channel_fatal_def reporting_def)
next
  case (EndContext er)
  then have "workerErrCh s' = workerErrCh s" "mainGo s' = mainGo s" "gos s' = gos s" using s by (auto split: if_splits)
  then show ?thesis using ok reporting_cong [of s' s i] by (simp add: channel_fatal_def)
next
  case (DoReload c)
  then have "workerErrCh s' = workerErrCh s" "mainGo s' = mainGo s" "gos s' = gos s" using s by auto
  then show ?thesis using ok reporting_cong [of s' s i] by (simp add: channel_fatal_def)
next
  case MainCloseQueues
  then obtain er where "mainGo s = Closing er" "mainGo s' = Waiting er" "workerErrCh s' = workerErrCh s" "gos s' = gos s"
    using s by (auto split: main_state.splits)
  then show ?thesis using ok by (simp add: channel_fatal_def reporting_def)
next
  case MainWait
  then obtain er where "mainGo s = Waiting er" "mainGo s' = Flushing er" "workerErrCh s' = workerErrCh s" "gos s' = gos s"
    using s by (auto split: main_state.splits if_splits)
  then show ?thesis using ok by (simp add: channel_fatal_def reporting_def)
qed

lemma Run_reports:
  assumes env: "env_ok env"
  shows "run_ok s \<Longrightarrow> channel_fatal s \<Longrightarrow> Run env as s = Some s' \<Longrightarrow> list_all (honest env) as
    \<Longrightarrow> channel_fatal s' \<and> (reporting i s \<longrightarrow> reporting i s')"
proof (induction as arbitrary: s)
  case (Cons a as)
  then obtain s1 where s1: "act_step env a s = Some s1" "Run env as s1 = Some s'" by (auto split: option.splits)
  have h: "honest env a" "list_all (honest env) as" using Cons.prems(4) by simp_all
  note ok = act_step_ok [OF env Cons.prems(1) s1(1)]
  note r = act_step_reports [OF Cons.prems(1,2) s1(1) h(1), of i]
  show ?case using Cons.IH [OF ok conjunct1 [OF r] s1(2) h(2)] r by simp
qed simp

end
