(* ===== verification/EngineFailure.thy ===== *)
theory EngineFailure
  imports EngineEnd
begin

text \<open>
  What becomes of a worker's failure: the engine stops, the stop can always be completed, and
  \<^verbatim>\<open>Run\<close> returns an error that some loop or flush of this run really ended with.
\<close>

section \<open>Where the errors come from\<close>

text \<open>Where errors come from: a loop's own end, and the flush of a worker or of the adapter.\<close>

definition ended_with :: "act \<Rightarrow> running \<Rightarrow> go_error set" where
  "ended_with a s' = (case a of
     RecvRound rcv early taken \<Rightarrow> (case recvGo s' of RecvReturned er \<Rightarrow> {er} | _ \<Rightarrow> {})
   | WorkerRound i ch \<Rightarrow> (case gos s' ! i of WorkerReturned (Some er) \<Rightarrow> {er} | _ \<Rightarrow> {})
   | _ \<Rightarrow> {})"

definition flush_failed :: "adapter_env \<Rightarrow> act \<Rightarrow> running \<Rightarrow> go_error set" where
  "flush_failed env a s = (case a of
     WorkerFlush i fctx co order \<Rightarrow> set_option (fst (shutdownFailOpen env fctx co order (eworkers (eng s) ! i)))
   | MainFlush fe \<Rightarrow> set_option fe
   | _ \<Rightarrow> {})"

fun loop_errors :: "adapter_env \<Rightarrow> act list \<Rightarrow> running \<Rightarrow> go_error set" where
  "loop_errors env [] s = {}"
| "loop_errors env (a # as) s = (case act_step env a s of None \<Rightarrow> {} | Some s' \<Rightarrow> ended_with a s' \<union> loop_errors env as s')"

fun flush_errors :: "adapter_env \<Rightarrow> act list \<Rightarrow> running \<Rightarrow> go_error set" where
  "flush_errors env [] s = {}"
| "flush_errors env (a # as) s = (case act_step env a s of None \<Rightarrow> {} | Some s' \<Rightarrow> flush_failed env a s \<union> flush_errors env as s')"

text \<open>The errors that can be made of these: themselves, and one joined with that of a later flush.\<close>

inductive_set made :: "go_error set \<Rightarrow> go_error set \<Rightarrow> go_error set" for L F where
  Loop: "e \<in> L \<Longrightarrow> e \<in> made L F"
| Flush: "f \<in> F \<Longrightarrow> f \<in> made L F"
| Join: "e \<in> made L F \<Longrightarrow> f \<in> F \<Longrightarrow> ErrJoin [e, f] \<in> made L F"

lemma made_mono: "L \<subseteq> L' \<Longrightarrow> F \<subseteq> F' \<Longrightarrow> e \<in> made L F \<Longrightarrow> e \<in> made L' F'"
proof -
  assume s: "L \<subseteq> L'" "F \<subseteq> F'" and "e \<in> made L F"
  from this(3) show ?thesis by (induction rule: made.induct) (use s in \<open>auto intro: made.intros\<close>)
qed

lemma made_no_flush: "e \<in> made L {} \<Longrightarrow> e \<in> L"
  by (induction rule: made.induct) simp_all

lemma flush_join_made:
  "flush_join ex err fe = Some e \<Longrightarrow> set_option err \<subseteq> made L F \<Longrightarrow> set_option fe \<subseteq> F \<Longrightarrow> e \<in> made L F"
  by (auto simp: flush_join_def unexcused_def split: option.splits if_splits intro: made.intros)

text \<open>Every error that is on its way was raised, and the context of a failed worker has ended.\<close>

definition main_error :: "main_state \<Rightarrow> go_error set" where
  "main_error m = (case m of Selecting \<Rightarrow> {} | AwaitRecv er \<Rightarrow> {er} | Closing er \<Rightarrow> {er} | Waiting er \<Rightarrow> {er}
     | Flushing er \<Rightarrow> {er} | Finished r \<Rightarrow> set_option r)"

definition traced :: "go_error set \<Rightarrow> go_error set \<Rightarrow> running \<Rightarrow> bool" where
  "traced L F s \<longleftrightarrow> (\<forall>e. WorkerReturned (Some e) \<in> set (gos s) \<longrightarrow> e \<in> L \<and> (fatal (Some e) \<longrightarrow> ctxErr s \<noteq> None))
     \<and> (\<forall>e. recvGo s = RecvReturned e \<longrightarrow> e \<in> L)
     \<and> set_option (workerErrCh s) \<union> main_error (mainGo s) \<subseteq> made L F
     \<and> (\<forall>r. mainGo s = Finished r \<longrightarrow> uncancelled r)"

lemma traced_more:
  assumes "traced L F s" "gos s' = gos s" "ctxErr s' = ctxErr s \<or> ctxErr s' \<noteq> None" "workerErrCh s' = workerErrCh s" "mainGo s' = mainGo s"
    and "L \<subseteq> L'" "F \<subseteq> F'" "\<forall>e. recvGo s' = RecvReturned e \<longrightarrow> e \<in> L'"
  shows "traced L' F' s'"
  using assms(1-5,8) subsetD [OF assms(6)] made_mono [OF assms(6,7)] unfolding traced_def by auto

lemma main_finish_uncancelled: "uncancelled (main_finish er fe late)"
  by (simp add: main_finish_def Let_def uncancelled_def)

lemma main_finish_made:
  assumes "main_finish er fe late = Some e" "er \<in> made L F" "set_option late \<subseteq> made L F" "set_option fe \<subseteq> F"
  shows "e \<in> made L F"
proof -
  have "set_option (flush_join adapter_excused (Some er) fe) \<subseteq> made L F"
    using flush_join_made [of adapter_excused "Some er" fe] assms(2,4) by auto
  then show ?thesis using assms(1,3) by (auto simp: main_finish_def Let_def split: if_splits option.splits)
qed

lemma cancel_ctx_fields [simp]:
  "gos (cancel_ctx s) = gos s" "workerErrCh (cancel_ctx s) = workerErrCh s" "mainGo (cancel_ctx s) = mainGo s"
  "recvGo (cancel_ctx s) = recvGo s" "eng (cancel_ctx s) = eng s" "\<exists>e. ctxErr (cancel_ctx s) = Some e"
  by (simp_all add: cancel_ctx_def split: option.split)

lemma act_step_traced:
  assumes t: "traced L F s" and s: "act_step env a s = Some s'"
  shows "traced (L \<union> ended_with a s') (F \<union> flush_failed env a s) s'"
proof (cases a)
  case (RecvRound rcv early taken)
  then show ?thesis using s t
    by (intro traced_more [OF t]) (auto simp: recv_round_def ended_with_def traced_def split: loop.splits if_splits)
next
  case (EndContext er)
  then show ?thesis using s t by (intro traced_more [OF t]) (auto simp: traced_def split: if_splits)
next
  case (DoReload c)
  then show ?thesis using s t by (intro traced_more [OF t]) (auto simp: traced_def)
next
  case (WorkerRound i ch)
  then have i: "i < length (gos s)" using s by (auto simp: worker_round_def split: if_splits)
  obtain g where g: "gos s' = (gos s)[i := g]" "workerErrCh s' = workerErrCh s" "mainGo s' = mainGo s" "recvGo s' = recvGo s"
    "ctxErr s' = ctxErr s \<or> ctxErr s' \<noteq> None" "g = WorkerLoop \<or> (\<exists>e. g = WorkerReturned e \<and> (fatal e \<longrightarrow> ctxErr s' \<noteq> None))"
  proof (cases "run_step env ch (eworkers (eng s) ! i)")
    case (Running w)
    then have l: "gos s ! i = WorkerLoop" and s': "s' = s\<lparr>eng := put_worker i w (eng s)\<rparr>"
      using s WorkerRound by (auto simp: worker_round_def split: if_splits)
    have "gos s' = gos s" by (simp add: s')
    also have "gos s = (gos s)[i := WorkerLoop]" using list_update_id [of "gos s" i] l by simp
    finally show ?thesis by (rule that) (simp_all add: s')
  next
    case (Returned e w)
    then show ?thesis using s WorkerRound that [of "WorkerReturned e"] by (auto simp: worker_round_def Let_def split: if_splits)
  qed (use s WorkerRound in \<open>auto simp: worker_round_def split: if_splits\<close>)
  have n: "gos s' ! i = g" using g(1) i by simp
  have "set (gos s') \<subseteq> insert g (set (gos s))" using g(1) set_update_subset_insert by metis
  moreover have "g = WorkerReturned (Some e) \<Longrightarrow> e \<in> ended_with a s'" for e using n WorkerRound by (simp add: ended_with_def)
  ultimately show ?thesis
    using t g(2-6) made_mono [of L "L \<union> ended_with a s'" F "F \<union> flush_failed env a s"] unfolding traced_def by auto
next
  case (WorkerFlush i fctx co order)
  then obtain err where i: "gos s ! i = WorkerReturned err" "i < length (gos s)"
    using s by (auto simp: worker_flush_def split: if_splits goroutine.splits)
  obtain fe w where f: "shutdownFailOpen env fctx co order (eworkers (eng s) ! i) = (fe, w)" by force
  define err' where "err' = flush_join worker_excused err fe"
  have s': "workerErrCh s' = (if fatal err' \<and> workerErrCh s = None then err' else workerErrCh s)"
    "mainGo s' = mainGo s" "gos s' = (gos s)[i := WorkerFinished]" "recvGo s' = recvGo s" "ctxErr s' = ctxErr s \<or> ctxErr s' \<noteq> None"
    using s i f by (auto simp: WorkerFlush worker_flush_def Let_def err'_def [symmetric] offer_err_def fatal_def
        split: option.splits if_splits)
  let ?F = "F \<union> flush_failed env a s"
  have fF: "set_option fe \<subseteq> ?F" "ended_with a s' = {}" using f by (auto simp: WorkerFlush flush_failed_def ended_with_def)
  have "WorkerReturned err \<in> set (gos s)" using i nth_mem by metis
  then have "set_option err \<subseteq> made L ?F" using t by (auto simp: traced_def intro: made.Loop)
  then have "set_option err' \<subseteq> made L ?F" using flush_join_made [of worker_excused err fe _ L ?F] fF(1) by (auto simp: err'_def)
  moreover have "set (gos s') \<subseteq> insert WorkerFinished (set (gos s))" using s'(3) set_update_subset_insert by metis
  ultimately show ?thesis
    using t s'(1,2,4,5) fF(2) made_mono [of L L F ?F] unfolding traced_def by auto
next
  case (MainFlush fe)
  then obtain er where m: "mainGo s = Flushing er" "mainGo s' = Finished (main_finish er fe (workerErrCh s))"
    "workerErrCh s' = None \<or> workerErrCh s' = workerErrCh s" "gos s' = gos s" "recvGo s' = recvGo s" "ctxErr s' = ctxErr s"
    using s by (auto split: main_state.splits)
  let ?F = "F \<union> flush_failed env a s"
  have "er \<in> made L ?F" "set_option (workerErrCh s) \<subseteq> made L ?F" "set_option fe \<subseteq> ?F"
    using t m(1) made_mono [of L L F ?F] by (auto simp: traced_def main_error_def MainFlush flush_failed_def)
  then have "set_option (main_finish er fe (workerErrCh s)) \<subseteq> made L ?F" using main_finish_made by (auto simp: elem_set)
  then show ?thesis
    using t m main_finish_uncancelled made_mono [of L L F ?F] by (auto simp: traced_def main_error_def MainFlush ended_with_def)
next
  case MainTakeWorkerErr
  then have "main_select True s = Some s'" using s by simp
  then show ?thesis using t
    by (cases rule: main_select_cases)
      (auto simp: traced_def main_error_def MainTakeWorkerErr ended_with_def flush_failed_def intro: made.Loop)
next
  case MainTakeRecvErr
  then have "main_select False s = Some s'" using s by simp
  then show ?thesis using t
    by (cases rule: main_select_cases)
      (auto simp: traced_def main_error_def MainTakeRecvErr ended_with_def flush_failed_def intro: made.Loop)
next
  case MainCloseQueues
  then show ?thesis using s t by (auto simp: traced_def main_error_def ended_with_def flush_failed_def split: main_state.splits)
next
  case MainWait
  then show ?thesis using s t by (auto simp: traced_def main_error_def ended_with_def flush_failed_def split: main_state.splits if_splits)
qed

lemma Run_traced:
  "traced L F s \<Longrightarrow> Run env as s = Some s' \<Longrightarrow> traced (L \<union> loop_errors env as s) (F \<union> flush_errors env as s) s'"
proof (induction as arbitrary: s L F)
  case (Cons a as)
  then obtain s1 where s1: "act_step env a s = Some s1" "Run env as s1 = Some s'" by (auto split: option.splits)
  show ?case using Cons.IH [OF act_step_traced [OF Cons.prems(1) s1(1)] s1(2)] s1(1) by (simp add: Un_assoc)
qed simp

section \<open>A stop can be completed\<close>

text \<open>Actions that only end what is going on.\<close>

fun winding_down :: "act \<Rightarrow> bool" where
  "winding_down (EndContext er) = False"
| "winding_down (RecvRound rcv early taken) = (case rcv of RecvErr er \<Rightarrow> True | _ \<Rightarrow> False)"
| "winding_down (WorkerRound i ch) = (case ch of TakeDone er \<Rightarrow> True | _ \<Rightarrow> False)"
| "winding_down (DoReload c) = False"
| "winding_down _ = True"

definition winds :: "adapter_env \<Rightarrow> running \<Rightarrow> running \<Rightarrow> bool" where
  "winds env s s' \<longleftrightarrow> (\<exists>bs. list_all winding_down bs \<and> Run env bs s = Some s')"

lemma winds_refl [simp]: "winds env s s"
  unfolding winds_def by (rule exI [of _ "[]"]) simp

lemma winds_trans: "winds env s s1 \<Longrightarrow> winds env s1 s' \<Longrightarrow> winds env s s'"
proof -
  assume "winds env s s1" "winds env s1 s'"
  then obtain as bs where "list_all winding_down as" "Run env as s = Some s1" "list_all winding_down bs" "Run env bs s1 = Some s'"
    unfolding winds_def by blast
  then show ?thesis unfolding winds_def by (intro exI [of _ "as @ bs"]) (simp add: Run_append)
qed

lemma winds_step: "act_step env a s = Some s1 \<Longrightarrow> winding_down a \<Longrightarrow> winds env s1 s' \<Longrightarrow> winds env s s'"
proof -
  assume "act_step env a s = Some s1" "winding_down a"
  then have "winds env s s1" unfolding winds_def by (intro exI [of _ "[a]"]) simp
  then show "winds env s1 s' \<Longrightarrow> ?thesis" by (rule winds_trans)
qed

lemma worker_winds:
  assumes "ctxErr s \<noteq> None" "i < length (gos s)"
  shows "\<exists>s'. winds env s s' \<and> ctxErr s' \<noteq> None \<and> gos s' = (gos s)[i := WorkerFinished] \<and> recvGo s' = recvGo s \<and> mainGo s' = mainGo s"
proof -
  have flush: "\<exists>s'. winds env u s' \<and> ctxErr s' \<noteq> None \<and> gos s' = (gos u)[i := WorkerFinished] \<and> recvGo s' = recvGo u \<and> mainGo s' = mainGo u"
    if g: "gos u ! i = WorkerReturned err" "i < length (gos u)" "ctxErr u \<noteq> None" for u err
  proof -
    obtain fe w where f: "shutdownFailOpen env (\<lambda>_. None) None [] (eworkers (eng u) ! i) = (fe, w)" by force
    have "act_step env (WorkerFlush i (\<lambda>_. None) None []) u \<noteq> None" using g f by (simp add: worker_flush_def Let_def split: option.split)
    then obtain u' where u': "act_step env (WorkerFlush i (\<lambda>_. None) None []) u = Some u'" by blast
    then have "ctxErr u' \<noteq> None \<and> gos u' = (gos u)[i := WorkerFinished] \<and> recvGo u' = recvGo u \<and> mainGo u' = mainGo u"
      using g f by (auto simp: worker_flush_def Let_def offer_err_def split: option.splits if_splits)
    then show ?thesis using winds_step [OF u' _ winds_refl] by auto
  qed
  show ?thesis
  proof (cases "gos s ! i")
    case WorkerLoop
    obtain e where e: "ctxErr s = Some e" using assms(1) by blast
    let ?w = "eworkers (eng s) ! i"
    let ?s0 = "s\<lparr>eng := put_worker i ?w (eng s), gos := (gos s)[i := WorkerReturned (Some e)]\<rparr>"
    let ?s = "if fatal (Some e) then cancel_ctx ?s0 else ?s0"
    have st: "act_step env (WorkerRound i (TakeDone e)) s = Some ?s" using WorkerLoop e assms(2) by (simp add: worker_round_def Let_def)
    have "gos ?s ! i = WorkerReturned (Some e)" "i < length (gos ?s)" "ctxErr ?s \<noteq> None" using assms e by auto
    from flush [OF this] show ?thesis using winds_step [OF st] by fastforce
  next
    case (WorkerReturned err)
    then show ?thesis using flush assms by blast
  next
    case WorkerFinished
    then show ?thesis using assms list_update_id [of "gos s" i, symmetric] by (intro exI [of _ s]) simp
  qed
qed

lemma workers_wind:
  "ctxErr s \<noteq> None \<Longrightarrow> n \<le> length (gos s) \<Longrightarrow> \<exists>s'. winds env s s' \<and> ctxErr s' \<noteq> None
     \<and> gos s' = replicate n WorkerFinished @ drop n (gos s) \<and> recvGo s' = recvGo s \<and> mainGo s' = mainGo s"
proof (induction n)
  case 0
  then show ?case by (intro exI [of _ s]) simp
next
  case (Suc n)
  then obtain s1 where s1: "winds env s s1" "ctxErr s1 \<noteq> None" "gos s1 = replicate n WorkerFinished @ drop n (gos s)"
    "recvGo s1 = recvGo s" "mainGo s1 = mainGo s" by auto
  obtain s2 where s2: "winds env s1 s2" "ctxErr s2 \<noteq> None" "gos s2 = (gos s1)[n := WorkerFinished]" "recvGo s2 = recvGo s1" "mainGo s2 = mainGo s1"
    using worker_winds [OF s1(2), of n env] s1(3) Suc.prems(2) by auto
  have "gos s2 = replicate (Suc n) WorkerFinished @ drop (Suc n) (gos s)"
    using s2(3) s1(3) Suc.prems(2) by (simp add: list_update_append Cons_nth_drop_Suc [symmetric] replicate_append_same [symmetric])
  then show ?case using s1 s2 winds_trans [OF s1(1) s2(1)] by (intro exI [of _ s2]) simp
qed

lemma main_winds:
  assumes "list_all (\<lambda>g. g = WorkerFinished) (gos s)" "recvGo s \<noteq> RecvRunning" "run_ok s"
  shows "\<exists>s' r. winds env s s' \<and> mainGo s' = Finished r"
proof -
  have flush: "\<exists>s' r. winds env u s' \<and> mainGo s' = Finished r" if m: "mainGo u = Flushing er" for u er
  proof -
    obtain u' r where "act_step env (MainFlush None) u = Some u'" "mainGo u' = Finished r" using m by simp
    then show ?thesis using winds_step [of env "MainFlush None" u u' u'] by auto
  qed
  have wait: "\<exists>s' r. winds env u s' \<and> mainGo s' = Finished r"
    if "mainGo u = Waiting er" "gos u = gos s" for u er
  proof -
    have st: "act_step env MainWait u = Some (u\<lparr>mainGo := Flushing er\<rparr>)" using that assms(1) by simp
    then show ?thesis using flush [of "u\<lparr>mainGo := Flushing er\<rparr>" er] winds_step [OF st] by auto
  qed
  have close: "\<exists>s' r. winds env u s' \<and> mainGo s' = Finished r"
    if "mainGo u = Closing er" "gos u = gos s" for u er
  proof -
    have st: "act_step env MainCloseQueues u = Some (u\<lparr>eng := close_all (eng u), mainGo := Waiting er\<rparr>)" using that by simp
    then show ?thesis using wait [of "u\<lparr>eng := close_all (eng u), mainGo := Waiting er\<rparr>" er] that(2) winds_step [OF st] by auto
  qed
  show ?thesis
  proof (cases "mainGo s")
    case Selecting
    then obtain er where "recvGo s = RecvReturned er" using assms(2,3) by (cases "recvGo s") (auto simp: run_ok_def)
    then have st: "act_step env MainTakeRecvErr s = Some (cancel_ctx (s\<lparr>recvGo := RecvTaken, mainGo := Closing er\<rparr>))"
      using Selecting by (simp add: main_select_def)
    then show ?thesis using close [of "cancel_ctx (s\<lparr>recvGo := RecvTaken, mainGo := Closing er\<rparr>)" er] winds_step [OF st] by auto
  next
    case (AwaitRecv er)
    then obtain er' where "recvGo s = RecvReturned er'" using assms(2,3) by (cases "recvGo s") (auto simp: run_ok_def)
    then have st: "act_step env MainTakeRecvErr s = Some (s\<lparr>recvGo := RecvTaken, mainGo := Closing er\<rparr>)"
      using AwaitRecv by (simp add: main_select_def)
    then show ?thesis using close [of "s\<lparr>recvGo := RecvTaken, mainGo := Closing er\<rparr>" er] winds_step [OF st] by auto
  next
    case (Finished r)
    then show ?thesis by (intro exI [of _ s] exI [of _ r]) simp
  qed (use close wait flush in auto)
qed

lemma stop_completes:
  assumes "env_ok env" "run_ok s" "ctxErr s \<noteq> None"
  shows "\<exists>s' r. winds env s s' \<and> mainGo s' = Finished r"
proof -
  obtain s1 where s1: "winds env s s1" "gos s1 = replicate (length (gos s)) WorkerFinished"
    using workers_wind [OF assms(3) order_refl, of env] by auto
  have "\<exists>s2. winds env s1 s2 \<and> gos s2 = gos s1 \<and> recvGo s2 \<noteq> RecvRunning"
  proof (cases "recvGo s1 = RecvRunning")
    case True
    then have "act_step env (RecvRound (RecvErr ContextCanceled) False False) s1 = Some (s1\<lparr>recvGo := RecvReturned ContextCanceled\<rparr>)"
      by (simp add: recv_round_def recv_step_def)
    from winds_step [OF this _ winds_refl] show ?thesis by auto
  qed (use winds_refl in blast)
  then obtain s2 where s2: "winds env s1 s2" "gos s2 = gos s1" "recvGo s2 \<noteq> RecvRunning" by blast
  have w: "winds env s s2" using s1(1) s2(1) by (rule winds_trans)
  then have "run_ok s2" using Run_ok [OF assms(1,2)] by (auto simp: winds_def)
  then obtain s' r where "winds env s2 s'" "mainGo s' = Finished r"
    using main_winds [of s2 env] s1(2) s2(2,3) by (auto simp: list_all_iff)
  then show ?thesis using winds_trans [OF w] by blast
qed

section \<open>A failure stops the engine and is reported\<close>

text \<open>C19. The failure of a worker is never swallowed.  Once a worker's loop has ended with an error that
  is not the cancellation, the context has ended, so that the other loops stop; the stop can
  be completed: from there some sequence of steps that take no more work leads to the return
  of \<^verbatim>\<open>Run\<close>; and whenever \<^verbatim>\<open>Run\<close> returns, whatever happens in between, then with an error
  that is not the cancellation and is one that the receive loop, a worker or a flush of this
  run ended with, or such errors joined.  If no flush failed and no other loop ended with
  anything but the cancellation, then it is the worker's error.  (The flushes themselves are
  taken not to report a cancellation.)\<close>

theorem worker_failure_reported:
  assumes "env_ok env" "Run env as (Run_start (Engine_New c)) = Some s"
    and "i < length (gos s)" "gos s ! i = WorkerReturned (Some er)" "\<not> errors_is er ContextCanceled"
    and "list_all (honest env) as"
  defines "start \<equiv> Run_start (Engine_New c)"
  shows "ctxErr s \<noteq> None
    \<and> (\<exists>bs s' r. list_all winding_down bs \<and> Run env bs s = Some s' \<and> mainGo s' = Finished r)
    \<and> (\<forall>bs s' r. Run env bs s = Some s' \<and> mainGo s' = Finished r \<and> list_all (honest env) bs \<longrightarrow>
        (\<exists>e. r = Some e \<and> \<not> errors_is e ContextCanceled \<and> e \<in> made (loop_errors env (as @ bs) start) (flush_errors env (as @ bs) start)
          \<and> (flush_errors env (as @ bs) start = {} \<and> (\<forall>x\<in>loop_errors env (as @ bs) start. x = er \<or> errors_is x ContextCanceled)
              \<longrightarrow> e = er)))"
proof -
  have s0: "channel_fatal start" "traced {} {} start"
    by (auto simp: channel_fatal_def Run_start_def start_def traced_def main_error_def uncancelled_def)
  note run = assms(2) [folded start_def] and ok0 = start_ok [of c, folded start_def]
  have s1: "run_ok s" "channel_fatal s"
    using Run_ok [OF assms(1) ok0 run] Run_reports [OF assms(1) ok0 s0(1) run assms(6)] by simp_all
  have ret: "WorkerReturned (Some er) \<in> set (gos s)" using assms(3,4) nth_mem by metis
  have ctx: "ctxErr s \<noteq> None"
    using Run_traced [OF s0(2) run] ret assms(5) by (auto simp: traced_def fatal_def)
  have rep: "reporting i s" using assms(3-5) by (simp add: reporting_def fatal_def)
  have "\<exists>e. r = Some e \<and> \<not> errors_is e ContextCanceled \<and> e \<in> made (loop_errors env (as @ bs) start) (flush_errors env (as @ bs) start)
      \<and> (flush_errors env (as @ bs) start = {} \<and> (\<forall>x\<in>loop_errors env (as @ bs) start. x = er \<or> errors_is x ContextCanceled) \<longrightarrow> e = er)"
    if bs: "Run env bs s = Some s'" "mainGo s' = Finished r" "list_all (honest env) bs" for bs s' r
  proof -
    have "reporting i s'" "run_ok s'"
      using Run_reports [OF assms(1) s1 bs(1,3), of i] rep Run_ok [OF assms(1) s1(1) bs(1)] by simp_all
    then have rep': "reporting i s'" and fin: "\<forall>g\<in>set (gos s'). g = WorkerFinished" using bs(2) by (simp_all add: run_ok_def)
    have "\<not> (i < length (gos s') \<and> (\<exists>er. gos s' ! i = WorkerReturned (Some er) \<and> fatal (Some er)))"
      using fin nth_mem by fastforce
    then have "r \<noteq> None" using rep' bs(2) unfolding reporting_def by simp blast
    then obtain e where e: "r = Some e" by blast
    have "Run env (as @ bs) start = Some s'" using Run_append [of env as bs start] run bs(1) by simp
    from Run_traced [OF s0(2) this]
    have t: "\<not> errors_is e ContextCanceled" "e \<in> made (loop_errors env (as @ bs) start) (flush_errors env (as @ bs) start)"
      using bs(2) e by (auto simp: traced_def main_error_def uncancelled_def)
    then show ?thesis using e made_no_flush [of e "loop_errors env (as @ bs) start"] by auto
  qed
  then show ?thesis using ctx stop_completes [OF assms(1) s1(1) ctx] unfolding winds_def by blast
qed

text \<open>An adapter that fails to send: the first packet that a worker passes on ends its loop.\<close>

definition failing_env :: adapter_env where
  "failing_env = ok_env\<lparr>env_send := (\<lambda>_ _. Some (ExternalError 5))\<rparr>"

definition small_config :: config where
  "small_config = test_config\<lparr>WorkerCount := 1, MaxHeldPackets := 1\<rparr>"

definition failing_acts :: "act list" where
  "failing_acts = [RecvRound (RecvPkt (sample_packet 100 0x18 [22, 3, 1])) False False,
     WorkerRound 0 (TakeIn (Some small_config) None None 0)]"

definition later_acts :: "act list" where
  "later_acts = [WorkerFlush 0 (\<lambda>_. None) (Some small_config) [], RecvRound (RecvErr ContextCanceled) False False,
     MainTakeRecvErr, MainCloseQueues, MainWait, MainFlush None]"

lemma worker_failure_reported_witness:
  "\<exists>s. Run failing_env (failing_acts @ later_acts) (Run_start (Engine_New small_config)) = Some s
    \<and> mainGo s = Finished (Some (ExternalError 5))"
proof -
  let ?start = "Run_start (Engine_New small_config)"
  define s where "s = the (Run failing_env failing_acts ?start)"
  define t where "t = the (Run failing_env later_acts s)"
  have env: "env_ok failing_env" using ok_env_ok by (simp add: env_ok_def failing_env_def)
  have "Run failing_env failing_acts ?start \<noteq> None" by code_simp
  then have s: "Run failing_env failing_acts ?start = Some s" by (simp add: s_def)
  have i: "0 < length (gos s)" "gos s ! 0 = WorkerReturned (Some (ExternalError 5))"
    unfolding s_def by code_simp+
  have "Run failing_env later_acts s \<noteq> None" unfolding s_def by code_simp
  then have t: "Run failing_env later_acts s = Some t" by (simp add: t_def)
  have "case mainGo t of Finished r \<Rightarrow> True | _ \<Rightarrow> False" unfolding t_def s_def by code_simp
  then obtain r where r: "mainGo t = Finished r" by (auto split: main_state.splits)
  have h: "list_all (honest failing_env) failing_acts" "list_all (honest failing_env) later_acts"
    by (simp_all add: failing_acts_def later_acts_def honest_def clean_flush_def failing_env_def uncancelled_def)
  have only: "flush_errors failing_env (failing_acts @ later_acts) ?start = {}"
    "\<forall>x\<in>loop_errors failing_env (failing_acts @ later_acts) ?start. x = ExternalError 5 \<or> errors_is x ContextCanceled"
    by code_simp+
  have "\<not> errors_is (ExternalError 5) ContextCanceled" by simp
  from worker_failure_reported [OF env s i this h(1)] t r h(2) obtain e where e: "r = Some e"
    "flush_errors failing_env (failing_acts @ later_acts) ?start = {} \<and> (\<forall>x\<in>loop_errors failing_env (failing_acts @ later_acts) ?start.
        x = ExternalError 5 \<or> errors_is x ContextCanceled) \<longrightarrow> e = ExternalError 5" by blast
  then have "r = Some (ExternalError 5)" using only by blast
  moreover have "Run failing_env (failing_acts @ later_acts) ?start = Some t"
    using Run_append [of failing_env failing_acts later_acts] s t by simp
  ultimately show ?thesis using r by blast
qed

end
