(* ===== verification/Transmitter.thy ===== *)
theory Transmitter
  imports Packet
begin

text \<open>
  The part of the interface \<^verbatim>\<open>Adapter\<close> (\<^verbatim>\<open>internal/adapter/adapter.go\<close>) that the
  engine's packet path relies on: a \<^verbatim>\<open>Send\<close> that returns nil has put exactly its packet
  on the way, once; one that fails, and every \<^verbatim>\<open>Drop\<close>, has put nothing on the way.
  \<open>outputs\<close> reads from the adapter's state what has left it, and \<open>out_of\<close> says what
  a packet becomes.
\<close>

locale transmitter =
  fixes send :: "packet \<Rightarrow> 's \<Rightarrow> go_error option \<times> 's"
    and drop_one :: "packet \<Rightarrow> 's \<Rightarrow> go_error option \<times> 's"
    and outputs :: "'s \<Rightarrow> 'o list"
    and out_of :: "packet \<Rightarrow> 'o"
    and sendable :: "packet \<Rightarrow> bool"
  assumes send_ok: "\<And>p s s'. sendable p \<Longrightarrow> send p s = (None, s') \<Longrightarrow> outputs s' = outputs s @ [out_of p]"
    and send_fail: "\<And>p s s' e. send p s = (Some e, s') \<Longrightarrow> outputs s' = outputs s"
    and drop_silent: "\<And>p s. outputs (snd (drop_one p s)) = outputs s"

end
