(* ===== verification/NFQueue.thy ===== *)
theory NFQueue
  imports AdapterChecksums Transmitter
begin

text \<open>
  The NFQUEUE adapter (\<^verbatim>\<open>internal/adapter/nfqueue_linux.go\<close>).  The netfilter library
  and the socket calls are the record \<open>nfq_os\<close>: their results may depend on all calls
  made before.  \<open>os\<close> is the log of the calls with their results.  The callback runs on
  the library's goroutine and \<^verbatim>\<open>Flush\<close> on the engine's, so both are cut at their atomic
  operations and interleaved.
\<close>

section \<open>The state\<close>

datatype verdict = NfDrop | NfAccept

datatype oscall = QueueOpen u16 u32 u32 | QueueSetNoENOBUFS | QueueRegister | QueueClose
  | SetVerdict u32 verdict | RawSocket | SetHdrIncl int | SetMark int u32 | FdClose int | RawSendto int ip4 bytes

type_synonym os_log = "(oscall \<times> go_error option) list"

record nfq_os =
  os_result :: "os_log \<Rightarrow> oscall \<Rightarrow> go_error option"
  os_fd :: "os_log \<Rightarrow> nat"

record nfq_options =
  QueueNum :: u16
  QueueMaxLen :: u32
  CopyRange :: u32
  OptMark :: u32

record nfq =
  hasQueue :: bool
  recvCh :: "packet list"
  errsCh :: "go_error option"
  stopErr0 :: "go_error option"
  rawFD :: int
  mark :: u32
  onceDone :: bool
  flushing :: bool
  inFlight :: int
  os :: os_log

type_synonym nfq_result = "go_error option \<times> nfq"

definition recvCap :: nat where [go_defs]: "recvCap = 1024"

definition os_call :: "nfq_os \<Rightarrow> oscall \<Rightarrow> nfq \<Rightarrow> nfq_result" where
  "os_call env c s = (let r = os_result env (os s) c in (r, s\<lparr>os := os s @ [(c, r)]\<rparr>))"

definition os_do :: "nfq_os \<Rightarrow> oscall \<Rightarrow> nfq \<Rightarrow> nfq" where
  "os_do env c s = snd (os_call env c s)"

text \<open>\<^verbatim>\<open>n.stop()\<close> cancels the adapter's own context.\<close>

definition nfq_stop :: "nfq \<Rightarrow> nfq" where
  "nfq_stop s = s\<lparr>stopErr0 := Some ContextCanceled\<rparr>"

section \<open>Closing and opening\<close>

definition nfq_Close :: "nfq_os \<Rightarrow> nfq \<Rightarrow> nfq_result" where
  "nfq_Close env s = (if onceDone s then (None, s) else
     let s = nfq_stop (s\<lparr>onceDone := True\<rparr>);
         (err, s) = (if hasQueue s then os_call env QueueClose s else (None, s));
         s = (if rawFD s \<ge> 0 then (os_do env (FdClose (rawFD s)) s)\<lparr>rawFD := - 1\<rparr> else s)
     in (err, s))"

definition openRawSocket :: "nfq_os \<Rightarrow> nfq \<Rightarrow> nfq_result" where
  "openRawSocket env s0 = (case os_call env RawSocket s0 of
     (Some e, s) \<Rightarrow> (Some e, s)
   | (None, s) \<Rightarrow>
     let fd = int (os_fd env (os s0)) in
     case os_call env (SetHdrIncl fd) s of
       (Some e, s) \<Rightarrow> (Some e, os_do env (FdClose fd) s)
     | (None, s) \<Rightarrow>
       if mark s \<noteq> 0 then
         (case os_call env (SetMark fd (mark s)) s of
            (Some e, s) \<Rightarrow> (Some e, os_do env (FdClose fd) s)
          | (None, s) \<Rightarrow> (None, s\<lparr>rawFD := fd\<rparr>))
       else (None, s\<lparr>rawFD := fd\<rparr>))"

definition fresh_nfq :: "nfq_options \<Rightarrow> os_log \<Rightarrow> nfq" where
  "fresh_nfq opts l = \<lparr>hasQueue = True, recvCh = [], errsCh = None, stopErr0 = None, rawFD = - 1,
     mark = OptMark opts, onceDone = False, flushing = False, inFlight = 0, os = l\<rparr>"

text \<open>The result is the adapter, or the error with the calls that were made.\<close>

definition NewNFQueue :: "nfq_os \<Rightarrow> nfq_options \<Rightarrow> os_log \<Rightarrow> (go_error \<times> os_log) + nfq" where
  "NewNFQueue env opts l = (
     let copyRange = (if CopyRange opts = 0 then 0xFFFF else CopyRange opts);
         s = fresh_nfq opts l
     in case os_call env (QueueOpen (QueueNum opts) copyRange (QueueMaxLen opts)) s of
       (Some e, s) \<Rightarrow> Inl (e, os s)
     | (None, s) \<Rightarrow> (case os_call env QueueSetNoENOBUFS s of
       (Some e, s) \<Rightarrow> Inl (e, os (os_do env QueueClose s))
     | (None, s) \<Rightarrow> (case openRawSocket env s of
       (Some e, s) \<Rightarrow> Inl (e, os (os_do env QueueClose s))
     | (None, s) \<Rightarrow> (case os_call env QueueRegister s of
       (Some e, s) \<Rightarrow> Inl (e, os (snd (nfq_Close env s)))
     | (None, s) \<Rightarrow> Inr s))))"

section \<open>Send, Drop and Recv\<close>

definition setVerdict :: "nfq_os \<Rightarrow> u32 \<Rightarrow> verdict \<Rightarrow> nfq \<Rightarrow> nfq_result" where
  "setVerdict env i v s = (if \<not> hasQueue s then (Some ErrNotImplemented, s) else os_call env (SetVerdict i v) s)"

definition inject :: "nfq_os \<Rightarrow> packet \<Rightarrow> nfq \<Rightarrow> nfq_result" where
  "inject env pkt s = (if rawFD s < 0 then (Some ErrNotImplemented, s)
     else if length (Data pkt) < 20 then (None, s)
     else os_call env (RawSendto (rawFD s) (Data pkt ! 16, Data pkt ! 17, Data pkt ! 18, Data pkt ! 19) (Data pkt)) s)"

definition nfq_Send :: "nfq_os \<Rightarrow> packet option \<Rightarrow> nfq \<Rightarrow> nfq_result" where
  "nfq_Send env po s = (case po of None \<Rightarrow> (None, s)
     | Some pkt \<Rightarrow> if Data pkt = [] then (None, s)
         else if Source pkt = SourceCaptured then setVerdict env (NFQID pkt) NfAccept s
         else inject env pkt s)"

definition nfq_Drop :: "nfq_os \<Rightarrow> packet option \<Rightarrow> nfq \<Rightarrow> nfq_result" where
  "nfq_Drop env po s = (case po of None \<Rightarrow> (None, s)
     | Some pkt \<Rightarrow> if Source pkt \<noteq> SourceCaptured then (None, s)
         else setVerdict env (NFQID pkt) NfDrop s)"

text \<open>The arm that the select of \<^verbatim>\<open>Recv\<close> takes; \<^const>\<open>None\<close> when that arm is not ready.\<close>

datatype recv_arm = ArmRecv | ArmErrs | ArmCaller go_error | ArmStop

definition nfq_Recv :: "recv_arm \<Rightarrow> nfq \<Rightarrow> ((go_error + packet) \<times> nfq) option" where
  "nfq_Recv arm s = (case arm of
     ArmRecv \<Rightarrow> (case recvCh s of [] \<Rightarrow> None | p # ps \<Rightarrow> Some (Inr p, s\<lparr>recvCh := ps\<rparr>))
   | ArmErrs \<Rightarrow> (case errsCh s of None \<Rightarrow> None | Some e \<Rightarrow> Some (Inl e, s\<lparr>errsCh := None\<rparr>))
   | ArmCaller e \<Rightarrow> Some (Inl e, s)
   | ArmStop \<Rightarrow> (case stopErr0 s of None \<Rightarrow> None | Some e \<Rightarrow> Some (Inl e, s)))"

section \<open>The callbacks\<close>

text \<open>A timeout of the netlink socket is no error; the flag is \<^verbatim>\<open>opErr.Timeout()\<close>.\<close>

definition onError :: "bool \<Rightarrow> go_error \<Rightarrow> nfq \<Rightarrow> int \<times> nfq" where
  "onError timeout e s = (if timeout then (0, s)
     else (- 1, if errsCh s = None then s\<lparr>errsCh := Some e\<rparr> else s))"

record attribute =
  APayload :: "bytes option"
  APacketID :: "u32 option"

text \<open>A callback in progress: begun, or past the test of \<^verbatim>\<open>flushing\<close>.\<close>

datatype callback = Begun attribute | Admitted packet

definition leave_cb :: "nfq \<Rightarrow> nfq" where
  "leave_cb s = s\<lparr>inFlight := inFlight s - 1\<rparr>"

fun callback_step :: "nfq_os \<Rightarrow> callback \<Rightarrow> nfq \<Rightarrow> callback option \<times> nfq" where
  "callback_step env (Begun a) s = (case (APayload a, APacketID a) of
     (Some payload, Some i) \<Rightarrow>
       if flushing s \<or> stopErr0 s \<noteq> None then (None, leave_cb (snd (setVerdict env i NfAccept s)))
       else (Some (Admitted \<lparr>Data = payload, Addr = [], Meta = zero_meta, Source = SourceCaptured, NFQID = i\<rparr>), s)
   | _ \<Rightarrow> (None, leave_cb s))"
| "callback_step env (Admitted pkt) s =
     (if length (recvCh s) < recvCap then (None, leave_cb (s\<lparr>recvCh := recvCh s @ [pkt]\<rparr>))
      else (None, leave_cb (snd (setVerdict env (NFQID pkt) NfAccept s))))"

definition enter_cb :: "attribute \<Rightarrow> nfq \<Rightarrow> callback \<times> nfq" where
  "enter_cb a s = (Begun a, s\<lparr>inFlight := inFlight s + 1\<rparr>)"

text \<open>\<^verbatim>\<open>onPacket\<close> run without interruption.\<close>

definition onPacket :: "nfq_os \<Rightarrow> attribute \<Rightarrow> nfq \<Rightarrow> nfq" where
  "onPacket env a s = (case enter_cb a s of (cb, s) \<Rightarrow> (case callback_step env cb s of
     (None, s) \<Rightarrow> s
   | (Some cb, s) \<Rightarrow> snd (callback_step env cb s)))"

section \<open>Flush\<close>

datatype flush_phase = NotFlushing | Stopping | AwaitCallbacks | Draining "go_error list" | FlushDone "go_error option"

text \<open>One step of \<^verbatim>\<open>Flush\<close>; the argument is the state of its context when the wait looks
  at it.\<close>

fun flush_step :: "nfq_os \<Rightarrow> go_error option \<Rightarrow> flush_phase \<Rightarrow> nfq \<Rightarrow> flush_phase \<times> nfq" where
  "flush_step env ctx NotFlushing s =
     (if \<not> hasQueue s then (FlushDone None, s) else (Stopping, s\<lparr>flushing := True\<rparr>))"
| "flush_step env ctx Stopping s = (AwaitCallbacks, nfq_stop s)"
| "flush_step env ctx AwaitCallbacks s = (if inFlight s = 0 then (Draining [], s)
     else (case ctx of Some e \<Rightarrow> (FlushDone (Some e), s) | None \<Rightarrow> (AwaitCallbacks, s)))"
| "flush_step env ctx (Draining es) s = (case recvCh s of
     [] \<Rightarrow> (FlushDone (if es = [] then None else Some (ErrJoin es)), s)
   | p # ps \<Rightarrow> (case setVerdict env (NFQID p) NfAccept (s\<lparr>recvCh := ps\<rparr>) of
       (None, s') \<Rightarrow> (Draining es, s') | (Some e, s') \<Rightarrow> (Draining (es @ [e]), s')))"
| "flush_step env ctx (FlushDone r) s = (FlushDone r, s)"

end
