(* ===== verification/AdapterRun.thy ===== *)
theory AdapterRun
  imports Worker Transmitter
begin

text \<open>
  A worker on an adapter.  The worker's model asks an \<^typ>\<open>adapter_env\<close> for the results of
  \<^verbatim>\<open>Send\<close> and \<^verbatim>\<open>Drop\<close> and logs what it did; here the answers come from an adapter with
  a state of its own, which is found by doing over again what the log says.  What every adapter
  that keeps the contract of \<^const>\<open>transmitter\<close> transmits when a worker fails open or drops its
  held packets is proved once, in the locale.
\<close>

text \<open>The adapter's state after what the log says.\<close>

fun replay :: "(packet \<Rightarrow> 's \<Rightarrow> go_error option \<times> 's) \<Rightarrow> (packet \<Rightarrow> 's \<Rightarrow> go_error option \<times> 's) \<Rightarrow> event list \<Rightarrow> 's \<Rightarrow> 's" where
  "replay snd1 drp [] s = s"
| "replay snd1 drp (Sent p r # l) s = replay snd1 drp l (snd (snd1 p s))"
| "replay snd1 drp (Dropped p r # l) s = replay snd1 drp l (snd (drp p s))"

lemma replay_append [simp]: "replay snd1 drp (l @ m) s = replay snd1 drp m (replay snd1 drp l s)"
  by (induction snd1 drp l s rule: replay.induct) simp_all

text \<open>The answers of an adapter that was in the state \<^term>\<open>s0\<close> when the log was empty.\<close>

definition on_adapter :: "(packet \<Rightarrow> 's \<Rightarrow> go_error option \<times> 's) \<Rightarrow> (packet \<Rightarrow> 's \<Rightarrow> go_error option \<times> 's)
    \<Rightarrow> (packet \<Rightarrow> go_error option \<times> packet) \<Rightarrow> 's \<Rightarrow> adapter_env" where
  "on_adapter snd1 drp calc s0 = \<lparr>env_send = (\<lambda>l p. fst (snd1 p (replay snd1 drp l s0))),
     env_drop = (\<lambda>l p. fst (drp p (replay snd1 drp l s0))), env_calc = calc\<rparr>"

lemma send_on_adapter:
  "send (on_adapter snd1 drp calc s0) p w = (case snd1 p (replay snd1 drp (calls w) s0) of (r, s) \<Rightarrow> (r, w\<lparr>calls := calls w @ [Sent p r]\<rparr>))"
  "drop_pkt (on_adapter snd1 drp calc s0) p w = (case drp p (replay snd1 drp (calls w) s0) of (r, s) \<Rightarrow> (r, w\<lparr>calls := calls w @ [Dropped p r]\<rparr>))"
  by (simp_all add: send_def drop_pkt_def on_adapter_def Let_def split_beta)

text \<open>What a worker's adapter has transmitted.\<close>

context transmitter
begin

definition transmitted :: "'s \<Rightarrow> worker \<Rightarrow> 'o list" where
  "transmitted s0 w = outputs (replay send drop_one (calls w) s0)"

lemma send_transmits:
  assumes "Worker.send (on_adapter send drop_one calc s0) p w = (r, w')" "sendable p"
  shows "transmitted s0 w' = transmitted s0 w @ (if r = None then [out_of p] else [])"
  using assms send_ok [OF assms(2), of "replay send drop_one (calls w) s0"] send_fail [of p "replay send drop_one (calls w) s0"]
  by (auto simp: send_on_adapter transmitted_def split: prod.splits)

lemma drop_transmits_nothing:
  "drop_pkt (on_adapter send drop_one calc s0) p w = (r, w') \<Longrightarrow> transmitted s0 w' = transmitted s0 w"
  using drop_silent [of p "replay send drop_one (calls w) s0"]
  by (auto simp: send_on_adapter transmitted_def split: prod.splits)

lemma dropHeld_transmits_nothing:
  "dropHeld (on_adapter send drop_one calc s0) ps w = (r, w') \<Longrightarrow> transmitted s0 w' = transmitted s0 w"
  by (induction ps arbitrary: w) (auto dest: drop_transmits_nothing split: prod.splits option.splits)

lemma send_all_transmits:
  assumes "\<forall>p\<in>set ps. sendable p" "send_all (on_adapter send drop_one calc s0) ps w = (e, w')"
  shows "\<exists>n. transmitted s0 w' = transmitted s0 w @ map out_of (take n ps) \<and> (if e = None then n = length ps else n < length ps)"
  using assms
proof (induction ps arbitrary: w)
  case (Cons p ps)
  obtain r w1 where s: "Worker.send (on_adapter send drop_one calc s0) p w = (r, w1)" by force
  have t: "transmitted s0 w1 = transmitted s0 w @ (if r = None then [out_of p] else [])"
    using send_transmits [OF s] Cons.prems(1) by simp
  show ?case
  proof (cases r)
    case None
    then obtain n where "transmitted s0 w' = transmitted s0 w1 @ map out_of (take n ps)" "if e = None then n = length ps else n < length ps"
      using Cons.IH [of w1] Cons.prems s by auto
    then show ?thesis using t None by (intro exI [of _ "Suc n"]) (simp split: if_splits)
  next
    case (Some x)
    then show ?thesis using Cons.prems(2) s t by (intro exI [of _ 0]) auto
  qed
qed simp

lemma failOpen_transmits:
  assumes "\<forall>p\<in>set (HeldPackets st). sendable p" "failOpen (on_adapter send drop_one calc s0) k st w = (e, w')"
  shows "\<exists>n. transmitted s0 w' = transmitted s0 w @ map out_of (take n (HeldPackets st))
    \<and> (if e = None then n = length (HeldPackets st) else n < length (HeldPackets st))"
proof -
  obtain r w1 where s: "send_all (on_adapter send drop_one calc s0) (HeldPackets st) w = (r, w1)" by force
  have "e = r" "calls w' = calls w1"
    using assms(2) s by (auto simp: failOpen_def clearCollectingState_def save_def split: option.splits prod.splits)
  then have "transmitted s0 w' = transmitted s0 w1" by (simp add: transmitted_def)
  then show ?thesis using send_all_transmits [OF assms(1) s] \<open>e = r\<close> by simp
qed

end

end
