(* ===== verification/NFQueueProps.thy ===== *)
theory NFQueueProps
  imports NFQueue AdapterRun
begin

text \<open>
  The NFQUEUE adapter: no handle leaks, what it transmits, and that a flush which completes
  leaves no captured packet without a verdict, however the library's callbacks interleave
  with it.
\<close>

section \<open>Handles\<close>

text \<open>Open queues and raw sockets after a log of calls.\<close>

definition open_queues :: "os_log \<Rightarrow> int" where
  "open_queues l = (\<Sum>(c, r)\<leftarrow>l. case c of QueueOpen _ _ _ \<Rightarrow> if r = None then 1 else 0 | QueueClose \<Rightarrow> - 1 | _ \<Rightarrow> 0)"

definition open_sockets :: "os_log \<Rightarrow> int" where
  "open_sockets l = (\<Sum>(c, r)\<leftarrow>l. case c of RawSocket \<Rightarrow> if r = None then 1 else 0 | FdClose _ \<Rightarrow> - 1 | _ \<Rightarrow> 0)"

lemma open_simps [simp]:
  "open_queues (l @ l') = open_queues l + open_queues l'" "open_sockets (l @ l') = open_sockets l + open_sockets l'"
  "open_queues [] = 0" "open_sockets [] = 0"
  by (simp_all add: open_queues_def open_sockets_def)

lemma open_Cons [simp]:
  "open_queues ((c, r) # l) = (case c of QueueOpen _ _ _ \<Rightarrow> if r = None then 1 else 0 | QueueClose \<Rightarrow> - 1 | _ \<Rightarrow> 0) + open_queues l"
  "open_sockets ((c, r) # l) = (case c of RawSocket \<Rightarrow> if r = None then 1 else 0 | FdClose _ \<Rightarrow> - 1 | _ \<Rightarrow> 0) + open_sockets l"
  by (simp_all add: open_queues_def open_sockets_def)

lemma os_callD:
  "os_call env c s = (r, s') \<Longrightarrow> s' = s\<lparr>os := os s @ [(c, r)]\<rparr>"
  by (auto simp: os_call_def Let_def)

lemma openRawSocket_balance:
  assumes "openRawSocket env s = (e, s')"
  shows "open_queues (os s') = open_queues (os s)" "hasQueue s' = hasQueue s" "onceDone s' = onceDone s"
    "open_sockets (os s') = open_sockets (os s) + (if e = None then 1 else 0)" "e = None \<Longrightarrow> 0 \<le> rawFD s'"
  using assms
  by (auto simp: openRawSocket_def os_do_def os_call_def Let_def split: option.splits if_splits
      dest: sym [of "Some _"])

lemma nfq_Close_balance:
  assumes "hasQueue s" "\<not> onceDone s" "0 \<le> rawFD s"
  shows "open_queues (os (snd (nfq_Close env s))) = open_queues (os s) - 1"
    "open_sockets (os (snd (nfq_Close env s))) = open_sockets (os s) - 1"
    "rawFD (snd (nfq_Close env s)) = - 1" "onceDone (snd (nfq_Close env s))"
    "nfq_Close env (snd (nfq_Close env s)) = (None, snd (nfq_Close env s))"
  using assms by (simp_all add: nfq_Close_def nfq_stop_def os_do_def os_call_def Let_def)

text \<open>C20. No handle leaks, whichever system call fails: when opening the adapter fails, every queue
  and socket it opened is closed again; when it succeeds, exactly one of each is open; and
  closing the adapter, once or twice, closes both once.\<close>

theorem handles_balanced:
  "case NewNFQueue env opts l of
     Inl (e, l') \<Rightarrow> open_queues l' = open_queues l \<and> open_sockets l' = open_sockets l
   | Inr s \<Rightarrow> open_queues (os s) = open_queues l + 1 \<and> open_sockets (os s) = open_sockets l + 1
       \<and> (let s1 = snd (nfq_Close env s); s2 = snd (nfq_Close env s1)
          in open_queues (os s1) = open_queues l \<and> open_sockets (os s1) = open_sockets l
             \<and> rawFD s1 = - 1 \<and> s2 = s1 \<and> fst (nfq_Close env s1) = None)"
proof -
  define s0 where "s0 = fresh_nfq opts l"
  define q where "q = QueueOpen (QueueNum opts) (if CopyRange opts = 0 then 0xFFFF else CopyRange opts) (QueueMaxLen opts)"
  obtain e1 s1 where 1: "os_call env q s0 = (e1, s1)" by force
  obtain e2 s2 where 2: "os_call env QueueSetNoENOBUFS s1 = (e2, s2)" by force
  obtain e3 s3 where 3: "openRawSocket env s2 = (e3, s3)" by force
  obtain e4 s4 where 4: "os_call env QueueRegister s3 = (e4, s4)" by force
  have n: "NewNFQueue env opts l = (case e1 of Some e \<Rightarrow> Inl (e, os s1)
     | None \<Rightarrow> (case e2 of Some e \<Rightarrow> Inl (e, os (os_do env QueueClose s2))
     | None \<Rightarrow> (case e3 of Some e \<Rightarrow> Inl (e, os (os_do env QueueClose s3))
     | None \<Rightarrow> (case e4 of Some e \<Rightarrow> Inl (e, os (snd (nfq_Close env s4))) | None \<Rightarrow> Inr s4))))"
    by (simp add: NewNFQueue_def Let_def s0_def [symmetric] q_def [symmetric] 1 2 3 4 split: option.split)
  have s0: "hasQueue s0" "\<not> onceDone s0" "os s0 = l" by (simp_all add: s0_def fresh_nfq_def)
  have b1: "open_queues (os s1) = open_queues l + (if e1 = None then 1 else 0)" "open_sockets (os s1) = open_sockets l"
    "hasQueue s1" "\<not> onceDone s1" using os_callD [OF 1] s0 by (simp_all add: q_def)
  have b2: "open_queues (os s2) = open_queues (os s1)" "open_sockets (os s2) = open_sockets (os s1)"
    "hasQueue s2" "\<not> onceDone s2" using os_callD [OF 2] b1 by simp_all
  note b3 = openRawSocket_balance [OF 3]
  have b4: "open_queues (os s4) = open_queues (os s3)" "open_sockets (os s4) = open_sockets (os s3)"
    "hasQueue s4 = hasQueue s3" "onceDone s4 = onceDone s3" "rawFD s4 = rawFD s3" using os_callD [OF 4] by simp_all
  have d: "open_queues (os (os_do env QueueClose u)) = open_queues (os u) - 1"
    "open_sockets (os (os_do env QueueClose u)) = open_sockets (os u)" for u
    by (simp_all add: os_do_def os_call_def Let_def)
  show ?thesis
    using b1 b2 b3 b4 nfq_Close_balance [of s4 env]
    by (auto simp: n d Let_def split: option.split)
qed

section \<open>What is transmitted\<close>

datatype emission = Accepted u32 | Raw bytes

fun output_of :: "oscall \<times> go_error option \<Rightarrow> emission list" where
  "output_of (SetVerdict i NfAccept, None) = [Accepted i]"
| "output_of (RawSendto fd a d, None) = [Raw d]"
| "output_of _ = []"

definition outputs :: "nfq \<Rightarrow> emission list" where
  "outputs s = concat (map output_of (os s))"

definition out_of :: "packet \<Rightarrow> emission" where
  "out_of p = (if Source p = SourceCaptured then Accepted (NFQID p) else Raw (Data p))"

definition sendable :: "packet \<Rightarrow> bool" where
  "sendable p \<longleftrightarrow> Data p \<noteq> [] \<and> (Source p = SourceCaptured \<or> 20 \<le> length (Data p))"

interpretation nfq_tx: transmitter "\<lambda>p. nfq_Send env (Some p)" "\<lambda>p. nfq_Drop env (Some p)" outputs out_of sendable
  for env
proof (unfold_locales, goal_cases)
  case (1 p s s')
  then show ?case
    by (auto simp: nfq_Send_def setVerdict_def inject_def os_call_def Let_def outputs_def out_of_def sendable_def
        split: if_splits)
next
  case (2 p s s' e)
  then show ?case
    by (auto simp: nfq_Send_def setVerdict_def inject_def os_call_def Let_def outputs_def split: if_splits)
next
  case (3 p s)
  show ?case
    by (cases "os_result env (os s) (SetVerdict (NFQID p) NfDrop)")
      (auto simp: nfq_Drop_def setVerdict_def os_call_def Let_def outputs_def)
qed

text \<open>A worker on this adapter, which was in the state \<^term>\<open>s0\<close> when the worker started, and what the
  adapter has transmitted for it.\<close>

abbreviation nfq_worker_env :: "nfq_os \<Rightarrow> (packet \<Rightarrow> go_error option \<times> packet) \<Rightarrow> nfq \<Rightarrow> adapter_env" where
  "nfq_worker_env env \<equiv> on_adapter (\<lambda>p. nfq_Send env (Some p)) (\<lambda>p. nfq_Drop env (Some p))"

definition nfq_transmitted :: "nfq_os \<Rightarrow> nfq \<Rightarrow> worker \<Rightarrow> emission list" where
  "nfq_transmitted env s0 w = outputs (replay (\<lambda>p. nfq_Send env (Some p)) (\<lambda>p. nfq_Drop env (Some p)) (calls w) s0)"

lemma nfq_transmitted_eq: "nfq_transmitted env s0 w = nfq_tx.transmitted env s0 w"
  by (simp add: nfq_transmitted_def nfq_tx.transmitted_def)

text \<open>C25. Fail-open through the NFQUEUE adapter transmits in order and exactly once.  The worker's
  Send and Drop are those of the adapter, on whatever state the worker's earlier calls have
  brought it to.  When the worker fails open on a flow and no error comes back, then the kernel
  has accepted or been given exactly the packets held for the flow, in this order (captured ones
  by verdict, others as raw bytes), and nothing else; after an error, exactly a proper prefix of
  them.  And dropping held packets transmits nothing.\<close>

theorem nfq_sends_in_order:
  assumes "\<forall>p\<in>set (HeldPackets st). sendable p" "failOpen (nfq_worker_env env calc s0) k st w = (e, w')"
  shows "(\<exists>n. nfq_transmitted env s0 w' = nfq_transmitted env s0 w @ map out_of (take n (HeldPackets st))
      \<and> (if e = None then n = length (HeldPackets st) else n < length (HeldPackets st)))
    \<and> nfq_transmitted env s0 (snd (dropHeld (nfq_worker_env env calc s0) (HeldPackets st) w)) = nfq_transmitted env s0 w"
  using nfq_tx.failOpen_transmits [OF assms] nfq_tx.dropHeld_transmits_nothing [OF prod.collapse [symmetric]]
  by (simp add: nfq_transmitted_eq)

text \<open>A kernel that takes every verdict, and a flow with two held packets.\<close>

lemma nfq_sends_in_order_witness:
  "let env = \<lparr>os_result = (\<lambda>_ _. None), os_fd = (\<lambda>_. 3)\<rparr>;
       s0 = fresh_nfq \<lparr>QueueNum = 0, QueueMaxLen = 0, CopyRange = 0, OptMark = 1\<rparr> [];
       ps = [sample_packet 7 0x18 [1], (sample_packet 7 0x18 [2])\<lparr>NFQID := 1\<rparr>];
       w = newWorker 0 (DefaultConfig 4)
   in nfq_transmitted env s0 (snd (failOpen (nfq_worker_env env (Pair None) s0) (KeyFromMeta zero_meta) ((new_flow_state 0)\<lparr>HeldPackets := ps\<rparr>) w)) = [Accepted 0, Accepted 1]"
proof -
  let ?env = "\<lparr>os_result = (\<lambda>_ _. None), os_fd = (\<lambda>_. 3)\<rparr>"
  let ?s0 = "fresh_nfq \<lparr>QueueNum = 0, QueueMaxLen = 0, CopyRange = 0, OptMark = 1\<rparr> []"
  let ?ps = "[sample_packet 7 0x18 [1], (sample_packet 7 0x18 [2])\<lparr>NFQID := 1\<rparr>]"
  let ?w = "newWorker 0 (DefaultConfig 4)"
  let ?st = "(new_flow_state 0)\<lparr>HeldPackets := ?ps\<rparr>"
  have p: "\<forall>p\<in>set ?ps. sendable p" by (simp add: sendable_def sample_packet_def)
  have "fst (send_all (nfq_worker_env ?env (Pair None) ?s0) ?ps ?w) = None" by code_simp
  then have "fst (failOpen (nfq_worker_env ?env (Pair None) ?s0) (KeyFromMeta zero_meta) ?st ?w) = None"
    by (auto simp: failOpen_def split: prod.splits option.splits)
  moreover have "nfq_transmitted ?env ?s0 ?w = []" "map out_of ?ps = [Accepted 0, Accepted 1]"
    by (simp_all add: nfq_transmitted_def outputs_def fresh_nfq_def out_of_def sample_packet_def newWorker_def Let_def)
  ultimately show ?thesis
    using nfq_sends_in_order [of ?st ?env "Pair None" ?s0 "KeyFromMeta zero_meta" ?w, OF _ prod.collapse [symmetric]] p
    by (auto simp: Let_def)
qed

section \<open>Flushing while callbacks arrive\<close>

text \<open>The adapter with the callbacks in progress, the phase of \<^verbatim>\<open>Flush\<close>, the packets that
  \<^verbatim>\<open>Recv\<close> has handed to the engine, and the identifiers of the packets that the
  kernel has delivered.\<close>

record nfq_system =
  ad :: nfq
  cbs :: "callback list"
  phase :: flush_phase
  handed :: "packet list"
  delivered_ids :: "u32 list"

datatype nfq_act = Deliver attribute | StepCallback nat | StepFlush "go_error option" | EngineRecv

fun cb_id :: "callback \<Rightarrow> u32 list" where
  "cb_id (Begun a) = (case (APayload a, APacketID a) of (Some _, Some i) \<Rightarrow> [i] | _ \<Rightarrow> [])"
| "cb_id (Admitted p) = [NFQID p]"

definition remove_at :: "nat \<Rightarrow> 'a list \<Rightarrow> 'a list" where
  "remove_at i xs = take i xs @ drop (Suc i) xs"

fun system_step :: "nfq_os \<Rightarrow> nfq_act \<Rightarrow> nfq_system \<Rightarrow> nfq_system option" where
  "system_step env (Deliver a) s = (case enter_cb a (ad s) of (cb, u) \<Rightarrow>
     Some (s\<lparr>ad := u, cbs := cbs s @ [cb], delivered_ids := delivered_ids s @ cb_id cb\<rparr>))"
| "system_step env (StepCallback i) s = (if i \<ge> length (cbs s) then None else
     case callback_step env (cbs s ! i) (ad s) of
       (None, u) \<Rightarrow> Some (s\<lparr>ad := u, cbs := remove_at i (cbs s)\<rparr>)
     | (Some cb, u) \<Rightarrow> Some (s\<lparr>ad := u, cbs := (cbs s)[i := cb]\<rparr>))"
| "system_step env (StepFlush ctx) s = (case flush_step env ctx (phase s) (ad s) of
     (ph, u) \<Rightarrow> Some (s\<lparr>ad := u, phase := ph\<rparr>))"
| "system_step env EngineRecv s = (case nfq_Recv ArmRecv (ad s) of
     Some (Inr p, u) \<Rightarrow> Some (s\<lparr>ad := u, handed := handed s @ [p]\<rparr>) | _ \<Rightarrow> None)"

fun system_run :: "nfq_os \<Rightarrow> nfq_act list \<Rightarrow> nfq_system \<Rightarrow> nfq_system option" where
  "system_run env [] s = Some s"
| "system_run env (a # as) s = (case system_step env a s of None \<Rightarrow> None | Some s' \<Rightarrow> system_run env as s')"

text \<open>Verdicts given by the adapter itself.\<close>

definition verdicts :: "u32 \<Rightarrow> os_log \<Rightarrow> nat" where
  "verdicts i l = length (filter (\<lambda>(c, r). \<exists>v. c = SetVerdict i v) l)"

definition where_is :: "u32 \<Rightarrow> nfq_system \<Rightarrow> nat" where
  "where_is i s = verdicts i (os (ad s)) + count_list (map NFQID (recvCh (ad s))) i
     + count_list (map NFQID (handed s)) i + count_list (concat (map cb_id (cbs s))) i"

fun past_wait :: "flush_phase \<Rightarrow> bool" where
  "past_wait (Draining _) = True" | "past_wait (FlushDone None) = True" | "past_wait _ = False"

definition system_inv :: "nfq_system \<Rightarrow> bool" where
  "system_inv s \<longleftrightarrow> hasQueue (ad s) \<and> inFlight (ad s) = int (length (cbs s))
     \<and> (\<forall>i. count_list (delivered_ids s) i = where_is i s)
     \<and> (phase s \<noteq> NotFlushing \<longrightarrow> flushing (ad s))
     \<and> (past_wait (phase s) \<longrightarrow> (\<forall>cb\<in>set (cbs s). \<exists>a. cb = Begun a))
     \<and> (phase s = FlushDone None \<longrightarrow> recvCh (ad s) = [])"

lemma count_remove_at:
  "i < length xs \<Longrightarrow> count_list (concat (map f (remove_at i xs))) x + count_list (f (xs ! i)) x
     = count_list (concat (map f xs)) x"
  unfolding remove_at_def by (subst (3) id_take_nth_drop [of i xs]) simp_all

lemma count_update:
  "i < length xs \<Longrightarrow> f y = f (xs ! i) \<Longrightarrow> count_list (concat (map f (xs[i := y]))) x = count_list (concat (map f xs)) x"
  by (simp add: map_update) (metis list_update_id nth_map)

lemma length_remove_at: "i < length xs \<Longrightarrow> length (remove_at i xs) = length xs - 1"
  by (simp add: remove_at_def)

lemma set_remove_at: "set (remove_at i xs) \<subseteq> set xs"
  by (auto simp: remove_at_def dest: in_set_takeD in_set_dropD)

lemma verdicts_snoc [simp]:
  "verdicts i (l @ [(SetVerdict j v, r)]) = verdicts i l + (if j = i then 1 else 0)"
  by (simp add: verdicts_def)

lemma setVerdict_simps:
  "hasQueue s \<Longrightarrow> setVerdict env i v s = (os_result env (os s) (SetVerdict i v),
     s\<lparr>os := os s @ [(SetVerdict i v, os_result env (os s) (SetVerdict i v))]\<rparr>)"
  by (simp add: setVerdict_def os_call_def Let_def)

text \<open>What a step of a callback does to the adapter.\<close>

lemma callback_step_spec:
  assumes "hasQueue u" "callback_step env cb u = (r, u')"
  shows "hasQueue u'" "flushing u' = flushing u"
    "r = None \<Longrightarrow> inFlight u' = inFlight u - 1 \<and> verdicts i (os u') + count_list (map NFQID (recvCh u')) i
        = verdicts i (os u) + count_list (map NFQID (recvCh u)) i + count_list (cb_id cb) i"
    "r = None \<Longrightarrow> (\<exists>a. cb = Begun a) \<Longrightarrow> recvCh u' = recvCh u"
    "r = Some cb' \<Longrightarrow> u' = u \<and> cb_id cb' = cb_id cb \<and> (\<exists>a. cb = Begun a) \<and> \<not> flushing u"
  using assms
  by (cases cb; auto simp: setVerdict_simps leave_cb_def split: option.splits if_splits)+

lemma flush_step_spec:
  assumes "hasQueue u" "flush_step env ctx ph u = (ph', u')"
  shows "hasQueue u'" "inFlight u' = inFlight u"
    "verdicts i (os u') + count_list (map NFQID (recvCh u')) i = verdicts i (os u) + count_list (map NFQID (recvCh u)) i"
    "ph' \<noteq> NotFlushing" "ph = NotFlushing \<or> flushing u \<Longrightarrow> flushing u'"
    "past_wait ph' \<Longrightarrow> past_wait ph \<or> inFlight u = 0" "ph' = FlushDone None \<Longrightarrow> ph \<noteq> FlushDone None \<Longrightarrow> recvCh u' = []"
    "recvCh u = [] \<Longrightarrow> recvCh u' = []"
  using assms
  by (cases ph; auto simp: setVerdict_simps nfq_stop_def split: option.splits if_splits list.splits)+

lemma system_invD:
  assumes "system_inv s"
  shows "hasQueue (ad s)" "inFlight (ad s) = int (length (cbs s))" "count_list (delivered_ids s) i = where_is i s"
    "phase s \<noteq> NotFlushing \<Longrightarrow> flushing (ad s)"
    "past_wait (phase s) \<Longrightarrow> cb \<in> set (cbs s) \<Longrightarrow> \<exists>a. cb = Begun a"
    "phase s = FlushDone None \<Longrightarrow> recvCh (ad s) = []"
  using assms by (auto simp: system_inv_def)

lemma StepFlush_inv:
  assumes inv: "system_inv s" and f: "flush_step env ctx (phase s) (ad s) = (ph, u)"
  shows "system_inv (s\<lparr>ad := u, phase := ph\<rparr>)"
proof -
  note d = system_invD [OF inv] and sp = flush_step_spec [OF system_invD(1) [OF inv] f]
  have "past_wait ph \<longrightarrow> (\<forall>cb\<in>set (cbs s). \<exists>a. cb = Begun a)"
    using sp(6) d(2,5) by (cases "past_wait (phase s)") auto
  moreover have "ph = FlushDone None \<longrightarrow> recvCh u = []"
    using sp(7,8) d(6) by (cases "phase s = FlushDone None") auto
  moreover have "count_list (delivered_ids s) i = where_is i (s\<lparr>ad := u, phase := ph\<rparr>)" for i
    using sp(3) [of i] d(3) [of i] by (simp add: where_is_def)
  moreover have "flushing u" using sp(5) d(4) by blast
  ultimately show ?thesis using sp(1,2) d(2) by (simp add: system_inv_def)
qed

lemma StepCallback_inv:
  assumes inv: "system_inv s" and i: "i < length (cbs s)" and c: "callback_step env (cbs s ! i) (ad s) = (r, u)"
  shows "system_inv (s\<lparr>ad := u, cbs := (case r of None \<Rightarrow> remove_at i (cbs s) | Some cb \<Rightarrow> (cbs s)[i := cb])\<rparr>)"
    (is "system_inv ?t")
proof (cases r)
  case None
  note d = system_invD [OF inv] and sp = callback_step_spec [OF system_invD(1) [OF inv] c]
  have "count_list (delivered_ids s) j = where_is j ?t" for j
    using sp(3) [OF None, of j] d(3) [of j] count_remove_at [OF i, of cb_id j] None by (simp add: where_is_def)
  moreover have "recvCh u = []" if "phase s = FlushDone None"
    using that d(6) sp(4) [OF None] d(5) [of "cbs s ! i"] i by simp
  moreover have "past_wait (phase s) \<longrightarrow> (\<forall>cb\<in>set (remove_at i (cbs s)). \<exists>a. cb = Begun a)"
    using d(5) set_remove_at [of i "cbs s"] by blast
  moreover have "int (length (remove_at i (cbs s))) = int (length (cbs s)) - 1"
    using i by (simp add: length_remove_at)
  ultimately show ?thesis using sp(1,2) sp(3) [OF None] d(2,4) None by (simp add: system_inv_def)
next
  case (Some cb)
  note d = system_invD [OF inv] and sp = callback_step_spec [OF system_invD(1) [OF inv] c]
  note sp5 = sp(5) [OF Some]
  have "where_is j ?t = where_is j s" for j
    using sp5 count_update [OF i, of cb_id cb j] Some by (simp add: where_is_def)
  moreover have "phase s = NotFlushing" using sp5 d(4) by blast
  ultimately show ?thesis using d(1,2,3) sp5 Some by (simp add: system_inv_def)
qed

lemma system_step_inv:
  assumes inv: "system_inv s" and st: "system_step env a s = Some s'"
  shows "system_inv s'" "phase s = FlushDone None \<Longrightarrow> phase s' = FlushDone None"
proof -
  show "system_inv s'"
  proof (cases a)
    case (Deliver at)
    then show ?thesis using inv st by (auto simp: enter_cb_def system_inv_def where_is_def)
  next
    case EngineRecv
    then obtain p ps where "recvCh (ad s) = p # ps" "s' = s\<lparr>ad := (ad s)\<lparr>recvCh := ps\<rparr>, handed := handed s @ [p]\<rparr>"
      using st by (auto simp: nfq_Recv_def split: list.splits)
    then show ?thesis using inv by (auto simp: system_inv_def where_is_def)
  next
    case (StepFlush ctx)
    then show ?thesis using st StepFlush_inv [OF inv] by (auto split: prod.splits)
  next
    case (StepCallback i)
    then obtain r u where i: "i < length (cbs s)" and c: "callback_step env (cbs s ! i) (ad s) = (r, u)"
      using st by (auto split: if_splits prod.splits)
    then have "s' = s\<lparr>ad := u, cbs := (case r of None \<Rightarrow> remove_at i (cbs s) | Some cb \<Rightarrow> (cbs s)[i := cb])\<rparr>"
      using st StepCallback by (cases r) simp_all
    then show ?thesis using StepCallback_inv [OF inv i c] by simp
  qed
  show "phase s' = FlushDone None" if "phase s = FlushDone None"
    using that st by (cases a) (auto split: prod.splits if_splits option.splits sum.splits)
qed

lemma system_run_inv:
  "system_inv s \<Longrightarrow> system_run env as s = Some s' \<Longrightarrow>
    system_inv s' \<and> (phase s = FlushDone None \<longrightarrow> phase s' = FlushDone None)"
  by (induction as arbitrary: s) (auto split: option.splits dest: system_step_inv)

definition opened :: "nfq \<Rightarrow> nfq_system" where
  "opened u = \<lparr>ad = u, cbs = [], phase = NotFlushing, handed = [], delivered_ids = []\<rparr>"

lemma opened_inv: "NewNFQueue env opts [] = Inr u \<Longrightarrow> system_inv (opened u)"
proof -
  assume "NewNFQueue env opts [] = Inr u"
  then have "hasQueue u \<and> recvCh u = [] \<and> inFlight u = 0 \<and> (\<forall>i. verdicts i (os u) = 0)"
    by (auto simp: NewNFQueue_def openRawSocket_def os_call_def Let_def fresh_nfq_def verdicts_def
        split: option.splits prod.splits if_splits)
  then show ?thesis by (simp add: system_inv_def opened_def where_is_def)
qed

text \<open>C5. No captured packet is left behind by a flush, in any interleaving of the library's
  callbacks with the receive loop and \<^verbatim>\<open>Flush\<close>: once \<^verbatim>\<open>Flush\<close> has returned nil, the
  receive buffer is empty and stays empty, and every packet delivered, before or after, that
  was not handed to the engine has been given its verdict exactly once as soon as no callback
  is in progress.\<close>

theorem nfq_flush_complete:
  assumes "NewNFQueue env opts [] = Inr u" "system_run env as (opened u) = Some s" "phase s = FlushDone None"
    and "system_run env bs s = Some s'"
  shows "recvCh (ad s') = [] \<and> (cbs s' = [] \<longrightarrow>
    (\<forall>i. count_list (delivered_ids s') i = verdicts i (os (ad s')) + count_list (map NFQID (handed s')) i))"
proof -
  have "system_inv s" using system_run_inv [OF opened_inv [OF assms(1)] assms(2)] by simp
  then have "system_inv s'" "phase s' = FlushDone None" using system_run_inv [OF _ assms(4)] assms(3) by auto
  then show ?thesis by (simp add: system_inv_def where_is_def)
qed

text \<open>Five packets: the first goes to the engine, the second waits in the buffer, the third passes
  the test before the flush begins, the fourth and fifth come too late.\<close>

definition quiet_os :: nfq_os where
  "quiet_os = \<lparr>os_result = (\<lambda>_ _. None), os_fd = (\<lambda>_. 3)\<rparr>"

definition attr_of :: "u32 \<Rightarrow> attribute" where
  "attr_of i = \<lparr>APayload = Some [1, 2, 3], APacketID = Some i\<rparr>"

definition flush_acts :: "nfq_act list" where
  "flush_acts = [Deliver (attr_of 1), StepCallback 0, StepCallback 0, EngineRecv, Deliver (attr_of 2), StepCallback 0,
     StepCallback 0, Deliver (attr_of 3), StepCallback 0, StepFlush None, StepFlush None, StepFlush None,
     Deliver (attr_of 4), StepCallback 0, StepCallback 0, StepFlush None, StepFlush None, StepFlush None, StepFlush None]"

lemma nfq_flush_complete_witness:
  "\<exists>u s s'. NewNFQueue quiet_os \<lparr>QueueNum = 0, QueueMaxLen = 0, CopyRange = 0, OptMark = 1\<rparr> [] = Inr u
    \<and> system_run quiet_os flush_acts (opened u) = Some s \<and> phase s = FlushDone None
    \<and> system_run quiet_os [Deliver (attr_of 5), StepCallback 0] s = Some s' \<and> recvCh (ad s') = []
    \<and> verdicts 5 (os (ad s')) = 1 \<and> verdicts 3 (os (ad s')) = 1 \<and> verdicts 1 (os (ad s')) = 0"
proof -
  define o1 where "o1 = \<lparr>QueueNum = 0, QueueMaxLen = 0, CopyRange = 0, OptMark = 1\<rparr>"
  define u where "u = projr (NewNFQueue quiet_os o1 [])"
  define s where "s = the (system_run quiet_os flush_acts (opened u))"
  define s' where "s' = the (system_run quiet_os [Deliver (attr_of 5), StepCallback 0] s)"
  have "isl (NewNFQueue quiet_os o1 []) = False" unfolding o1_def by code_simp
  then have u: "NewNFQueue quiet_os o1 [] = Inr u" by (simp add: u_def)
  have "system_run quiet_os flush_acts (opened u) \<noteq> None" unfolding u_def o1_def by code_simp
  then have s: "system_run quiet_os flush_acts (opened u) = Some s" by (simp add: s_def)
  have p: "phase s = FlushDone None" "cbs s' = []" unfolding s'_def s_def u_def o1_def by code_simp+
  have "system_run quiet_os [Deliver (attr_of 5), StepCallback 0] s \<noteq> None" unfolding s_def u_def o1_def by code_simp
  then have s': "system_run quiet_os [Deliver (attr_of 5), StepCallback 0] s = Some s'" by (simp add: s'_def)
  have d: "map (count_list (delivered_ids s')) [1, 3, 5] = [1, 1, 1]"
    "map (count_list (map NFQID (handed s'))) [1, 3, 5] = [1, 0, 0]"
    unfolding s'_def s_def u_def o1_def by code_simp+
  show ?thesis
    using nfq_flush_complete [OF u s p(1) s'] p d u s s' unfolding o1_def
    by (intro exI [of _ u] exI [of _ s] exI [of _ s']) (auto dest: spec [of _ 1] spec [of _ 3] spec [of _ 5])
qed

end
