(* ===== verification/Divert.thy ===== *)
theory Divert
  imports AdapterChecksums Transmitter
begin

text \<open>
  The FreeBSD divert adapter (\<^verbatim>\<open>internal/adapter/divert_freebsd.go\<close>).  The socket calls
  are the record \<open>divert_os\<close>; \<open>sys\<close> is the log of the packets sent.  What
  \<^verbatim>\<open>Recvfrom\<close> returns is a list of outcomes: the socket's side of the conversation.
\<close>

section \<open>Addresses\<close>

datatype sockaddr = SockaddrInet4 int ip4 | SockaddrInet6 int bytes u32 | SockaddrOther

definition AF_INET :: u16 where [go_defs]: "AF_INET = 2"
definition AF_INET6 :: u16 where [go_defs]: "AF_INET6 = 28"

definition addressLen :: nat where [go_defs]: "addressLen = 256"

definition bytes_of_ip :: "ip4 \<Rightarrow> bytes" where
  "bytes_of_ip ip = (case ip of (a, b, c, d) \<Rightarrow> [a, b, c, d])"

definition put_bytes :: "bytes \<Rightarrow> nat \<Rightarrow> bytes \<Rightarrow> bytes" where
  "put_bytes d i bs = take i d @ bs @ drop (i + length bs) d"

definition encodeDivertAddr :: "sockaddr \<Rightarrow> go_error + bytes" where
  "encodeDivertAddr sa = (case sa of
     SockaddrInet4 port ip \<Rightarrow>
       Inr (put_bytes (put_be16 (put_be16 (replicate addressLen 0) 0 AF_INET) 2 (word_of_int port)) 4 (bytes_of_ip ip))
   | _ \<Rightarrow> Inl (ErrNew ''divert addr unsupported''))"

definition with_port :: "u16 \<Rightarrow> u16 \<Rightarrow> (u16 \<Rightarrow> sockaddr) \<Rightarrow> go_error + sockaddr" where
  "with_port port fallbackPort f = (
     let port = (if port = 0 then fallbackPort else port)
     in if port = 0 then Inl (ErrNew ''divert addr missing port'') else Inr (f port))"

definition legacyDivertAddr :: "bytes \<Rightarrow> u16 \<Rightarrow> go_error + sockaddr" where
  "legacyDivertAddr a fallbackPort =
     with_port (be16 a 0) fallbackPort (\<lambda>p. SockaddrInet4 (uint p) (a ! 2, a ! 3, a ! 4, a ! 5))"

definition decodeDivertAddr :: "bytes \<Rightarrow> u16 \<Rightarrow> go_error + sockaddr" where
  "decodeDivertAddr a fallbackPort = (
     let family = be16 a 0 in
     if family = AF_INET then
       with_port (be16 a 2) fallbackPort (\<lambda>p. SockaddrInet4 (uint p) (a ! 4, a ! 5, a ! 6, a ! 7))
     else if family = AF_INET6 then
       with_port (be16 a 2) fallbackPort (\<lambda>p. SockaddrInet6 (uint p) (take 16 (drop 4 a)) (be32 a 20))
     else legacyDivertAddr a fallbackPort)"

section \<open>The adapter\<close>

datatype divert_call = Socket | Bind u16 | SetReadTimeout | Sendto sockaddr bytes | CloseFd int

type_synonym divert_log = "(divert_call \<times> go_error option) list"

record divert_os =
  div_result :: "divert_log \<Rightarrow> divert_call \<Rightarrow> go_error option"
  div_fd :: "divert_log \<Rightarrow> nat"

record divert =
  fd :: int
  dport :: u16
  dOnce :: bool
  sys :: divert_log

definition div_call :: "divert_os \<Rightarrow> divert_call \<Rightarrow> divert \<Rightarrow> go_error option \<times> divert" where
  "div_call env c s = (let r = div_result env (sys s) c in (r, s\<lparr>sys := sys s @ [(c, r)]\<rparr>))"

definition div_Close :: "divert_os \<Rightarrow> divert \<Rightarrow> go_error option \<times> divert" where
  "div_Close env s = (if dOnce s then (None, s) else
     let s = s\<lparr>dOnce := True\<rparr>
     in if fd s \<ge> 0 then (case div_call env (CloseFd (fd s)) s of (e, s) \<Rightarrow> (e, s\<lparr>fd := - 1\<rparr>))
        else (None, s))"

definition NewDivert :: "divert_os \<Rightarrow> u16 \<Rightarrow> divert_log \<Rightarrow> (go_error \<times> divert_log) + divert" where
  "NewDivert env port l = (
     if port = 0 then Inl (ErrNew ''divert port must be > 0'', l) else
     let s = \<lparr>fd = - 1, dport = port, dOnce = False, sys = l\<rparr>
     in case div_call env Socket s of
       (Some e, s) \<Rightarrow> Inl (e, sys s)
     | (None, s) \<Rightarrow>
       let s = s\<lparr>fd := int (div_fd env l)\<rparr>
       in case div_call env (Bind port) s of
         (Some e, s) \<Rightarrow> Inl (e, sys (snd (div_Close env s)))
       | (None, s) \<Rightarrow> (case div_call env SetReadTimeout s of
           (Some e, s) \<Rightarrow> Inl (e, sys (snd (div_Close env s)))
         | (None, s) \<Rightarrow> Inr s))"

definition div_Send :: "divert_os \<Rightarrow> packet option \<Rightarrow> divert \<Rightarrow> go_error option \<times> divert" where
  "div_Send env po s = (if fd s < 0 then (Some ErrNotImplemented, s) else
     case po of None \<Rightarrow> (None, s)
     | Some pkt \<Rightarrow> if Data pkt = [] then (None, s) else
         (case decodeDivertAddr (Addr pkt) (dport s) of
            Inl e \<Rightarrow> (Some e, s)
          | Inr to \<Rightarrow> div_call env (Sendto to (Data pkt)) s))"

definition div_Drop :: "packet option \<Rightarrow> divert \<Rightarrow> go_error option \<times> divert" where
  "div_Drop po s = (None, s)"

text \<open>The same code as in the NFQUEUE adapter.\<close>

definition div_CalcChecksums :: "packet option \<Rightarrow> go_error option \<times> packet option" where
  "div_CalcChecksums po = (case po of None \<Rightarrow> (None, None) | Some pkt \<Rightarrow>
     if length (Data pkt) < 20 then (None, Some pkt) else
     let ipHeaderLen = unat (Data pkt ! 0 AND 0x0f) * 4 in
     if ipHeaderLen < 20 \<or> length (Data pkt) < ipHeaderLen + 20 then (None, Some pkt) else
     let d = SetIPv4ChecksumZero (Data pkt);
         d = SetTCPChecksumZero d ipHeaderLen;
         ipSum = IPv4Checksum d ipHeaderLen;
         tcpSum = TCPChecksumIPv4 d ipHeaderLen;
         d = SetIPv4Checksum d ipSum;
         d = SetTCPChecksum d ipHeaderLen tcpSum
     in (None, Some (pkt\<lparr>Data := d\<rparr>)))"

lemma div_CalcChecksums_same: "div_CalcChecksums (Some p) = map_prod id Some (CalcChecksums p)"
  by (simp add: div_CalcChecksums_def CalcChecksums_def Let_def)

interpretation div_sums: checksummer "\<lambda>p. map_prod id the (div_CalcChecksums (Some p))"
  using nfq.checksummer_axioms by (simp add: div_CalcChecksums_same prod.map_comp o_def prod.map_ident id_def)

text \<open>What one \<^verbatim>\<open>Recvfrom\<close> returns.\<close>

datatype recv_out = Got bytes sockaddr | Interrupted | WouldBlock | RecvFails go_error

text \<open>
  \<^verbatim>\<open>Recv\<close>, given what its calls of \<^verbatim>\<open>Recvfrom\<close> return and the state of the context
  after each; \<^const>\<open>None\<close> is a call that has not returned after these.
\<close>

fun div_Recv_loop :: "divert_os \<Rightarrow> (recv_out \<times> go_error option) list \<Rightarrow> divert \<Rightarrow> ((go_error + packet) \<times> divert) option" where
  "div_Recv_loop env [] s = None"
| "div_Recv_loop env ((Interrupted, _) # outs) s = div_Recv_loop env outs s"
| "div_Recv_loop env ((WouldBlock, ctx) # outs) s = (case ctx of Some e \<Rightarrow> Some (Inl e, s)
     | None \<Rightarrow> div_Recv_loop env outs s)"
| "div_Recv_loop env ((RecvFails e, _) # outs) s = Some (Inl e, s)"
| "div_Recv_loop env ((Got d sa, _) # outs) s = (if d = [] then div_Recv_loop env outs s else
     case encodeDivertAddr sa of
       Inl _ \<Rightarrow> (case div_call env (Sendto sa d) s of
           (Some e, s) \<Rightarrow> Some (Inl e, s) | (None, s) \<Rightarrow> div_Recv_loop env outs s)
     | Inr a \<Rightarrow> Some (Inr \<lparr>Data = d, Addr = a, Meta = zero_meta, Source = SourceCaptured, NFQID = 0\<rparr>, s))"

definition div_Recv :: "divert_os \<Rightarrow> (recv_out \<times> go_error option) list \<Rightarrow> divert \<Rightarrow> ((go_error + packet) \<times> divert) option" where
  "div_Recv env outs s = (if fd s < 0 then Some (Inl ErrNotImplemented, s) else div_Recv_loop env outs s)"

definition join_errs :: "go_error list \<Rightarrow> go_error option" where
  "join_errs es = (if es = [] then None else Some (ErrJoin es))"

text \<open>\<^verbatim>\<open>Flush\<close>: each round tests the context and then receives without blocking.\<close>

fun div_Flush_loop :: "divert_os \<Rightarrow> (go_error option \<times> recv_out) list \<Rightarrow> go_error list \<Rightarrow> divert
    \<Rightarrow> (go_error option \<times> divert) option" where
  "div_Flush_loop env [] es s = None"
| "div_Flush_loop env ((Some e, _) # outs) es s = Some (Some (if es = [] then e else ErrJoin (es @ [e])), s)"
| "div_Flush_loop env ((None, Interrupted) # outs) es s = div_Flush_loop env outs es s"
| "div_Flush_loop env ((None, WouldBlock) # outs) es s = Some (join_errs es, s)"
| "div_Flush_loop env ((None, RecvFails e) # outs) es s = Some (join_errs (es @ [e]), s)"
| "div_Flush_loop env ((None, Got d sa) # outs) es s = (if d = [] then div_Flush_loop env outs es s else
     case div_call env (Sendto sa d) s of
       (None, s) \<Rightarrow> div_Flush_loop env outs es s | (Some e, s) \<Rightarrow> div_Flush_loop env outs (es @ [e]) s)"

definition div_Flush :: "divert_os \<Rightarrow> (go_error option \<times> recv_out) list \<Rightarrow> divert \<Rightarrow> (go_error option \<times> divert) option" where
  "div_Flush env outs s = (if fd s < 0 then Some (None, s) else div_Flush_loop env outs [] s)"

section \<open>Addresses are kept\<close>

lemma with_port_ok: "port \<noteq> 0 \<Longrightarrow> with_port port fb f = Inr (f port)"
  by (simp add: with_port_def)

lemma encoded_fields:
  assumes "encodeDivertAddr (SockaddrInet4 port ip) = Inr a"
  shows "length a = addressLen" "be16 a 0 = AF_INET" "be16 a 2 = word_of_int port" "(a ! 4, a ! 5, a ! 6, a ! 7) = ip"
proof -
  let ?w = "word_of_int port :: u16"
  have bs: "length (bytes_of_ip ip) = 4" by (simp add: bytes_of_ip_def split: prod.split)
  let ?d = "put_be16 (put_be16 (replicate addressLen 0) 0 AF_INET) 2 ?w"
  have a: "a = put_bytes ?d 4 (bytes_of_ip ip)" using assms by (simp add: encodeDivertAddr_def)
  have n: "a ! k = ?d ! k" if "k < 4" for k
    using that by (simp add: a put_bytes_def nth_append addressLen_def)
  show "length a = addressLen" by (simp add: a put_bytes_def bs addressLen_def)
  show "be16 a 0 = AF_INET" "be16 a 2 = ?w"
    unfolding be16_def using n [of 0] n [of 1] n [of 2] n [of 3]
      be16_put_be16 [of 2 "put_be16 (replicate addressLen 0) 0 AF_INET" ?w]
      be16_put_be16 [of 0 "replicate addressLen 0" AF_INET]
    by (simp_all add: be16_def nth_put_be16 addressLen_def numeral_eq_Suc)
  show "(a ! 4, a ! 5, a ! 6, a ! 7) = ip"
    by (cases ip) (simp add: a put_bytes_def bytes_of_ip_def nth_append addressLen_def)
qed

lemma decode_encoded:
  assumes "encodeDivertAddr (SockaddrInet4 port ip) = Inr a"
  shows "decodeDivertAddr a fb = with_port (word_of_int port) fb (\<lambda>p. SockaddrInet4 (uint p) ip)"
  unfolding decodeDivertAddr_def Let_def encoded_fields [OF assms] by simp

lemma port_word:
  assumes "0 < port" "port < 65536"
  shows "uint (word_of_int port :: u16) = port" "(word_of_int port :: u16) \<noteq> 0"
proof -
  show u: "uint (word_of_int port :: u16) = port" using assms by (simp add: uint_word_of_int)
  show "(word_of_int port :: u16) \<noteq> 0" using u assms by force
qed

text \<open>C18. Addresses survive the round trip: exactly the IPv4 addresses are encoded, and an encoded
  address with a port decodes to itself; the adapter's own port stands in for a missing one,
  and without either the decoder reports an error.\<close>

theorem divert_addr_roundtrip:
  "case encodeDivertAddr sa of
     Inl e \<Rightarrow> \<forall>port ip. sa \<noteq> SockaddrInet4 port ip
   | Inr a \<Rightarrow> \<exists>port ip. sa = SockaddrInet4 port ip
       \<and> (0 < port \<and> port < 65536 \<longrightarrow> decodeDivertAddr a fb = Inr sa)
       \<and> (port = 0 \<longrightarrow> decodeDivertAddr a fb = (if fb = 0 then Inl (ErrNew ''divert addr missing port'')
            else Inr (SockaddrInet4 (uint fb) ip)))"
proof (cases sa)
  case (SockaddrInet4 port ip)
  then obtain a where a: "encodeDivertAddr sa = Inr a" by (simp add: encodeDivertAddr_def)
  then show ?thesis
    using decode_encoded [of port ip a fb] port_word [of port] by (simp add: SockaddrInet4 with_port_def)
qed (simp_all add: encodeDivertAddr_def)

lemma divert_addr_roundtrip_witness:
  "\<exists>a. encodeDivertAddr (SockaddrInet4 8668 (10, 0, 0, 1)) = Inr a
     \<and> decodeDivertAddr a 5 = Inr (SockaddrInet4 8668 (10, 0, 0, 1))"
  using divert_addr_roundtrip [of "SockaddrInet4 8668 (10, 0, 0, 1)" 5] by (simp add: encodeDivertAddr_def)

text \<open>The layout without a family, which the decoder still accepts.\<close>

definition legacyAddr :: "u16 \<Rightarrow> ip4 \<Rightarrow> bytes" where
  "legacyAddr port ip = put_bytes (put_be16 (replicate addressLen 0) 0 port) 2 (bytes_of_ip ip)"

lemma legacy_fields:
  "be16 (legacyAddr port ip) 0 = port"
  "(legacyAddr port ip ! 2, legacyAddr port ip ! 3, legacyAddr port ip ! 4, legacyAddr port ip ! 5) = ip"
proof -
  have "legacyAddr port ip ! k = put_be16 (replicate addressLen 0) 0 port ! k" if "k < 2" for k
    using that by (simp add: legacyAddr_def put_bytes_def nth_append addressLen_def)
  then show "be16 (legacyAddr port ip) 0 = port"
    using be16_put_be16 [of 0 "replicate addressLen 0" port] by (simp add: be16_def addressLen_def)
  show "(legacyAddr port ip ! 2, legacyAddr port ip ! 3, legacyAddr port ip ! 4, legacyAddr port ip ! 5) = ip"
    by (cases ip) (simp add: legacyAddr_def put_bytes_def bytes_of_ip_def nth_append addressLen_def)
qed

text \<open>The layout without a family is ambiguous: it is read correctly for every port but 2 and
  28, which are taken for address families; so an address with port 2 is decoded to another
  port and another host.\<close>

theorem legacy_addr_ambiguous:
  "(port \<noteq> 0 \<and> port \<noteq> 2 \<and> port \<noteq> 28 \<longrightarrow>
      decodeDivertAddr (legacyAddr port ip) fb = Inr (SockaddrInet4 (uint port) ip))
   \<and> decodeDivertAddr (legacyAddr 2 (10, 0, 0, 1)) fb = Inr (SockaddrInet4 2560 (0, 1, 0, 0))"
proof
  show "port \<noteq> 0 \<and> port \<noteq> 2 \<and> port \<noteq> 28 \<longrightarrow>
      decodeDivertAddr (legacyAddr port ip) fb = Inr (SockaddrInet4 (uint port) ip)"
    by (simp add: decodeDivertAddr_def legacyDivertAddr_def legacy_fields with_port_ok AF_INET_def AF_INET6_def)
  have "be16 (legacyAddr 2 (10, 0, 0, 1)) 0 = 2" "be16 (legacyAddr 2 (10, 0, 0, 1)) 2 = 2560"
    "map (nth (legacyAddr 2 (10, 0, 0, 1))) [4, 5, 6, 7] = [0, 1, 0, 0]" by code_simp+
  then show "decodeDivertAddr (legacyAddr 2 (10, 0, 0, 1)) fb = Inr (SockaddrInet4 2560 (0, 1, 0, 0))"
    by (simp add: decodeDivertAddr_def with_port_ok AF_INET_def)
qed

lemma legacy_addr_ambiguous_witness:
  "decodeDivertAddr (legacyAddr 8668 (10, 0, 0, 1)) 5 = Inr (SockaddrInet4 8668 (10, 0, 0, 1))"
  using legacy_addr_ambiguous [of 8668 "(10, 0, 0, 1)" 5] by simp

section \<open>Sending and draining\<close>

text \<open>What has left through the socket.\<close>

definition div_outputs :: "divert \<Rightarrow> (sockaddr \<times> bytes) list" where
  "div_outputs s = concat (map (\<lambda>(c, r). case (c, r) of (Sendto to d, None) \<Rightarrow> [(to, d)] | _ \<Rightarrow> []) (sys s))"

definition div_out_of :: "packet \<Rightarrow> sockaddr \<times> bytes" where
  "div_out_of p = (projr (decodeDivertAddr (Addr p) 0), Data p)"

definition div_sendable :: "packet \<Rightarrow> bool" where
  "div_sendable p \<longleftrightarrow> Data p \<noteq> [] \<and> \<not> isl (decodeDivertAddr (Addr p) 0)"

lemma fallback_unused: "decodeDivertAddr a 0 = Inr to \<Longrightarrow> decodeDivertAddr a fb = Inr to"
  by (auto simp: decodeDivertAddr_def legacyDivertAddr_def with_port_def Let_def split: if_splits)

lemma div_callD: "div_call env c s = (r, s') \<Longrightarrow> s' = s\<lparr>sys := sys s @ [(c, r)]\<rparr>"
  by (auto simp: div_call_def Let_def)

lemma div_outputs_snoc [simp]:
  "div_outputs (s\<lparr>sys := sys s @ [(c, r)]\<rparr>) = div_outputs s @ (case (c, r) of (Sendto to d, None) \<Rightarrow> [(to, d)] | _ \<Rightarrow> [])"
  by (simp add: div_outputs_def)

interpretation div_tx: transmitter "\<lambda>p. div_Send env (Some p)" "\<lambda>p. div_Drop (Some p)" div_outputs div_out_of div_sendable
  for env
proof (unfold_locales, goal_cases)
  case (1 p s s')
  then obtain to where to: "decodeDivertAddr (Addr p) 0 = Inr to"
    by (cases "decodeDivertAddr (Addr p) 0") (auto simp: div_sendable_def)
  then show ?case
    using 1 fallback_unused [OF to] by (auto simp: div_Send_def div_sendable_def div_out_of_def split: if_splits dest!: div_callD)
next
  case (2 p s s' e)
  then show ?case by (auto simp: div_Send_def split: if_splits sum.splits dest!: div_callD)
qed (simp add: div_Drop_def)

text \<open>What \<^verbatim>\<open>Recv\<close> has taken from the socket, a successful \<^verbatim>\<open>Send\<close> puts back
  unchanged and to where it came from: for any sequence of receive results that ends with an
  IPv4 packet with a port, after sending the packet received the only thing that has left
  besides packets of other address families is that packet, with the same bytes and address.\<close>

theorem divert_recv_send:
  assumes "0 \<le> fd s" "0 < port" "port < 65536" "d \<noteq> []"
    and "\<forall>(o', ctx)\<in>set outs. (o' = Interrupted \<or> o' = WouldBlock) \<and> ctx = None"
  shows "\<exists>p. div_Recv env (outs @ [(Got d (SockaddrInet4 port ip), ctx)]) s = Some (Inr p, s) \<and> Source p = SourceCaptured
    \<and> div_Send env (Some p) s = div_call env (Sendto (SockaddrInet4 port ip) d) s"
proof -
  obtain a where a: "encodeDivertAddr (SockaddrInet4 port ip) = Inr a" by (simp add: encodeDivertAddr_def)
  let ?p = "\<lparr>Data = d, Addr = a, Meta = zero_meta, Source = SourceCaptured, NFQID = 0\<rparr>"
  have "div_Recv_loop env (outs @ [(Got d (SockaddrInet4 port ip), ctx)]) s = Some (Inr ?p, s)"
    using assms(5) by (induction outs) (auto simp: a assms(4))
  moreover have "decodeDivertAddr a (dport s) = Inr (SockaddrInet4 port ip)"
    using decode_encoded [OF a] port_word [OF assms(2,3)] by (simp add: with_port_def)
  ultimately show ?thesis
    using assms(1,4) by (intro exI [of _ ?p]) (simp add: div_Recv_def div_Send_def)
qed

lemma divert_recv_send_witness:
  "\<exists>p. div_Recv \<lparr>div_result = (\<lambda>_ _. None), div_fd = (\<lambda>_. 3)\<rparr>
      ([(Interrupted, None), (WouldBlock, None)] @ [(Got [69, 0] (SockaddrInet4 8668 (10, 0, 0, 1)), None)])
      \<lparr>fd = 3, dport = 8668, dOnce = False, sys = []\<rparr>
      = Some (Inr p, \<lparr>fd = 3, dport = 8668, dOnce = False, sys = []\<rparr>) \<and> Source p = SourceCaptured"
  using divert_recv_send [of "\<lparr>fd = 3, dport = 8668, dOnce = False, sys = []\<rparr>" 8668 "[69, 0]"
      "[(Interrupted, None), (WouldBlock, None)]"] by fastforce

lemma div_Flush_loop_drains:
  "\<exists>r s'. div_Flush_loop env (map (\<lambda>(d, sa). (None, Got d sa)) qs @ [(None, WouldBlock)]) es s = Some (r, s')
     \<and> fd s' = fd s \<and> (\<exists>rs. length rs = length (filter (\<lambda>(d, sa). d \<noteq> []) qs)
         \<and> sys s' = sys s @ zip (map (\<lambda>(d, sa). Sendto sa d) (filter (\<lambda>(d, sa). d \<noteq> []) qs)) rs
         \<and> (r = None \<longleftrightarrow> es = [] \<and> (\<forall>x\<in>set rs. x = None)))"
proof (induction qs arbitrary: es s)
  case Nil
  show ?case by (simp add: join_errs_def)
next
  case (Cons q qs)
  obtain d sa where q: "q = (d, sa)" by force
  show ?case
  proof (cases "d = []")
    case False
    obtain x s1 where c: "div_call env (Sendto sa d) s = (x, s1)" by force
    note s1 = div_callD [OF c]
    let ?es = "case x of None \<Rightarrow> es | Some e \<Rightarrow> es @ [e]"
    obtain r s' rs where IH: "div_Flush_loop env (map (\<lambda>(d, sa). (None, Got d sa)) qs @ [(None, WouldBlock)]) ?es s1 = Some (r, s')"
      "fd s' = fd s1" "length rs = length (filter (\<lambda>(d, sa). d \<noteq> []) qs)"
      "sys s' = sys s1 @ zip (map (\<lambda>(d, sa). Sendto sa d) (filter (\<lambda>(d, sa). d \<noteq> []) qs)) rs"
      "r = None \<longleftrightarrow> ?es = [] \<and> (\<forall>x\<in>set rs. x = None)"
      using Cons.IH [of ?es s1] by blast
    have "div_Flush_loop env (map (\<lambda>(d, sa). (None, Got d sa)) (q # qs) @ [(None, WouldBlock)]) es s = Some (r, s')"
      using IH(1) False by (simp add: q c split: option.splits)
    then show ?thesis
      using IH(2-) s1 False by (intro exI [of _ r] exI [of _ s'] conjI) (auto simp: q intro!: exI [of _ "x # rs"] split: option.splits)
  qed (use Cons.IH [of es s] q in simp)
qed

text \<open>\<^verbatim>\<open>Flush\<close> drains the socket and then returns: whatever is queued, every nonempty
  packet is written back once, in order and to its own address (also addresses the adapter
  cannot encode), and the result is nil exactly when all these writes succeeded.\<close>

theorem divert_flush_drains:
  assumes "0 \<le> fd s"
  shows "\<exists>r s' rs. div_Flush env (map (\<lambda>(d, sa). (None, Got d sa)) qs @ [(None, WouldBlock)]) s = Some (r, s')
     \<and> length rs = length (filter (\<lambda>(d, sa). d \<noteq> []) qs)
     \<and> sys s' = sys s @ zip (map (\<lambda>(d, sa). Sendto sa d) (filter (\<lambda>(d, sa). d \<noteq> []) qs)) rs
     \<and> (r = None \<longleftrightarrow> (\<forall>x\<in>set rs. x = None))"
  using div_Flush_loop_drains [of env qs "[]" s] assms by (simp add: div_Flush_def) blast

lemma divert_flush_drains_witness:
  "\<exists>s'. div_Flush \<lparr>div_result = (\<lambda>_ _. None), div_fd = (\<lambda>_. 3)\<rparr>
      [(None, Got [1] SockaddrOther), (None, Got [] SockaddrOther), (None, Got [2, 3] (SockaddrInet4 5 (1, 1, 1, 1))), (None, WouldBlock)]
      \<lparr>fd = 3, dport = 8668, dOnce = False, sys = []\<rparr> = Some (None, s')
    \<and> map fst (sys s') = [Sendto SockaddrOther [1], Sendto (SockaddrInet4 5 (1, 1, 1, 1)) [2, 3]]"
proof -
  let ?s = "\<lparr>fd = 3, dport = 8668, dOnce = False, sys = []\<rparr>" let ?env = "\<lparr>div_result = (\<lambda>_ _. None), div_fd = (\<lambda>_. 3)\<rparr>"
  let ?qs = "[([1], SockaddrOther), ([], SockaddrOther), ([2, 3], SockaddrInet4 5 (1, 1, 1, 1))] :: (bytes \<times> sockaddr) list"
  have z: "0 \<le> fd ?s" by simp
  from divert_flush_drains [OF z, of ?env ?qs] obtain r s' rs where
    f: "div_Flush ?env (map (\<lambda>(d, sa). (None, Got d sa)) ?qs @ [(None, WouldBlock)]) ?s = Some (r, s')"
      "length rs = length (filter (\<lambda>(d, sa). d \<noteq> []) ?qs)"
      "sys s' = sys ?s @ zip (map (\<lambda>(d, sa). Sendto sa d) (filter (\<lambda>(d, sa). d \<noteq> []) ?qs)) rs"
    by (elim exE conjE)
  have l: "length rs = 2" using f(2) by simp
  have m: "map fst (sys s') = [Sendto SockaddrOther [1], Sendto (SockaddrInet4 5 (1, 1, 1, 1)) [2, 3]]"
    unfolding f(3) map_append by (subst map_fst_zip) (simp_all add: l)
  have "map_option fst (div_Flush ?env (map (\<lambda>(d, sa). (None, Got d sa)) ?qs @ [(None, WouldBlock)]) ?s) = Some None"
    by code_simp
  then have "r = None" using f(1) by simp
  then show ?thesis using f(1) m by (intro exI [of _ s']) simp
qed

end
