(* ===== verification/GoStrings.thy ===== *)
theory GoStrings
  imports GoPrelude
begin

text \<open>
  The functions of Go's packages \<^verbatim>\<open>strings\<close>, \<^verbatim>\<open>strconv\<close> and \<^verbatim>\<open>bufio\<close> that
  the command-line programs use, on strings as lists of characters (bytes).  Case and white
  space are those of ASCII: the programs only compare with ASCII words.
\<close>

section \<open>Characters\<close>

definition is_space :: "char \<Rightarrow> bool" where
  "is_space c \<longleftrightarrow> c = CHR '' '' \<or> c = CHR 0x09 \<or> c = CHR 0x0A \<or> c = CHR 0x0B \<or> c = CHR 0x0C \<or> c = CHR 0x0D"

definition lower_char :: "char \<Rightarrow> char" where
  "lower_char c = (let n = of_char c :: nat in if 65 \<le> n \<and> n \<le> 90 then char_of (n + 32) else c)"

definition ToLower :: "string \<Rightarrow> string" where
  "ToLower s = map lower_char s"

section \<open>Searching and splitting\<close>

definition HasPrefix :: "string \<Rightarrow> string \<Rightarrow> bool" where
  "HasPrefix s p \<longleftrightarrow> take (length p) s = p"

definition HasSuffix :: "string \<Rightarrow> string \<Rightarrow> bool" where
  "HasSuffix s p \<longleftrightarrow> length p \<le> length s \<and> drop (length s - length p) s = p"

fun Contains :: "string \<Rightarrow> string \<Rightarrow> bool" where
  "Contains [] p = (p = [])"
| "Contains (c # s) p = (HasPrefix (c # s) p \<or> Contains s p)"

definition TrimSpace :: "string \<Rightarrow> string" where
  "TrimSpace s = rev (dropWhile is_space (rev (dropWhile is_space s)))"

text \<open>The first argument is the field being read.\<close>

fun fields_from :: "string \<Rightarrow> string \<Rightarrow> string list" where
  "fields_from cur [] = (if cur = [] then [] else [cur])"
| "fields_from cur (c # s) = (if is_space c
     then (if cur = [] then fields_from [] s else cur # fields_from [] s)
     else fields_from (cur @ [c]) s)"

definition Fields :: "string \<Rightarrow> string list" where
  "Fields s = fields_from [] s"

fun Join :: "string list \<Rightarrow> string \<Rightarrow> string" where
  "Join [] sep = []"
| "Join [s] sep = s"
| "Join (s # t # ss) sep = s @ sep @ Join (t # ss) sep"

text \<open>What follows the first occurrence of a character, if there is one.\<close>

fun after_char :: "char \<Rightarrow> string \<Rightarrow> string option" where
  "after_char c [] = None"
| "after_char c (d # s) = (if d = c then Some s else after_char c s)"

section \<open>Numbers\<close>

definition is_digit :: "char \<Rightarrow> bool" where
  "is_digit c \<longleftrightarrow> 48 \<le> (of_char c :: nat) \<and> (of_char c :: nat) \<le> 57"

definition digits_value :: "string \<Rightarrow> nat" where
  "digits_value s = foldl (\<lambda>v c. 10 * v + (of_char c - 48)) 0 s"

definition Atoi :: "string \<Rightarrow> int option" where
  "Atoi s = (
     let (neg, ds) = (case s of [] \<Rightarrow> (False, []) | c # cs \<Rightarrow>
           if c = CHR ''-'' then (True, cs) else if c = CHR ''+'' then (False, cs) else (False, s))
     in if ds = [] \<or> \<not> list_all is_digit ds then None
        else let v = (if neg then - int (digits_value ds) else int (digits_value ds))
             in if - (2 ^ 63) \<le> v \<and> v < 2 ^ 63 then Some v else None)"

section \<open>Lines\<close>

text \<open>\<^verbatim>\<open>bufio.Scanner\<close> with \<^verbatim>\<open>ScanLines\<close>: the lines without their ends, up to
  the first one that does not fit the buffer of 65536 bytes; the flag is then the error of
  \<^verbatim>\<open>scanner.Err()\<close>.\<close>

definition drop_cr :: "string \<Rightarrow> string" where
  "drop_cr s = (if s \<noteq> [] \<and> last s = CHR 0x0D then butlast s else s)"

fun raw_lines :: "string \<Rightarrow> string \<Rightarrow> string list" where
  "raw_lines cur [] = (if cur = [] then [] else [cur])"
| "raw_lines cur (c # s) = (if c = CHR 0x0A then cur # raw_lines [] s else raw_lines (cur @ [c]) s)"

fun cut_long :: "string list \<Rightarrow> string list \<times> bool" where
  "cut_long [] = ([], False)"
| "cut_long (l # ls) = (if length l \<ge> 65536 then ([], True) else (case cut_long ls of (r, e) \<Rightarrow> (drop_cr l # r, e)))"

definition scan_lines :: "string \<Rightarrow> string list \<times> bool" where
  "scan_lines s = cut_long (raw_lines [] s)"

section \<open>Lemmas\<close>

lemma fields_word: "list_all (\<lambda>c. \<not> is_space c) w \<Longrightarrow> fields_from cur (w @ s) = fields_from (cur @ w) s"
  by (induction w arbitrary: cur) simp_all

lemma fields_space:
  "is_space c \<Longrightarrow> fields_from cur (s @ c # t) = fields_from cur s @ fields_from [] t"
  by (induction s arbitrary: cur) simp_all

lemma Fields_space: "is_space c \<Longrightarrow> Fields (s @ c # t) = Fields s @ Fields t"
  by (simp add: Fields_def fields_space)

lemma space_is_space [simp]: "is_space CHR '' ''"
  by (simp add: is_space_def)

definition is_word :: "string \<Rightarrow> bool" where
  "is_word w \<longleftrightarrow> w \<noteq> [] \<and> list_all (\<lambda>c. \<not> is_space c) w"

lemma Fields_word: "is_word w \<Longrightarrow> Fields w = [w]"
  using fields_word [of w "[]" "[]"] by (simp add: is_word_def Fields_def)

lemma Fields_Nil [simp]: "Fields [] = []"
  by (simp add: Fields_def)

text \<open>Splitting undoes joining.\<close>

lemma Fields_Join: "list_all is_word ws \<Longrightarrow> Fields (Join ws '' '') = ws"
  by (induction ws "'' ''" rule: Join.induct) (simp_all add: Fields_space Fields_word)

lemma digit_of_char: "d < 10 \<Longrightarrow> of_char (digit_char d) = (48 + d :: nat)"
  by (simp add: digit_char_def)

lemma digit_is_digit: "d < 10 \<Longrightarrow> is_digit (digit_char d) \<and> \<not> is_space (digit_char d)"
proof -
  assume d: "d < 10"
  have "of_char c < (48 :: nat)" if "is_space c" for c
    using that by (auto simp: is_space_def)
  then show ?thesis using digit_of_char [OF d] d by (fastforce simp: is_digit_def)
qed

lemma show_nat_digits: "show_nat n \<noteq> [] \<and> list_all is_digit (show_nat n) \<and> list_all (\<lambda>c. \<not> is_space c) (show_nat n)"
proof (induction n rule: show_nat.induct)
  case (1 n)
  then show ?case by (subst (1 2 3) show_nat.simps) (simp add: digit_is_digit)
qed

lemma digits_value_snoc: "digits_value (s @ [c]) = 10 * digits_value s + (of_char c - 48)"
  by (simp add: digits_value_def)

lemma digits_value_show: "digits_value (show_nat n) = n"
proof (induction n rule: show_nat.induct)
  case (1 n)
  show ?case
  proof (cases "n < 10")
    case True
    then show ?thesis by (subst show_nat.simps) (simp add: digits_value_def digit_of_char)
  next
    case False
    then have "show_nat n = show_nat (n div 10) @ [digit_char (n mod 10)]" by (subst show_nat.simps) simp
    then show ?thesis using 1 False by (simp add: digits_value_snoc digit_of_char)
  qed
qed

lemma show_nat_word: "is_word (show_nat n)"
  using show_nat_digits [of n] by (simp add: is_word_def)

lemma Atoi_show: "n < 2 ^ 63 \<Longrightarrow> Atoi (show_nat n) = Some (int n)"
proof -
  assume n: "n < 2 ^ 63"
  obtain c cs where s: "show_nat n = c # cs" using show_nat_digits [of n] by (cases "show_nat n") auto
  have "is_digit c" using show_nat_digits [of n] s by simp
  then have "c \<noteq> CHR ''-''" "c \<noteq> CHR ''+''" by (auto simp: is_digit_def)
  then show ?thesis
    using show_nat_digits [of n] digits_value_show [of n] n unfolding Atoi_def s by (simp add: s)
qed

lemma HasPrefix_append [simp]: "HasPrefix (p @ s) p"
  by (simp add: HasPrefix_def)

lemma HasPrefix_appendI: "HasPrefix s p \<Longrightarrow> HasPrefix (s @ t) p"
  unfolding HasPrefix_def by (metis append_assoc append_take_drop_id append_eq_conv_conj)

lemma Contains_prefix: "HasPrefix s p \<Longrightarrow> Contains s p"
  by (cases s) (auto simp: HasPrefix_def)

lemma Contains_append: "Contains s p \<Longrightarrow> Contains (t @ s) p"
  by (induction t) (auto intro: Contains_prefix)

lemma Contains_middle: "Contains (a @ p @ b) p"
  by (intro Contains_append Contains_prefix) simp

text \<open>Scanning undoes joining with newlines.\<close>

definition plain_line :: "string \<Rightarrow> bool" where
  "plain_line l \<longleftrightarrow> l \<noteq> [] \<and> CHR 0x0A \<notin> set l \<and> last l \<noteq> CHR 0x0D"

lemma raw_lines_append: "CHR 0x0A \<notin> set l \<Longrightarrow> raw_lines cur (l @ s) = raw_lines (cur @ l) s"
  by (induction l arbitrary: cur) auto

lemma raw_lines_Join:
  "list_all plain_line ls \<Longrightarrow> raw_lines [] (Join ls [CHR 0x0A]) = ls"
proof (induction ls "[CHR 0x0A]" rule: Join.induct)
  case (2 s)
  then show ?case using raw_lines_append [of s "[]" "[]"] by (simp add: plain_line_def)
next
  case (3 s t ss)
  then show ?case using raw_lines_append [of s "[]" "CHR 0x0A # Join (t # ss) [CHR 0x0A]"] by (simp add: plain_line_def)
qed simp

lemma cut_long_short:
  "list_all plain_line ls \<Longrightarrow> list_all (\<lambda>l. length l < 65536) ls \<Longrightarrow> cut_long ls = (ls, False)"
  by (induction ls) (simp_all add: plain_line_def drop_cr_def)

lemma scan_lines_Join:
  "list_all plain_line ls \<Longrightarrow> list_all (\<lambda>l. length l < 65536) ls \<Longrightarrow> scan_lines (Join ls [CHR 0x0A]) = (ls, False)"
  by (simp add: scan_lines_def raw_lines_Join cut_long_short)

end
