(* ===== verification/Commands.thy ===== *)
theory Commands
  imports GoStrings
begin

text \<open>
  Running external commands and finding them (\<^verbatim>\<open>runCommand\<close>, \<^verbatim>\<open>runCommandEnv\<close>,
  \<^verbatim>\<open>lookPath\<close> of \<^verbatim>\<open>cmd/splitter/main_linux.go\<close>).  The machine is the record
  \<open>world\<close>: what a command prints and whether it fails may depend on the commands run
  before, whose list is the state.  Errors of this program are only printed and searched for
  words, so an error is its message.
\<close>

type_synonym command = "string \<times> string list"
type_synonym history = "command list"

record world =
  exec :: "history \<Rightarrow> string list \<Rightarrow> command \<Rightarrow> string \<times> string option"
  look :: "history \<Rightarrow> string \<Rightarrow> string option"
  regular :: "history \<Rightarrow> string \<Rightarrow> bool"

type_synonym status = "string option \<times> history"

definition runCommandEnv :: "world \<Rightarrow> string list \<Rightarrow> string \<Rightarrow> string list \<Rightarrow> history
    \<Rightarrow> (string \<times> string option) \<times> history" where
  "runCommandEnv w env name args h = (case exec w h env (name, args) of (out, r) \<Rightarrow>
     ((out, case r of None \<Rightarrow> None
        | Some e \<Rightarrow> let trimmed = TrimSpace out; m = name @ '' '' @ Join args '' '' @ '' failed: '' @ e
            in Some (if trimmed \<noteq> [] then m @ '': '' @ trimmed else m)), h @ [(name, args)]))"

definition runCommand :: "world \<Rightarrow> string \<Rightarrow> string list \<Rightarrow> history \<Rightarrow> (string \<times> string option) \<times> history" where
  "runCommand w = runCommandEnv w []"

definition lookPath :: "world \<Rightarrow> string \<Rightarrow> history \<Rightarrow> string option" where
  "lookPath w name h = (case look w h name of Some p \<Rightarrow> Some p
     | None \<Rightarrow> find (regular w h) (map (\<lambda>dir. dir @ ''/'' @ name) [''/usr/sbin'', ''/sbin'']))"

text \<open>A command whose failure ends the function, with a prefix to its message; and sequencing.\<close>

definition attempt :: "world \<Rightarrow> string \<Rightarrow> string \<Rightarrow> string list \<Rightarrow> history \<Rightarrow> status" where
  "attempt w pre path args h = (case runCommand w path args h of
     ((_, None), h) \<Rightarrow> (None, h) | ((_, Some e), h) \<Rightarrow> (Some (pre @ e), h))"

definition and_then :: "status \<Rightarrow> (history \<Rightarrow> status) \<Rightarrow> status" where
  "and_then r f = (case r of (Some e, h) \<Rightarrow> (Some e, h) | (None, h) \<Rightarrow> f h)"

text \<open>Wrapping an error: \<^verbatim>\<open>fmt.Errorf("...: %w", err)\<close>.\<close>

definition wrap :: "string \<Rightarrow> status \<Rightarrow> status" where
  "wrap pre r = (case r of (Some e, h) \<Rightarrow> (Some (pre @ '': '' @ e), h) | (None, h) \<Rightarrow> (None, h))"

section \<open>What a run has done\<close>

lemma runCommand_history [simp]: "snd (runCommand w name args h) = h @ [(name, args)]"
  by (simp add: runCommand_def runCommandEnv_def split: prod.split)

lemma runCommandEnv_history [simp]: "snd (runCommandEnv w env name args h) = h @ [(name, args)]"
  by (simp add: runCommandEnv_def split: prod.split)

lemma runCommandD: "runCommand w name args h = (r, h') \<Longrightarrow> h' = h @ [(name, args)]"
  using runCommand_history [of w name args h] by simp

lemma attempt_history [simp]: "snd (attempt w pre path args h) = h @ [(path, args)]"
  by (cases "runCommand w path args h") (use runCommandD [of w path args h] in \<open>auto simp: attempt_def split: option.split\<close>)

lemma attemptD: "attempt w pre path args h = (r, h') \<Longrightarrow> h' = h @ [(path, args)]"
  using attempt_history [of w pre path args h] by simp

lemma and_then_ok: "and_then r f = (None, h') \<longleftrightarrow> (\<exists>h. r = (None, h) \<and> f h = (None, h'))"
  by (auto simp: and_then_def split: prod.splits option.splits)

lemma wrap_ok [simp]: "wrap pre r = (None, h) \<longleftrightarrow> r = (None, h)"
  by (auto simp: wrap_def split: prod.splits option.splits)

lemma wrap_history [simp]: "snd (wrap pre r) = snd r"
  by (auto simp: wrap_def split: prod.splits option.splits)

end
