(* ===== verification/LinuxRules.thy ===== *)
theory LinuxRules
  imports Commands
begin

text \<open>
  Installing and removing the packet filter rules of the Linux program
  (\<^verbatim>\<open>cmd/splitter/main_linux.go\<close>).
\<close>

section \<open>nftables\<close>

record ruleOptions =
  RuleQueueNum :: "16 word"
  RuleMark :: "32 word"
  ExcludeLoopback :: bool

definition show_word16 :: "16 word \<Rightarrow> string" where
  "show_word16 x = show_nat (unat x)"

definition show_word32 :: "32 word \<Rightarrow> string" where
  "show_word32 x = show_nat (unat x)"

fun handle_after :: "string list \<Rightarrow> string \<Rightarrow> string option" where
  "handle_after (f # g # fs) key = (if f = key then Some g else handle_after (g # fs) key)"
| "handle_after _ key = None"

definition parseNftHandle :: "string \<Rightarrow> int option" where
  "parseNftHandle line = (case handle_after (Fields line) ''handle'' of None \<Rightarrow> None | Some v \<Rightarrow> Atoi v)"

definition gone :: "string \<Rightarrow> bool" where
  "gone msg \<longleftrightarrow> Contains (ToLower msg) ''no such file'' \<or> Contains (ToLower msg) ''does not exist''"

definition quote_char :: char where [go_defs]: "quote_char = CHR 0x22"

definition tag_comment :: "string \<Rightarrow> string" where
  "tag_comment tag = ''comment '' @ [quote_char] @ tag @ [quote_char]"

fun delete_lines :: "world \<Rightarrow> string \<Rightarrow> string \<Rightarrow> string \<Rightarrow> string \<Rightarrow> string list \<Rightarrow> history \<Rightarrow> status" where
  "delete_lines w path tab chain tag [] h = (None, h)"
| "delete_lines w path tab chain tag (l # ls) h = (
     if \<not> Contains l (tag_comment tag) then delete_lines w path tab chain tag ls h else
     case parseNftHandle l of None \<Rightarrow> delete_lines w path tab chain tag ls h
     | Some n \<Rightarrow> (case runCommand w path [''delete'', ''rule'', ''inet'', tab, chain, ''handle'', show_int n] h of
         ((_, None), h) \<Rightarrow> delete_lines w path tab chain tag ls h
       | ((_, Some e), h) \<Rightarrow> if gone e then delete_lines w path tab chain tag ls h else (Some e, h)))"

definition deleteTaggedNftRules :: "world \<Rightarrow> string \<Rightarrow> string \<Rightarrow> string \<Rightarrow> string \<Rightarrow> history \<Rightarrow> status" where
  "deleteTaggedNftRules w path tab chain tag h =
     (case runCommand w path [''-a'', ''list'', ''chain'', ''inet'', tab, chain] h of
        ((_, Some e), h) \<Rightarrow> if gone e then (None, h) else (Some e, h)
      | ((out, None), h) \<Rightarrow> (case scan_lines out of (ls, too_long) \<Rightarrow>
          and_then (delete_lines w path tab chain tag ls h)
            (\<lambda>h. (if too_long then Some ''bufio.Scanner: token too long'' else None, h))))"

definition nft_chain_args :: "string list" where
  "nft_chain_args = [''add'', ''chain'', ''inet'', ''gov_pass'', ''output'', ''{'', ''type'', ''filter'', ''hook'',
     ''output'', ''priority'', ''mangle'', '';'', ''policy'', ''accept'', '';'', ''}'']"

definition nft_rule :: "string list \<Rightarrow> string list" where
  "nft_rule r = [''add'', ''rule'', ''inet'', ''gov_pass'', ''output''] @ r @ [''comment'', ''gov-pass'']"

definition nft_mark_rule :: "ruleOptions \<Rightarrow> string list" where
  "nft_mark_rule o1 = [''meta'', ''mark'', ''&'', show_word32 (RuleMark o1), ''=='', show_word32 (RuleMark o1), ''return'']"

definition nft_lo_rule :: "string list" where
  "nft_lo_rule = [''oifname'', ''lo'', ''return'']"

definition nft_queue_rule :: "ruleOptions \<Rightarrow> string list" where
  "nft_queue_rule o1 = [''meta'', ''nfproto'', ''ipv4'', ''tcp'', ''dport'', ''443'', ''queue'', ''num'',
     show_word16 (RuleQueueNum o1), ''bypass'']"

definition ensure_made :: "world \<Rightarrow> string \<Rightarrow> string list \<Rightarrow> string \<Rightarrow> string list \<Rightarrow> history \<Rightarrow> status" where
  "ensure_made w path test pre adding h = (case runCommand w path test h of
     ((_, None), h) \<Rightarrow> (None, h) | ((_, Some e), h) \<Rightarrow> attempt w pre path adding h)"

definition installNftRules :: "world \<Rightarrow> string \<Rightarrow> ruleOptions \<Rightarrow> history \<Rightarrow> status" where
  "installNftRules w path o1 h =
     and_then (ensure_made w path [''list'', ''table'', ''inet'', ''gov_pass''] ''nft add table failed: ''
                 [''add'', ''table'', ''inet'', ''gov_pass''] h) (\<lambda>h.
     and_then (ensure_made w path [''list'', ''chain'', ''inet'', ''gov_pass'', ''output''] ''nft add chain failed: ''
                 nft_chain_args h) (\<lambda>h.
     and_then (wrap ''nft delete old rules failed'' (deleteTaggedNftRules w path ''gov_pass'' ''output'' ''gov-pass'' h)) (\<lambda>h.
     and_then (if RuleMark o1 \<noteq> 0 then attempt w ''nft add mark bypass failed: '' path (nft_rule (nft_mark_rule o1)) h
               else (None, h)) (\<lambda>h.
     and_then (if ExcludeLoopback o1 then attempt w ''nft add loopback bypass failed: '' path (nft_rule nft_lo_rule) h
               else (None, h)) (\<lambda>h.
     attempt w ''nft add queue rule failed: '' path (nft_rule (nft_queue_rule o1)) h)))))"

definition uninstallNftRules :: "world \<Rightarrow> string \<Rightarrow> history \<Rightarrow> status" where
  "uninstallNftRules w path h = (case runCommand w path [''list'', ''table'', ''inet'', ''gov_pass''] h of
     ((_, Some e), h) \<Rightarrow> (None, h)
   | ((_, None), h) \<Rightarrow> wrap ''nft delete rules failed'' (deleteTaggedNftRules w path ''gov_pass'' ''output'' ''gov-pass'' h))"

section \<open>iptables\<close>

definition ensureIptablesRule :: "world \<Rightarrow> string \<Rightarrow> string list \<Rightarrow> string list \<Rightarrow> history \<Rightarrow> status" where
  "ensureIptablesRule w path check add h = (case runCommand w path check h of
     ((_, None), h) \<Rightarrow> (None, h) | ((_, Some e), h) \<Rightarrow> attempt w '''' path add h)"

definition ensureIptablesChain :: "world \<Rightarrow> string \<Rightarrow> string \<Rightarrow> string \<Rightarrow> history \<Rightarrow> status" where
  "ensureIptablesChain w path tab chain h = (case runCommand w path [''-t'', tab, ''-N'', chain] h of
     ((_, None), h) \<Rightarrow> (None, h)
   | ((_, Some e), h) \<Rightarrow> if Contains (ToLower e) ''exists'' then (None, h) else (Some e, h))"

definition ipt_rule :: "string list \<Rightarrow> string list" where
  "ipt_rule r = [''-t'', ''mangle'', ''-A'', ''GOVPASS_OUTPUT''] @ r"

definition ipt_mark_rule :: "ruleOptions \<Rightarrow> string list" where
  "ipt_mark_rule o1 = [''-m'', ''mark'', ''--mark'', show_word32 (RuleMark o1) @ ''/'' @ show_word32 (RuleMark o1),
     ''-j'', ''RETURN'']"

definition ipt_lo_rule :: "string list" where
  "ipt_lo_rule = [''-o'', ''lo'', ''-j'', ''RETURN'']"

definition ipt_queue_rule :: "ruleOptions \<Rightarrow> string list" where
  "ipt_queue_rule o1 = [''-p'', ''tcp'', ''--dport'', ''443'', ''-j'', ''NFQUEUE'', ''--queue-num'',
     show_word16 (RuleQueueNum o1), ''--queue-bypass'']"

definition installIptablesRules :: "world \<Rightarrow> string \<Rightarrow> ruleOptions \<Rightarrow> history \<Rightarrow> status" where
  "installIptablesRules w path o1 h =
     and_then (wrap ''iptables create chain failed'' (ensureIptablesChain w path ''mangle'' ''GOVPASS_OUTPUT'' h)) (\<lambda>h.
     and_then (attempt w ''iptables flush chain failed: '' path [''-t'', ''mangle'', ''-F'', ''GOVPASS_OUTPUT''] h) (\<lambda>h.
     and_then (wrap ''iptables install jump failed'' (ensureIptablesRule w path
                 [''-t'', ''mangle'', ''-C'', ''OUTPUT'', ''-j'', ''GOVPASS_OUTPUT'']
                 [''-t'', ''mangle'', ''-I'', ''OUTPUT'', ''1'', ''-j'', ''GOVPASS_OUTPUT''] h)) (\<lambda>h.
     and_then (if RuleMark o1 \<noteq> 0 then attempt w ''iptables mark bypass failed: '' path (ipt_rule (ipt_mark_rule o1)) h
               else (None, h)) (\<lambda>h.
     and_then (if ExcludeLoopback o1 then attempt w ''iptables loopback bypass failed: '' path (ipt_rule ipt_lo_rule) h
               else (None, h)) (\<lambda>h.
     attempt w ''iptables queue rule failed: '' path (ipt_rule (ipt_queue_rule o1)) h)))))"

text \<open>The loop that removes the jumps goes on as long as the command succeeds; the fuel bounds
  its rounds, and \<^const>\<open>None\<close> is a loop that is still running.\<close>

fun remove_jumps :: "nat \<Rightarrow> world \<Rightarrow> string \<Rightarrow> history \<Rightarrow> history option" where
  "remove_jumps 0 w path h = None"
| "remove_jumps (Suc n) w path h = (case runCommand w path [''-t'', ''mangle'', ''-D'', ''OUTPUT'', ''-j'', ''GOVPASS_OUTPUT''] h of
     ((_, Some e), h) \<Rightarrow> Some h | ((_, None), h) \<Rightarrow> remove_jumps n w path h)"

definition uninstallIptablesRules :: "nat \<Rightarrow> world \<Rightarrow> string \<Rightarrow> history \<Rightarrow> status option" where
  "uninstallIptablesRules fuel w path h = (case remove_jumps fuel w path h of None \<Rightarrow> None
     | Some h \<Rightarrow> Some (None, snd (runCommand w path [''-t'', ''mangle'', ''-X'', ''GOVPASS_OUTPUT'']
         (snd (runCommand w path [''-t'', ''mangle'', ''-F'', ''GOVPASS_OUTPUT''] h)))))"

section \<open>Choosing the backend\<close>

datatype backend = Nft string | Iptables string

definition installRules :: "world \<Rightarrow> ruleOptions \<Rightarrow> history \<Rightarrow> (string + backend) \<times> history" where
  "installRules w o1 h = (case lookPath w ''nft'' h of
     Some path \<Rightarrow> (case installNftRules w path o1 h of (Some e, h) \<Rightarrow> (Inl e, h) | (None, h) \<Rightarrow> (Inr (Nft path), h))
   | None \<Rightarrow> (case lookPath w ''iptables'' h of
       Some path \<Rightarrow> (case installIptablesRules w path o1 h of (Some e, h) \<Rightarrow> (Inl e, h) | (None, h) \<Rightarrow> (Inr (Iptables path), h))
     | None \<Rightarrow> (Inl ''nft or iptables not found in PATH'', h)))"

text \<open>The cleanup that \<^verbatim>\<open>installRules\<close> returns as a closure.\<close>

definition uninstall :: "nat \<Rightarrow> world \<Rightarrow> backend \<Rightarrow> history \<Rightarrow> status option" where
  "uninstall fuel w b h = (case b of Nft path \<Rightarrow> Some (uninstallNftRules w path h)
     | Iptables path \<Rightarrow> uninstallIptablesRules fuel w path h)"

end
