(* ===== verification/LinuxOffload.thy ===== *)
theory LinuxOffload
  imports Commands
begin

text \<open>
  Network card offloads, the egress interface and the external tools of the Linux program
  (\<^verbatim>\<open>cmd/splitter/main_linux.go\<close>).
\<close>

section \<open>Offloads\<close>

record offloadState =
  gro :: bool
  gso :: bool
  tso :: bool

definition parseEthtoolOnOff :: "string \<Rightarrow> bool option" where
  "parseEthtoolOnOff line = (case after_char CHR '':'' line of None \<Rightarrow> None
     | Some rest \<Rightarrow> (case Fields (TrimSpace rest) of [] \<Rightarrow> None
         | f # _ \<Rightarrow> if ToLower f = ''on'' then Some True else if ToLower f = ''off'' then Some False else None))"

text \<open>The values found so far; a later line overwrites an earlier one.\<close>

record found =
  fGro :: "bool option"
  fGso :: "bool option"
  fTso :: "bool option"

definition keep_new :: "bool option \<Rightarrow> bool option \<Rightarrow> bool option" where
  "keep_new old new = (case new of None \<Rightarrow> old | Some v \<Rightarrow> Some v)"

definition scan_offload :: "string \<Rightarrow> found \<Rightarrow> found" where
  "scan_offload l f = (let line = TrimSpace l in
     if HasPrefix line ''generic-receive-offload:'' then f\<lparr>fGro := keep_new (fGro f) (parseEthtoolOnOff line)\<rparr>
     else if HasPrefix line ''generic-segmentation-offload:'' then f\<lparr>fGso := keep_new (fGso f) (parseEthtoolOnOff line)\<rparr>
     else if HasPrefix line ''tcp-segmentation-offload:'' then f\<lparr>fTso := keep_new (fTso f) (parseEthtoolOnOff line)\<rparr>
     else f)"

definition offload_of_output :: "string \<Rightarrow> string + offloadState" where
  "offload_of_output out = (case scan_lines out of (ls, too_long) \<Rightarrow>
     let f = fold scan_offload ls \<lparr>fGro = None, fGso = None, fTso = None\<rparr>
     in if too_long then Inl ''bufio.Scanner: token too long'' else
        case (fGro f, fGso f, fTso f) of
          (Some a, Some b, Some c) \<Rightarrow> Inr \<lparr>gro = a, gso = b, tso = c\<rparr>
        | _ \<Rightarrow> Inl ''could not parse ethtool offload state'')"

definition readOffloadState :: "world \<Rightarrow> string \<Rightarrow> history \<Rightarrow> (string + offloadState) \<times> history" where
  "readOffloadState w iface0 h = (let iface = TrimSpace iface0 in
     if iface = [] then (Inl ''iface is empty'', h) else
     case lookPath w ''ethtool'' h of None \<Rightarrow> (Inl ''ethtool not found in PATH'', h)
     | Some path \<Rightarrow> (case runCommand w path [''-k'', iface] h of
         ((_, Some e), h) \<Rightarrow> (Inl e, h)
       | ((out, None), h) \<Rightarrow> (offload_of_output out, h)))"

definition on_off :: "bool \<Rightarrow> string" where
  "on_off b = (if b then ''on'' else ''off'')"

definition applyOffloadState :: "world \<Rightarrow> string \<Rightarrow> offloadState \<Rightarrow> history \<Rightarrow> status" where
  "applyOffloadState w iface0 st h = (let iface = TrimSpace iface0 in
     if iface = [] then (Some ''iface is empty'', h) else
     case lookPath w ''ethtool'' h of None \<Rightarrow> (Some ''ethtool not found in PATH'', h)
     | Some path \<Rightarrow> attempt w '''' path
         [''-K'', iface, ''gro'', on_off (gro st), ''gso'', on_off (gso st), ''tso'', on_off (tso st)] h)"

definition disableOffload :: "world \<Rightarrow> string \<Rightarrow> history \<Rightarrow> status" where
  "disableOffload w iface0 h = (let iface = TrimSpace iface0 in
     if iface = [] then (Some ''iface is empty'', h) else
     case lookPath w ''ethtool'' h of None \<Rightarrow> (Some ''ethtool not found in PATH'', h)
     | Some path \<Rightarrow> attempt w '''' path [''-K'', iface, ''gro'', ''off'', ''gso'', ''off'', ''tso'', ''off''] h)"

section \<open>The egress interface\<close>

fun word_after :: "string \<Rightarrow> string list \<Rightarrow> string" where
  "word_after key (f # g # fs) = (if f = key then g else word_after key (g # fs))"
| "word_after key _ = []"

definition parseRouteDev :: "string \<Rightarrow> string" where
  "parseRouteDev output = word_after ''dev'' (Fields output)"

definition detectEgressInterface :: "world \<Rightarrow> history \<Rightarrow> (string + string) \<times> history" where
  "detectEgressInterface w h = (case lookPath w ''ip'' h of
     None \<Rightarrow> (Inl ''ip command not found in PATH; use --iface'', h)
   | Some path \<Rightarrow> (case runCommand w path [''-4'', ''route'', ''get'', ''1.1.1.1''] h of ((out, err), h) \<Rightarrow>
       if err = None \<and> parseRouteDev out \<noteq> [] then (Inr (parseRouteDev out), h)
       else (case runCommand w path [''-4'', ''route'', ''show'', ''default''] h of
           ((_, Some e), h) \<Rightarrow> (Inl (''ip route lookup failed: '' @ e), h)
         | ((out, None), h) \<Rightarrow>
             if parseRouteDev out \<noteq> [] then (Inr (parseRouteDev out), h)
             else (Inl ''could not detect egress interface; use --iface'', h))))"

section \<open>External tools\<close>

record linuxToolNeeds =
  AutoRules :: bool
  AutoOffload :: bool
  NeedIP :: bool

definition no_filter :: "world \<Rightarrow> history \<Rightarrow> bool" where
  "no_filter w h \<longleftrightarrow> lookPath w ''nft'' h = None \<and> lookPath w ''iptables'' h = None"

text \<open>The missing tools and the packages wanted for them.\<close>

definition missing_tools :: "world \<Rightarrow> linuxToolNeeds \<Rightarrow> history \<Rightarrow> string list \<times> string list" where
  "missing_tools w n h = (
     let r = (if AutoRules n \<and> no_filter w h then ([''nft or iptables''], [''nftables'', ''iptables'']) else ([], []));
         e = (if AutoOffload n \<and> lookPath w ''ethtool'' h = None then ([''ethtool''], [''ethtool'']) else ([], []));
         i = (if AutoOffload n \<and> NeedIP n \<and> lookPath w ''ip'' h = None then ([''ip''], [''__iproute__'']) else ([], []))
     in (fst r @ fst e @ fst i, snd r @ snd e @ snd i))"

definition detectLinuxPackageManager :: "world \<Rightarrow> history \<Rightarrow> (string \<times> string) option" where
  "detectLinuxPackageManager w h = (case find (\<lambda>n. lookPath w n h \<noteq> None)
       [''apt-get'', ''dnf'', ''yum'', ''pacman'', ''apk'', ''zypper''] of
     None \<Rightarrow> None | Some n \<Rightarrow> Some (n, the (lookPath w n h)))"

definition iproutePackageName :: "string \<Rightarrow> string" where
  "iproutePackageName kind = (if kind = ''dnf'' \<or> kind = ''yum'' then ''iproute'' else ''iproute2'')"

definition attempt_env :: "world \<Rightarrow> string list \<Rightarrow> string \<Rightarrow> string list \<Rightarrow> history \<Rightarrow> status" where
  "attempt_env w env path args h = (case runCommandEnv w env path args h of ((_, e), h) \<Rightarrow> (e, h))"

definition installLinuxPackages :: "world \<Rightarrow> string \<Rightarrow> string \<Rightarrow> string list \<Rightarrow> history \<Rightarrow> status" where
  "installLinuxPackages w kind path pkgs h = (
     if kind = ''apt-get'' then
       and_then (attempt_env w [''DEBIAN_FRONTEND=noninteractive''] path [''update''] h)
         (attempt_env w [''DEBIAN_FRONTEND=noninteractive''] path ([''install'', ''-y'', ''--no-install-recommends''] @ pkgs))
     else if kind = ''dnf'' \<or> kind = ''yum'' then attempt_env w [] path ([''install'', ''-y''] @ pkgs) h
     else if kind = ''pacman'' then attempt_env w [] path ([''-Sy'', ''--noconfirm'', ''--needed''] @ pkgs) h
     else if kind = ''apk'' then attempt_env w [] path ([''add'', ''--no-cache''] @ pkgs) h
     else if kind = ''zypper'' then attempt_env w [] path ([''--non-interactive'', ''install'', ''-y''] @ pkgs) h
     else (Some (''unsupported package manager: '' @ kind), h))"

text \<open>The check after installing.\<close>

definition recheck :: "world \<Rightarrow> linuxToolNeeds \<Rightarrow> history \<Rightarrow> status" where
  "recheck w n h = (
     if AutoRules n \<and> no_filter w h then
       (Some ''auto-install-tools completed, but nft/iptables still missing'', h)
     else if AutoOffload n \<and> lookPath w ''ethtool'' h = None then
       (Some ''auto-install-tools completed, but ethtool still missing'', h)
     else if AutoOffload n \<and> NeedIP n \<and> lookPath w ''ip'' h = None then
       (Some ''auto-install-tools completed, but ip still missing'', h)
     else (None, h))"

text \<open>The order in which the package map is iterated is the argument \<^term>\<open>order\<close>.\<close>

definition ensureLinuxExternalTools :: "(string list \<Rightarrow> string list) \<Rightarrow> world \<Rightarrow> bool \<Rightarrow> linuxToolNeeds
    \<Rightarrow> history \<Rightarrow> status" where
  "ensureLinuxExternalTools order w autoInstall n h = (
     if \<not> AutoRules n \<and> \<not> AutoOffload n then (None, h) else
     let (missing, want) = missing_tools w n h; names = Join missing '', ''
     in if missing = [] then (None, h) else
     if \<not> autoInstall then
       (Some (''missing required external tools: '' @ names @ '' (install them or set --auto-install-tools=true)''), h) else
     case detectLinuxPackageManager w h of
       None \<Rightarrow> (Some (''missing required external tools: '' @ names
                 @ '' (no supported package manager found; install tools manually)''), h)
     | Some (kind, path) \<Rightarrow>
       let pkgs = map (\<lambda>p. if p = ''__iproute__'' then iproutePackageName kind else p) (order want)
       in if pkgs = [] then (Some (''missing required external tools: '' @ names), h) else
       and_then (wrap ''auto-install-tools failed'' (installLinuxPackages w kind path pkgs h)) (recheck w n))"

section \<open>Properties\<close>

text \<open>When the tools are said to be there, they are: if \<^verbatim>\<open>ensureLinuxExternalTools\<close>
  succeeds, with or without installing anything, whatever the machine does, then afterwards a
  packet filter, \<^verbatim>\<open>ethtool\<close> and \<^verbatim>\<open>ip\<close> are found as far as they are needed; and
  nothing is run when nothing is missing.\<close>

theorem tools_present:
  assumes "ensureLinuxExternalTools order w auto n h = (None, h')"
  shows "(AutoRules n \<longrightarrow> lookPath w ''nft'' h' \<noteq> None \<or> lookPath w ''iptables'' h' \<noteq> None)
    \<and> (AutoOffload n \<longrightarrow> lookPath w ''ethtool'' h' \<noteq> None \<and> (NeedIP n \<longrightarrow> lookPath w ''ip'' h' \<noteq> None))
    \<and> (fst (missing_tools w n h) = [] \<or> \<not> auto \<longrightarrow> h' = h)"
proof -
  have none: "(AutoRules n \<longrightarrow> lookPath w ''nft'' h \<noteq> None \<or> lookPath w ''iptables'' h \<noteq> None)
    \<and> (AutoOffload n \<longrightarrow> lookPath w ''ethtool'' h \<noteq> None \<and> (NeedIP n \<longrightarrow> lookPath w ''ip'' h \<noteq> None))"
    if "fst (missing_tools w n h) = []"
    using that by (auto simp: missing_tools_def no_filter_def Let_def split: if_splits)
  obtain miss want where m: "missing_tools w n h = (miss, want)" by force
  consider "h' = h" "\<not> AutoRules n \<and> \<not> AutoOffload n" | "h' = h" "miss = []"
    | h1 where "miss \<noteq> []" "auto" "recheck w n h1 = (None, h')"
    using assms unfolding ensureLinuxExternalTools_def m Let_def prod.case
    by (cases "detectLinuxPackageManager w h") (auto simp: and_then_ok split: if_split_asm prod.splits)
  then show ?thesis
  proof cases
    case 2
    then show ?thesis using none m by simp
  next
    case 3
    then show ?thesis using m by (auto simp: recheck_def no_filter_def split: if_split_asm)
  qed simp
qed

text \<open>The way \<^verbatim>\<open>ethtool -k\<close> prints a feature.\<close>

definition feature_line :: "string \<Rightarrow> bool \<Rightarrow> string" where
  "feature_line name b = name @ '': '' @ on_off b"

definition ethtool_lines :: "offloadState \<Rightarrow> string list" where
  "ethtool_lines st = [''Features for eth0:'', feature_line ''tcp-segmentation-offload'' (tso st),
     CHR 0x09 # feature_line ''tx-tcp-segmentation'' (tso st), feature_line ''generic-segmentation-offload'' (gso st),
     feature_line ''generic-receive-offload'' (gro st), feature_line ''large-receive-offload'' False @ '' [fixed]'']"

definition ethtool_output :: "offloadState \<Rightarrow> string" where
  "ethtool_output st = Join (ethtool_lines st) [CHR 0x0A]"

lemma ethtool_scanned: "scan_lines (ethtool_output st) = (ethtool_lines st, False)"
  unfolding ethtool_output_def
proof (rule scan_lines_Join)
  show "list_all plain_line (ethtool_lines st)"
    by (simp add: ethtool_lines_def feature_line_def on_off_def plain_line_def)
  show "list_all (\<lambda>l. length l < 65536) (ethtool_lines st)"
    by (simp add: ethtool_lines_def feature_line_def on_off_def)
qed

definition found_right :: "bool \<Rightarrow> bool \<Rightarrow> bool \<Rightarrow> bool" where
  "found_right a b c \<longleftrightarrow> fold scan_offload (ethtool_lines \<lparr>gro = a, gso = b, tso = c\<rparr>) \<lparr>fGro = None, fGso = None, fTso = None\<rparr>
     = \<lparr>fGro = Some a, fGso = Some b, fTso = Some c\<rparr>"

lemma ethtool_found: "found_right a b c"
proof -
  have "found_right True True True" "found_right True True False" "found_right True False True" "found_right True False False"
    "found_right False True True" "found_right False True False" "found_right False False True" "found_right False False False"
    by code_simp+
  then show ?thesis by (cases a; cases b; cases c) simp_all
qed

text \<open>The offload state survives a run: what \<^verbatim>\<open>readOffloadState\<close> reads from the output
  of \<^verbatim>\<open>ethtool -k\<close> is the state that was printed, and restoring it gives
  \<^verbatim>\<open>ethtool -K\<close> exactly these values for the interface.\<close>

theorem offload_roundtrip:
  assumes "lookPath w ''ethtool'' h = Some path" "TrimSpace iface \<noteq> []"
  shows "offload_of_output (ethtool_output st) = Inr st
    \<and> snd (applyOffloadState w iface st h) = h @ [(path, [''-K'', TrimSpace iface,
        ''gro'', on_off (gro st), ''gso'', on_off (gso st), ''tso'', on_off (tso st)])]"
proof
  obtain a b c where st: "st = \<lparr>gro = a, gso = b, tso = c\<rparr>" by (cases st) simp
  show "offload_of_output (ethtool_output st) = Inr st"
    using ethtool_found [of a b c] by (simp add: offload_of_output_def ethtool_scanned st found_right_def)
qed (use assms in \<open>simp add: applyOffloadState_def\<close>)

lemma offload_roundtrip_witness:
  "offload_of_output (ethtool_output \<lparr>gro = True, gso = False, tso = True\<rparr>) = Inr \<lparr>gro = True, gso = False, tso = True\<rparr>"
proof -
  let ?w = "\<lparr>exec = (\<lambda>_ _ _. ('''', None)), look = (\<lambda>_ _. Some ''/usr/sbin/ethtool''), regular = (\<lambda>_ _. False)\<rparr>"
  have "lookPath ?w ''ethtool'' [] = Some ''/usr/sbin/ethtool''" by (simp add: lookPath_def)
  moreover have "TrimSpace ''eth0'' \<noteq> []" by code_simp
  ultimately show ?thesis using offload_roundtrip by blast
qed

lemma tools_present_witness:
  "lookPath \<lparr>exec = (\<lambda>_ _ _. ('''', None)), look = (\<lambda>h n. if h = [] then (if n = ''apk'' then Some n else None) else Some n), regular = (\<lambda>_ _. False)\<rparr>
     ''ethtool'' [(''apk'', [''add'', ''--no-cache'', ''ethtool''])] \<noteq> None"
proof -
  let ?w = "\<lparr>exec = (\<lambda>_ _ _. ('''', None)), look = (\<lambda>h n. if h = [] then (if n = ''apk'' then Some n else None) else Some n), regular = (\<lambda>_ _. False)\<rparr>"
  let ?n = "\<lparr>AutoRules = False, AutoOffload = True, NeedIP = False\<rparr>"
  have "ensureLinuxExternalTools id ?w True ?n [] = (None, [(''apk'', [''add'', ''--no-cache'', ''ethtool''])])"
    by code_simp
  from tools_present [OF this] show ?thesis by simp
qed

end
