(* ===== verification/Settings.thy ===== *)
theory Settings
  imports EngineConfig GoStrings
begin

text \<open>
  What the programs for Linux, FreeBSD and Windows have in common: reading the split mode
  (\<^verbatim>\<open>parseSplitMode\<close>, the same code in each of them) and the checks of the engine's
  settings (\<^verbatim>\<open>validateEngineConfig\<close> of \<^verbatim>\<open>cmd/splitter/config_windows.go\<close>, which the
  other two make on their flags).
\<close>

definition parseSplitMode :: "string \<Rightarrow> split_mode \<times> string option" where
  "parseSplitMode value = (
     if ToLower value = ''immediate'' then (SplitModeImmediate, None)
     else if ToLower value = ''tls-hello'' then (SplitModeTLSHello, None)
     else (SplitModeTLSHello, Some ''expected tls-hello or immediate''))"

text \<open>The first check that fails gives the error.\<close>

definition first_failure :: "(bool \<times> string) list \<Rightarrow> string option" where
  "first_failure cs = map_option snd (find fst cs)"

definition engine_checks :: "config \<Rightarrow> (bool \<times> string) list" where
  "engine_checks c = [
     (SplitChunk c < 1, ''split-chunk must be >= 1''),
     (MaxBufferBytes c < 1, ''max-buffer must be >= 1''),
     (MaxHeldPackets c < 1, ''max-held-pkts must be >= 1''),
     (MaxSegmentPayload c < 0, ''max-seg-payload must be >= 0''),
     (WorkerCount c < 1, ''workers must be >= 1''),
     (CollectTimeout c < 1 * Millisecond, ''collect-timeout must be >= 1ms''),
     (FlowIdleTimeout c < 1 * Millisecond, ''flow-timeout must be >= 1ms''),
     (GCInterval c < 1 * Millisecond, ''gc-interval must be >= 1ms''),
     (MaxFlowsPerWorker c < 0, ''max-flows-per-worker must be >= 0''),
     (MaxReassemblyBytesPerWorker c < 0, ''max-reassembly-bytes-per-worker must be >= 0''),
     (MaxHeldBytesPerWorker c < 0, ''max-held-bytes-per-worker must be >= 0''),
     (ShutdownFailOpenTimeout c < 0, ''shutdown-fail-open-timeout must be >= 0''),
     (ShutdownFailOpenMaxPackets c < 0, ''shutdown-fail-open-max-pkts must be >= 0''),
     (AdapterFlushTimeout c < 0, ''adapter-flush-timeout must be >= 0'')]"

definition validateEngineConfig :: "config \<Rightarrow> string option" where
  "validateEngineConfig c = first_failure (engine_checks c)"

text \<open>The flags for these settings, and what they set.\<close>

record engine_flags =
  fSplitMode :: string
  fSplitChunk :: int
  fCollectTimeout :: int
  fMaxBuffer :: int
  fMaxHeld :: int
  fMaxSegPayload :: int
  fWorkers :: int
  fFlowTimeout :: int
  fGcInterval :: int
  fMaxFlows :: int
  fMaxReassembly :: int
  fMaxHeldBytes :: int
  fShutdownTimeout :: int
  fShutdownMaxPkts :: int
  fAdapterFlushTimeout :: int

definition flag_config :: "config \<Rightarrow> 'a engine_flags_scheme \<Rightarrow> config" where
  "flag_config c f = c\<lparr>SplitMode := fst (parseSplitMode (fSplitMode f)), SplitChunk := fSplitChunk f,
     CollectTimeout := fCollectTimeout f, MaxBufferBytes := fMaxBuffer f, MaxHeldPackets := fMaxHeld f,
     MaxSegmentPayload := fMaxSegPayload f, MaxFlowsPerWorker := fMaxFlows f,
     MaxReassemblyBytesPerWorker := fMaxReassembly f, MaxHeldBytesPerWorker := fMaxHeldBytes f,
     ShutdownFailOpenTimeout := fShutdownTimeout f, ShutdownFailOpenMaxPackets := fShutdownMaxPkts f,
     AdapterFlushTimeout := fAdapterFlushTimeout f, WorkerCount := fWorkers f, FlowIdleTimeout := fFlowTimeout f,
     GCInterval := fGcInterval f\<rparr>"

lemma first_failure_None: "first_failure cs = None \<longleftrightarrow> (\<forall>(b, m)\<in>set cs. \<not> b)"
  by (auto simp: first_failure_def find_None_iff)

lemma first_failure_append:
  "first_failure (xs @ ys) = (case first_failure xs of None \<Rightarrow> first_failure ys | Some e \<Rightarrow> Some e)"
  by (induction xs) (auto simp: first_failure_def)

text \<open>The settings that the engine needs.\<close>

definition usable :: "config \<Rightarrow> bool" where
  "usable c \<longleftrightarrow> 1 \<le> SplitChunk c \<and> 1 \<le> MaxBufferBytes c \<and> 1 \<le> MaxHeldPackets c \<and> 0 \<le> MaxSegmentPayload c
    \<and> 1 \<le> WorkerCount c \<and> 0 < CollectTimeout c \<and> 0 < FlowIdleTimeout c \<and> 0 < GCInterval c \<and> 0 \<le> MaxFlowsPerWorker c
    \<and> 0 \<le> MaxReassemblyBytesPerWorker c \<and> 0 \<le> MaxHeldBytesPerWorker c \<and> 0 \<le> ShutdownFailOpenTimeout c
    \<and> 0 \<le> ShutdownFailOpenMaxPackets c \<and> 0 \<le> AdapterFlushTimeout c"

lemma validated_usable: "validateEngineConfig c = None \<Longrightarrow> usable c"
  by (simp add: validateEngineConfig_def first_failure_None engine_checks_def usable_def Millisecond_def)

end
