(* ===== verification/LinuxMain.thy ===== *)
theory LinuxMain
  imports LinuxRules LinuxOffload Settings NFQueue
begin

text \<open>
  The Linux program (\<^verbatim>\<open>run\<close> of \<^verbatim>\<open>cmd/splitter/main_linux.go\<close>): the
  check of the flags, the configuration, and the order in which rules, offloads, adapter and
  engine are set up and taken down again.  The record \<open>flags\<close> holds the parsed flags;
  \<open>host\<close> holds what lies outside: the user, the number of processors, the netfilter
  and socket calls of the adapter (\<^verbatim>\<open>NewNFQueue\<close> itself is the one of theory NFQueue), the
  error with which the engine's run ends, which depends on the traffic and on the signal that
  cancels it, and the text of an error.
\<close>

record flags = engine_flags +
  fQueueNum :: int
  fQueueMaxLen :: int
  fCopyRange :: int
  fMark :: int
  fAutoRules :: bool
  fAutoOffload :: bool
  fAutoOffloadRestore :: bool
  fAutoInstallTools :: bool
  fIface :: string
  fNoLoopback :: bool

definition default_flags :: "config \<Rightarrow> flags" where
  "default_flags c = \<lparr>fSplitMode = ''tls-hello'', fSplitChunk = SplitChunk c, fCollectTimeout = CollectTimeout c,
     fMaxBuffer = MaxBufferBytes c, fMaxHeld = MaxHeldPackets c, fMaxSegPayload = MaxSegmentPayload c,
     fWorkers = WorkerCount c, fFlowTimeout = FlowIdleTimeout c, fGcInterval = GCInterval c,
     fMaxFlows = MaxFlowsPerWorker c, fMaxReassembly = MaxReassemblyBytesPerWorker c,
     fMaxHeldBytes = MaxHeldBytesPerWorker c, fShutdownTimeout = ShutdownFailOpenTimeout c,
     fShutdownMaxPkts = ShutdownFailOpenMaxPackets c, fAdapterFlushTimeout = AdapterFlushTimeout c,
     fQueueNum = 100, fQueueMaxLen = 4096, fCopyRange = 0xffff, fMark = 1, fAutoRules = True, fAutoOffload = True,
     fAutoOffloadRestore = True, fAutoInstallTools = True, fIface = '''', fNoLoopback = False\<rparr>"

definition flag_checks :: "flags \<Rightarrow> (bool \<times> string) list" where
  "flag_checks f = [
     (snd (parseSplitMode (fSplitMode f)) \<noteq> None, ''invalid split-mode: expected tls-hello or immediate''),
     (fSplitChunk f < 1, ''split-chunk must be >= 1''),
     (fMaxBuffer f < 1, ''max-buffer must be >= 1''),
     (fMaxHeld f < 1, ''max-held-pkts must be >= 1''),
     (fMaxSegPayload f < 0, ''max-seg-payload must be >= 0''),
     (fWorkers f < 1, ''workers must be >= 1''),
     (fCollectTimeout f < 1 * Millisecond, ''collect-timeout must be >= 1ms''),
     (fFlowTimeout f < 1 * Millisecond, ''flow-timeout must be >= 1ms''),
     (fGcInterval f < 1 * Millisecond, ''gc-interval must be >= 1ms''),
     (fMaxFlows f < 0, ''max-flows-per-worker must be >= 0''),
     (fMaxReassembly f < 0, ''max-reassembly-bytes-per-worker must be >= 0''),
     (fMaxHeldBytes f < 0, ''max-held-bytes-per-worker must be >= 0''),
     (fShutdownTimeout f < 0, ''shutdown-fail-open-timeout must be >= 0''),
     (fShutdownMaxPkts f < 0, ''shutdown-fail-open-max-pkts must be >= 0''),
     (fAdapterFlushTimeout f < 0, ''adapter-flush-timeout must be >= 0''),
     (fQueueNum f < 0 \<or> fQueueNum f > 65535, ''queue-num must be in 0..65535''),
     (fQueueMaxLen f < 0, ''queue-maxlen must be >= 0''),
     (fCopyRange f < 0, ''copy-range must be >= 0''),
     (fMark f < 0, ''mark must be >= 0''),
     (fAutoRules f \<and> fMark f = 0,
       ''auto-rules requires mark > 0 for reinjection bypass; set --mark or disable --auto-rules'')]"

definition flag_error :: "flags \<Rightarrow> string option" where
  "flag_error f = first_failure (flag_checks f)"

definition flag_rules :: "flags \<Rightarrow> ruleOptions" where
  "flag_rules f = \<lparr>RuleQueueNum = word_of_int (fQueueNum f), RuleMark = word_of_int (fMark f),
     ExcludeLoopback = (\<not> fNoLoopback f)\<rparr>"

definition flag_queue :: "flags \<Rightarrow> nfq_options" where
  "flag_queue f = \<lparr>QueueNum = word_of_int (fQueueNum f), QueueMaxLen = word_of_int (fQueueMaxLen f),
     CopyRange = word_of_int (fCopyRange f), OptMark = word_of_int (fMark f)\<rparr>"

section \<open>Running\<close>

record host =
  euid :: int
  cpus :: int
  sockets :: "history \<Rightarrow> nfq_os"
  engineRun :: "config \<Rightarrow> nfq \<Rightarrow> go_error option"
  message :: "go_error \<Rightarrow> string"

text \<open>Everything before the rules: flags, user, tools.\<close>

definition prepare :: "(string list \<Rightarrow> string list) \<Rightarrow> world \<Rightarrow> host \<Rightarrow> flags \<Rightarrow> history \<Rightarrow> status" where
  "prepare order w hst f h = (case flag_error f of Some e \<Rightarrow> (Some e, h)
   | None \<Rightarrow>
     if (fAutoRules f \<or> fAutoOffload f) \<and> euid hst \<noteq> 0 then
       (Some ''auto-rules/auto-offload require root; run as root or set --auto-rules=false --auto-offload=false'', h)
     else ensureLinuxExternalTools order w (fAutoInstallTools f)
       \<lparr>AutoRules = fAutoRules f, AutoOffload = fAutoOffload f,
        NeedIP = fAutoOffload f \<and> TrimSpace (fIface f) = []\<rparr> h)"

text \<open>\<^verbatim>\<open>rulesCleanup\<close>; its error is only logged.\<close>

definition rules_cleanup :: "nat \<Rightarrow> world \<Rightarrow> backend option \<Rightarrow> history \<Rightarrow> history option" where
  "rules_cleanup fuel w bo h = (case bo of None \<Rightarrow> Some h | Some b \<Rightarrow> map_option snd (uninstall fuel w b h))"

type_synonym restore = "(string \<times> offloadState) option"

definition read_restore :: "world \<Rightarrow> flags \<Rightarrow> string \<Rightarrow> history \<Rightarrow> restore \<times> history" where
  "read_restore w f name h = (if fAutoOffloadRestore f then
     (case readOffloadState w name h of (Inl _, h) \<Rightarrow> (None, h) | (Inr st, h) \<Rightarrow> (Some (name, st), h))
     else (None, h))"

definition offload_setup :: "nat \<Rightarrow> world \<Rightarrow> flags \<Rightarrow> backend option \<Rightarrow> history
    \<Rightarrow> ((string option \<times> restore) \<times> history) option" where
  "offload_setup fuel w f bo h = (if \<not> fAutoOffload f then Some ((None, None), h) else
     case (if TrimSpace (fIface f) = [] then detectEgressInterface w h else (Inr (TrimSpace (fIface f)), h)) of
       (Inl e, h) \<Rightarrow> map_option (\<lambda>h. ((Some (''auto offload failed: '' @ e), None), h)) (rules_cleanup fuel w bo h)
     | (Inr name, h) \<Rightarrow> (case read_restore w f name h of (restore, h) \<Rightarrow>
         (case disableOffload w name h of
            (Some e, h) \<Rightarrow> map_option (\<lambda>h. ((Some (''disable offload failed: '' @ e), restore), h)) (rules_cleanup fuel w bo h)
          | (None, h) \<Rightarrow> Some ((None, restore), h))))"

text \<open>The deferred calls, the last one deferred first.\<close>

definition deferred :: "nat \<Rightarrow> world \<Rightarrow> backend option \<Rightarrow> restore \<Rightarrow> history \<Rightarrow> history option" where
  "deferred fuel w bo restore h = rules_cleanup fuel w bo
     (case restore of None \<Rightarrow> h | Some (name, st) \<Rightarrow> snd (applyOffloadState w name st h))"

definition serve :: "host \<Rightarrow> flags \<Rightarrow> history \<Rightarrow> string option" where
  "serve hst f h = (case NewNFQueue (sockets hst h) (flag_queue f) [] of
     Inl (e, _) \<Rightarrow> Some (''NFQUEUE open failed: '' @ message hst e)
   | Inr ad \<Rightarrow> (case engineRun hst (flag_config (DefaultConfig (cpus hst)) f) ad of
       None \<Rightarrow> None
     | Some e \<Rightarrow> if errors_is e ContextCanceled then None else Some (''engine stopped: '' @ message hst e)))"

definition after_rules :: "nat \<Rightarrow> world \<Rightarrow> host \<Rightarrow> flags \<Rightarrow> backend option \<Rightarrow> history \<Rightarrow> status option" where
  "after_rules fuel w hst f bo h = (case offload_setup fuel w f bo h of None \<Rightarrow> None
     | Some ((e, restore), h) \<Rightarrow>
         map_option (\<lambda>h'. (case e of Some x \<Rightarrow> Some x | None \<Rightarrow> serve hst f h, h')) (deferred fuel w bo restore h))"

definition linux_run :: "nat \<Rightarrow> (string list \<Rightarrow> string list) \<Rightarrow> world \<Rightarrow> host \<Rightarrow> flags \<Rightarrow> history \<Rightarrow> status option" where
  "linux_run fuel order w hst f h = (case prepare order w hst f h of
     (Some e, h) \<Rightarrow> Some (Some e, h)
   | (None, h) \<Rightarrow>
     if fAutoRules f then
       (case installRules w (flag_rules f) h of
          (Inl e, h) \<Rightarrow> Some (Some (''auto rule install failed: '' @ e), h)
        | (Inr b, h) \<Rightarrow> after_rules fuel w hst f (Some b) h)
     else after_rules fuel w hst f None h)"

end
