(* ===== verification/LinuxRulesProps.thy ===== *)
theory LinuxRulesProps
  imports LinuxRules
begin

text \<open>
  Which commands install and remove the packet filter rules, in both backends, and which rules
  a removal finds.
\<close>

section \<open>The rules of the options\<close>

definition nft_rules :: "ruleOptions \<Rightarrow> string list list" where
  "nft_rules o1 = (if RuleMark o1 \<noteq> 0 then [nft_mark_rule o1] else [])
     @ (if ExcludeLoopback o1 then [nft_lo_rule] else []) @ [nft_queue_rule o1]"

definition ipt_rules :: "ruleOptions \<Rightarrow> string list list" where
  "ipt_rules o1 = (if RuleMark o1 \<noteq> 0 then [ipt_mark_rule o1] else [])
     @ (if ExcludeLoopback o1 then [ipt_lo_rule] else []) @ [ipt_queue_rule o1]"

section \<open>The commands of an installation\<close>

text \<open>No rule is added by the commands of \<^term>\<open>cs\<close>.\<close>

definition no_rule :: "command \<Rightarrow> bool" where
  "no_rule c \<longleftrightarrow> take 2 (snd c) \<noteq> [''add'', ''rule''] \<and> take 3 (snd c) \<noteq> [''-t'', ''mangle'', ''-A'']"

definition adds_no_rule :: "history \<Rightarrow> bool" where
  "adds_no_rule cs \<longleftrightarrow> list_all no_rule cs"

lemma adds_no_rule_simps [simp]:
  "adds_no_rule []" "adds_no_rule (c # cs) \<longleftrightarrow> no_rule c \<and> adds_no_rule cs"
  "adds_no_rule (as @ bs) \<longleftrightarrow> adds_no_rule as \<and> adds_no_rule bs"
  by (auto simp: adds_no_rule_def)

lemma ensure_made_adds:
  assumes "ensure_made w path test pre adding h = (r, h')" "adds_no_rule [(path, test)]" "adds_no_rule [(path, adding)]"
  shows "\<exists>cs. h' = h @ cs \<and> adds_no_rule cs"
proof -
  obtain out e h1 where 1: "runCommand w path test h = ((out, e), h1)" by (metis prod.collapse)
  note h1 = runCommandD [OF 1]
  show ?thesis
  proof (cases e)
    case None
    then show ?thesis using assms 1 h1 by (auto simp: ensure_made_def)
  next
    case (Some x)
    then have "attempt w pre path adding h1 = (r, h')" using assms(1) 1 by (simp add: ensure_made_def)
    then have "h' = h @ [(path, test), (path, adding)]" using h1 attemptD by force
    then show ?thesis using assms(2,3) by (intro exI [of _ "[(path, test), (path, adding)]"]) simp
  qed
qed

text \<open>The rules that a listing names for deletion, in order.\<close>

definition stale_handles :: "string \<Rightarrow> string list \<Rightarrow> int list" where
  "stale_handles tag ls = List.map_filter parseNftHandle (filter (\<lambda>l. Contains l (tag_comment tag)) ls)"

definition nft_delete :: "string \<Rightarrow> string \<Rightarrow> string \<Rightarrow> int \<Rightarrow> command" where
  "nft_delete path tab chain n = (path, [''delete'', ''rule'', ''inet'', tab, chain, ''handle'', show_int n])"

lemma delete_lines_ok:
  "delete_lines w path tab chain tag ls h = (None, h') \<Longrightarrow> h' = h @ map (nft_delete path tab chain) (stale_handles tag ls)"
proof (induction ls arbitrary: h)
  case (Cons l ls)
  show ?case
  proof (cases "Contains l (tag_comment tag) \<and> parseNftHandle l \<noteq> None")
    case True
    then obtain n where n: "parseNftHandle l = Some n" by blast
    obtain out e h1 where c: "runCommand w path [''delete'', ''rule'', ''inet'', tab, chain, ''handle'', show_int n] h = ((out, e), h1)"
      by (metis prod.collapse)
    have "delete_lines w path tab chain tag ls h1 = (None, h')"
      using Cons.prems True n c by (auto split: option.splits if_splits)
    note IH = Cons.IH [OF this]
    show ?thesis
      using runCommandD [OF c] True n IH by (simp add: stale_handles_def map_filter_simps nft_delete_def)
  next
    case False
    then have "delete_lines w path tab chain tag ls h = (None, h')" using Cons.prems by (auto split: option.splits if_splits)
    note IH = Cons.IH [OF this]
    then show ?thesis using False by (auto simp: stale_handles_def map_filter_simps split: option.splits)
  qed
qed (simp add: stale_handles_def map_filter_simps)

text \<open>However it ends: the deletions of the stale rules in order, all of them or up to the first that
  fails.\<close>

definition deletions :: "world \<Rightarrow> command list \<Rightarrow> history \<Rightarrow> history \<Rightarrow> bool" where
  "deletions w ds h h' \<longleftrightarrow> (\<exists>m \<le> length ds. h' = h @ take m ds
     \<and> (m < length ds \<longrightarrow> 0 < m \<and> snd (exec w (h @ take (m - 1) ds) [] (ds ! (m - 1))) \<noteq> None))"

lemma deletions_Nil [simp]: "deletions w [] h h' \<longleftrightarrow> h' = h"
  by (auto simp: deletions_def)

lemma deletions_Cons: "deletions w ds (h @ [d]) h' \<Longrightarrow> deletions w (d # ds) h h'"
proof -
  assume "deletions w ds (h @ [d]) h'"
  then obtain m where "m \<le> length ds" "h' = (h @ [d]) @ take m ds"
    "m < length ds \<longrightarrow> 0 < m \<and> snd (exec w ((h @ [d]) @ take (m - 1) ds) [] (ds ! (m - 1))) \<noteq> None"
    unfolding deletions_def by blast
  then show ?thesis unfolding deletions_def by (cases m) (auto intro!: exI [of _ "Suc m"])
qed

lemma runCommand_fails: "snd (fst (runCommand w n args h)) = None \<longleftrightarrow> snd (exec w h [] (n, args)) = None"
  by (simp add: runCommand_def runCommandEnv_def Let_def split: prod.split option.split)

lemma delete_lines_any:
  "delete_lines w path tab chain tag ls h = (r, h') \<Longrightarrow> deletions w (map (nft_delete path tab chain) (stale_handles tag ls)) h h'"
proof (induction ls arbitrary: h)
  case (Cons l ls)
  show ?case
  proof (cases "Contains l (tag_comment tag) \<and> parseNftHandle l \<noteq> None")
    case True
    then obtain n where n: "parseNftHandle l = Some n" by blast
    let ?d = "nft_delete path tab chain n"
    obtain out e h1 where c: "runCommand w path [''delete'', ''rule'', ''inet'', tab, chain, ''handle'', show_int n] h = ((out, e), h1)"
      by (metis prod.collapse)
    have h1: "h1 = h @ [?d]" using runCommandD [OF c] by (simp add: nft_delete_def)
    have st: "stale_handles tag (l # ls) = n # stale_handles tag ls"
      using True n by (simp add: stale_handles_def map_filter_simps)
    show ?thesis
    proof (cases "\<exists>x. e = Some x \<and> \<not> gone x")
      case True
      then have "h' = h1" "e \<noteq> None" using Cons.prems \<open>Contains l (tag_comment tag) \<and> _\<close> n c by auto
      then have "snd (exec w h [] ?d) \<noteq> None" using runCommand_fails [of w path _ h] c by (metis fst_conv snd_conv nft_delete_def)
      then show ?thesis using \<open>h' = h1\<close> h1 st by (auto simp: deletions_def intro!: exI [of _ 1])
    next
      case False
      then have "delete_lines w path tab chain tag ls h1 = (r, h')"
        using Cons.prems \<open>Contains l (tag_comment tag) \<and> _\<close> n c by (auto split: option.splits)
      from Cons.IH [OF this] show ?thesis using deletions_Cons h1 st by simp
    qed
  next
    case False
    then have "delete_lines w path tab chain tag ls h = (r, h')" using Cons.prems by (auto split: option.splits if_splits)
    note IH = Cons.IH [OF this]
    then show ?thesis using False by (auto simp: stale_handles_def map_filter_simps split: option.splits)
  qed
qed (simp add: stale_handles_def map_filter_simps)

text \<open>The lines of the listing that \<^verbatim>\<open>deleteTaggedNftRules\<close> goes by; none if there is no
  chain.\<close>

definition listing :: "world \<Rightarrow> string \<Rightarrow> history \<Rightarrow> string list" where
  "listing w path h = (case fst (runCommand w path [''-a'', ''list'', ''chain'', ''inet'', ''gov_pass'', ''output''] h) of
     (out, None) \<Rightarrow> fst (scan_lines out) | (out, Some e) \<Rightarrow> [])"

lemma deleteTagged_ok:
  assumes "deleteTaggedNftRules w path ''gov_pass'' ''output'' tag h = (None, h')"
  shows "h' = h @ (path, [''-a'', ''list'', ''chain'', ''inet'', ''gov_pass'', ''output''])
     # map (nft_delete path ''gov_pass'' ''output'') (stale_handles tag (listing w path h))"
proof -
  obtain out e h1 where c: "runCommand w path [''-a'', ''list'', ''chain'', ''inet'', ''gov_pass'', ''output''] h = ((out, e), h1)"
    by (metis prod.collapse)
  note h1 = runCommandD [OF c]
  show ?thesis
  proof (cases e)
    case None
    obtain ls tl where sl: "scan_lines out = (ls, tl)" by force
    have "delete_lines w path ''gov_pass'' ''output'' tag ls h1 = (None, h')"
      using assms c None sl by (auto simp: deleteTaggedNftRules_def and_then_ok split: if_splits)
    from delete_lines_ok [OF this] show ?thesis using h1 c None sl by (simp add: listing_def)
  next
    case (Some x)
    then show ?thesis using assms c h1
      by (auto simp: deleteTaggedNftRules_def listing_def stale_handles_def map_filter_simps split: if_splits)
  qed
qed

lemma deleteTagged_any:
  assumes "deleteTaggedNftRules w path ''gov_pass'' ''output'' tag h = (r, h')"
  shows "deletions w (map (nft_delete path ''gov_pass'' ''output'') (stale_handles tag (listing w path h)))
    (h @ [(path, [''-a'', ''list'', ''chain'', ''inet'', ''gov_pass'', ''output''])]) h'"
proof -
  obtain out e h1 where c: "runCommand w path [''-a'', ''list'', ''chain'', ''inet'', ''gov_pass'', ''output''] h = ((out, e), h1)"
    by (metis prod.collapse)
  note h1 = runCommandD [OF c]
  show ?thesis
  proof (cases e)
    case None
    obtain ls tl where sl: "scan_lines out = (ls, tl)" by force
    obtain r1 where "delete_lines w path ''gov_pass'' ''output'' tag ls h1 = (r1, h')"
      using assms c None sl by (auto simp: deleteTaggedNftRules_def and_then_def split: prod.splits option.splits if_splits)
    from delete_lines_any [OF this] show ?thesis using h1 c None sl by (simp add: listing_def)
  next
    case (Some x)
    then show ?thesis using assms c h1
      by (auto simp: deleteTaggedNftRules_def listing_def stale_handles_def map_filter_simps split: if_splits)
  qed
qed

lemma no_rule_simps [simp]:
  "no_rule (path, [''-a'', ''list'', ''chain'', ''inet'', ''gov_pass'', ''output''])" "no_rule (nft_delete path tab chain n)"
  by (simp_all add: no_rule_def nft_delete_def)

lemma attempt_if:
  "(if b then attempt w pre path args h else (None, h)) = (None, h') \<Longrightarrow> h' = h @ (if b then [(path, args)] else [])"
  by (auto split: if_splits dest: attemptD)

lemma installNft_ok:
  assumes "installNftRules w path o1 h = (None, h')"
  shows "\<exists>pre. h' = h @ pre @ (path, [''-a'', ''list'', ''chain'', ''inet'', ''gov_pass'', ''output''])
      # map (nft_delete path ''gov_pass'' ''output'') (stale_handles ''gov-pass'' (listing w path (h @ pre)))
      @ map (\<lambda>r. (path, nft_rule r)) (nft_rules o1) \<and> adds_no_rule pre"
proof -
  obtain h1 h2 h3 h4 h5 where
    1: "ensure_made w path [''list'', ''table'', ''inet'', ''gov_pass''] ''nft add table failed: ''
          [''add'', ''table'', ''inet'', ''gov_pass''] h = (None, h1)"
    and 2: "ensure_made w path [''list'', ''chain'', ''inet'', ''gov_pass'', ''output''] ''nft add chain failed: ''
          nft_chain_args h1 = (None, h2)"
    and 3: "deleteTaggedNftRules w path ''gov_pass'' ''output'' ''gov-pass'' h2 = (None, h3)"
    and 4: "(if RuleMark o1 \<noteq> 0 then attempt w ''nft add mark bypass failed: '' path (nft_rule (nft_mark_rule o1)) h3
               else (None, h3)) = (None, h4)"
    and 5: "(if ExcludeLoopback o1 then attempt w ''nft add loopback bypass failed: '' path (nft_rule nft_lo_rule) h4
               else (None, h4)) = (None, h5)"
    and 6: "attempt w ''nft add queue rule failed: '' path (nft_rule (nft_queue_rule o1)) h5 = (None, h')"
    using assms unfolding installNftRules_def and_then_ok wrap_ok by blast
  obtain c1 where c1: "h1 = h @ c1" "adds_no_rule c1"
    using ensure_made_adds [OF 1] by (auto simp: no_rule_def)
  obtain c2 where c2: "h2 = h1 @ c2" "adds_no_rule c2"
    using ensure_made_adds [OF 2] by (auto simp: no_rule_def nft_chain_args_def)
  note 3 = deleteTagged_ok [OF 3] and 45 = attempt_if [OF 4] attempt_if [OF 5]
  show ?thesis
    using c1 c2 3 45 attemptD [OF 6] by (intro exI [of _ "c1 @ c2"]) (auto simp: nft_rules_def)
qed

lemma ensureIptablesRule_adds:
  assumes "ensureIptablesRule w path test adding h = (r, h')" "no_rule (path, test)" "no_rule (path, adding)"
  shows "\<exists>cs. h' = h @ cs \<and> adds_no_rule cs"
  using ensure_made_adds [of w path test "''''" adding h r h'] assms
  by (simp add: ensureIptablesRule_def ensure_made_def)

lemma installIptables_ok:
  assumes "installIptablesRules w path o1 h = (None, h')"
  shows "\<exists>pre mid. h' = h @ pre @ (path, [''-t'', ''mangle'', ''-F'', ''GOVPASS_OUTPUT'']) # mid
      @ map (\<lambda>r. (path, ipt_rule r)) (ipt_rules o1) \<and> adds_no_rule pre \<and> adds_no_rule mid"
proof -
  obtain h1 h2 h3 h4 h5 where
    1: "ensureIptablesChain w path ''mangle'' ''GOVPASS_OUTPUT'' h = (None, h1)"
    and 2: "attempt w ''iptables flush chain failed: '' path [''-t'', ''mangle'', ''-F'', ''GOVPASS_OUTPUT''] h1 = (None, h2)"
    and 3: "ensureIptablesRule w path [''-t'', ''mangle'', ''-C'', ''OUTPUT'', ''-j'', ''GOVPASS_OUTPUT'']
                 [''-t'', ''mangle'', ''-I'', ''OUTPUT'', ''1'', ''-j'', ''GOVPASS_OUTPUT''] h2 = (None, h3)"
    and 4: "(if RuleMark o1 \<noteq> 0 then attempt w ''iptables mark bypass failed: '' path (ipt_rule (ipt_mark_rule o1)) h3
               else (None, h3)) = (None, h4)"
    and 5: "(if ExcludeLoopback o1 then attempt w ''iptables loopback bypass failed: '' path (ipt_rule ipt_lo_rule) h4
               else (None, h4)) = (None, h5)"
    and 6: "attempt w ''iptables queue rule failed: '' path (ipt_rule (ipt_queue_rule o1)) h5 = (None, h')"
    using assms unfolding installIptablesRules_def and_then_ok wrap_ok by blast
  have c1: "h1 = h @ [(path, [''-t'', ''mangle'', ''-N'', ''GOVPASS_OUTPUT''])]"
    using 1 by (auto simp: ensureIptablesChain_def split: prod.splits option.splits if_splits dest: runCommandD)
  obtain c3 where c3: "h3 = h2 @ c3" "adds_no_rule c3"
    using ensureIptablesRule_adds [OF 3] by (auto simp: no_rule_def)
  note 45 = attempt_if [OF 4] attempt_if [OF 5]
  show ?thesis
    using c1 c3 45 attemptD [OF 6] attemptD [OF 2]
    by (intro exI [of _ "[(path, [''-t'', ''mangle'', ''-N'', ''GOVPASS_OUTPUT''])]"] exI [of _ c3])
      (auto simp: ipt_rules_def no_rule_def)
qed

text \<open>C21. A successful installation leaves exactly its rules, in either backend: the rules it adds are
  the mark bypass, the loopback bypass and the queue rule that the options ask for, in this
  order and at the end; just before them, with nft, every tagged rule that the listing of the
  chain shows is deleted by its handle, and with iptables the chain is flushed.\<close>

theorem install_adds_exactly:
  assumes "installNftRules w path o1 h = (None, h') \<or> installIptablesRules w path o1 h = (None, h')"
  shows "(\<exists>pre. h' = h @ pre @ (path, [''-a'', ''list'', ''chain'', ''inet'', ''gov_pass'', ''output''])
        # map (nft_delete path ''gov_pass'' ''output'') (stale_handles ''gov-pass'' (listing w path (h @ pre)))
        @ map (\<lambda>r. (path, nft_rule r)) (nft_rules o1) \<and> adds_no_rule pre)
    \<or> (\<exists>pre mid. h' = h @ pre @ (path, [''-t'', ''mangle'', ''-F'', ''GOVPASS_OUTPUT'']) # mid
        @ map (\<lambda>r. (path, ipt_rule r)) (ipt_rules o1) \<and> adds_no_rule pre \<and> adds_no_rule mid)"
  using assms installNft_ok installIptables_ok by blast

text \<open>The handle is read back from the way nft prints a rule.\<close>

lemma parseNftHandle_printed:
  assumes "list_all (\<lambda>f. f \<noteq> ''handle'') (Fields rule)" "n < 2 ^ 63"
  shows "parseNftHandle (rule @ '' # handle '' @ show_nat n) = Some (int n)"
proof -
  have "Fields (rule @ '' # handle '' @ show_nat n) = Fields rule @ Fields (''# handle '' @ show_nat n)"
    using Fields_space [of "CHR '' ''" rule "''# handle '' @ show_nat n"] by simp
  also have "Fields (''# handle '' @ show_nat n) = [''#'', ''handle'', show_nat n]"
    using Fields_Join [of "[''#'', ''handle'', show_nat n]"] show_nat_word [of n]
    by (simp add: is_word_def is_space_def)
  finally have f: "Fields (rule @ '' # handle '' @ show_nat n) = Fields rule @ [''#'', ''handle'', show_nat n]" .
  have "handle_after (fs @ [''#'', ''handle'', v]) ''handle'' = Some v" if "list_all (\<lambda>f. f \<noteq> ''handle'') fs" for fs v
    using that
  proof (induction fs)
    case (Cons f fs)
    then show ?case by (cases fs) simp_all
  qed simp
  then show ?thesis using assms(1) Atoi_show [OF assms(2)] unfolding parseNftHandle_def f by simp
qed

definition printed_rule :: "string \<times> bool \<times> nat \<Rightarrow> string" where
  "printed_rule r = (case r of (rule, tagged, n) \<Rightarrow>
     rule @ (if tagged then '' '' @ tag_comment ''gov-pass'' else []) @ '' # handle '' @ show_nat n)"

definition printable :: "string \<times> bool \<times> nat \<Rightarrow> bool" where
  "printable r \<longleftrightarrow> (case r of (rule, tagged, n) \<Rightarrow> list_all (\<lambda>f. f \<noteq> ''handle'') (Fields rule) \<and> n < 2 ^ 63
     \<and> (tagged \<or> \<not> Contains (printed_rule r) (tag_comment ''gov-pass'')))"

lemma tag_fields: "Fields (tag_comment ''gov-pass'') = [''comment'', quote_char # ''gov-pass'' @ [quote_char]]"
  by (simp add: Fields_def tag_comment_def is_space_def quote_char_def)

lemma printed_rule_parse:
  assumes "printable (rule, tagged, n)"
  shows "Contains (printed_rule (rule, tagged, n)) (tag_comment ''gov-pass'') = tagged"
    "parseNftHandle (printed_rule (rule, tagged, n)) = Some (int n)"
proof -
  have c: "Contains (rule @ '' '' @ tag_comment ''gov-pass'' @ '' # handle '' @ show_nat n) (tag_comment ''gov-pass'')"
    using Contains_middle [of "rule @ '' ''" "tag_comment ''gov-pass''" "'' # handle '' @ show_nat n"] by simp
  show "Contains (printed_rule (rule, tagged, n)) (tag_comment ''gov-pass'') = tagged"
    using assms c by (cases tagged) (simp_all add: printable_def printed_rule_def)
  have f: "Fields (rule @ '' '' @ tag_comment ''gov-pass'') = Fields rule @ [''comment'', quote_char # ''gov-pass'' @ [quote_char]]"
    using Fields_space [of "CHR '' ''" rule "tag_comment ''gov-pass''"] by (simp add: tag_fields)
  have "parseNftHandle ((if tagged then rule @ '' '' @ tag_comment ''gov-pass'' else rule) @ '' # handle '' @ show_nat n) = Some (int n)"
    using assms by (intro parseNftHandle_printed) (simp_all add: printable_def f [simplified] quote_char_def)
  then show "parseNftHandle (printed_rule (rule, tagged, n)) = Some (int n)"
    by (cases tagged) (simp_all add: printed_rule_def)
qed

text \<open>Removing the rules finds exactly the program's own: from a listing in the form in which
  nft prints rules, the handles that are deleted are those of the rules with the program's
  comment, in order, and no others.\<close>

theorem tagged_rules_found:
  assumes "list_all printable rs"
  shows "stale_handles ''gov-pass'' (map printed_rule rs) = map (\<lambda>(rule, tagged, n). int n) (filter (\<lambda>(rule, tagged, n). tagged) rs)"
  using assms
proof (induction rs)
  case (Cons r rs)
  obtain rule tagged n where r: "r = (rule, tagged, n)" by (metis prod_cases3)
  have "printable (rule, tagged, n)" using Cons.prems by (simp add: r)
  note p = printed_rule_parse [OF this]
  show ?case
    using Cons p by (cases tagged) (simp_all add: r stale_handles_def map_filter_simps)
qed (simp add: stale_handles_def map_filter_simps)

lemma tagged_rules_found_witness:
  "stale_handles ''gov-pass'' (map printed_rule [(''oifname lo return'', True, 4), (''tcp dport 80 accept'', False, 7),
     (''meta mark and 1 == 1 return'', True, 12)]) = [4, 12]"
proof -
  have "list_all printable [(''oifname lo return'', True, 4), (''tcp dport 80 accept'', False, 7),
     (''meta mark and 1 == 1 return'', True, 12)]"
    by (simp add: printable_def Fields_def is_space_def printed_rule_def tag_comment_def HasPrefix_def show_nat.simps
        digit_char_def quote_char_def)
  from tagged_rules_found [OF this] show ?thesis by simp
qed

text \<open>A machine on which every command succeeds and prints nothing.\<close>

definition quiet_world :: world where
  "quiet_world = \<lparr>exec = (\<lambda>_ _ _. ('''', None)), look = (\<lambda>_ n. Some (''/usr/sbin/'' @ n)), regular = (\<lambda>_ _. False)\<rparr>"

lemma quiet_runs:
  "runCommand quiet_world n args h = (('''', None), h @ [(n, args)])"
  "attempt quiet_world pre n args h = (None, h @ [(n, args)])"
  "ensure_made quiet_world n test pre adding h = (None, h @ [(n, test)])"
proof -
  show r: "runCommand quiet_world n args h = (('''', None), h @ [(n, args)])" for args
    by (simp add: runCommand_def runCommandEnv_def quiet_world_def)
  show "attempt quiet_world pre n args h = (None, h @ [(n, args)])" by (simp add: attempt_def r)
  show "ensure_made quiet_world n test pre adding h = (None, h @ [(n, test)])" by (simp add: ensure_made_def r)
qed

lemma quiet_installs: "\<exists>h'. installNftRules quiet_world n o1 h = (None, h')"
  unfolding installNftRules_def and_then_def deleteTaggedNftRules_def quiet_runs
  by (simp add: scan_lines_def quiet_runs wrap_def)

lemma install_adds_exactly_witness:
  "\<exists>h'. installNftRules quiet_world ''nft'' \<lparr>RuleQueueNum = 100, RuleMark = 1, ExcludeLoopback = True\<rparr> [] = (None, h')
     \<and> (\<exists>pre. h' = pre @ map (\<lambda>r. (''nft'', nft_rule r)) (nft_rules \<lparr>RuleQueueNum = 100, RuleMark = 1, ExcludeLoopback = True\<rparr>)
          \<or> h' = pre @ map (\<lambda>r. (''nft'', ipt_rule r)) (ipt_rules \<lparr>RuleQueueNum = 100, RuleMark = 1, ExcludeLoopback = True\<rparr>))"
proof -
  define o1 where "o1 = \<lparr>RuleQueueNum = 100, RuleMark = 1, ExcludeLoopback = True\<rparr>"
  obtain h' where h': "installNftRules quiet_world ''nft'' o1 [] = (None, h')" using quiet_installs by blast
  consider pre D where "h' = pre @ D @ map (\<lambda>r. (''nft'', nft_rule r)) (nft_rules o1)"
    | pre D where "h' = pre @ D @ map (\<lambda>r. (''nft'', ipt_rule r)) (ipt_rules o1)"
    using install_adds_exactly [OF disjI1 [OF h']] by (metis append_Cons append_assoc append_Nil)
  then show ?thesis unfolding o1_def [symmetric] using h' by cases (metis append_assoc)+
qed

section \<open>Removing the iptables rules\<close>

definition jump_removal :: "string \<Rightarrow> command" where
  "jump_removal path = (path, [''-t'', ''mangle'', ''-D'', ''OUTPUT'', ''-j'', ''GOVPASS_OUTPUT''])"

lemma remove_jumps_done:
  "\<forall>i<n. snd (exec w (h @ replicate i (jump_removal path)) [] (jump_removal path)) = None \<Longrightarrow>
   snd (exec w (h @ replicate n (jump_removal path)) [] (jump_removal path)) \<noteq> None \<Longrightarrow> n < fuel \<Longrightarrow>
   remove_jumps fuel w path h = Some (h @ replicate (Suc n) (jump_removal path))"
proof (induction n arbitrary: h fuel)
  case 0
  then obtain m where m: "fuel = Suc m" by (cases fuel) auto
  obtain out e h1 where c: "runCommand w path [''-t'', ''mangle'', ''-D'', ''OUTPUT'', ''-j'', ''GOVPASS_OUTPUT''] h = ((out, e), h1)"
    by (metis prod.collapse)
  have "e \<noteq> None" using 0 c runCommand_fails [of w path _ h] by (metis append_Nil2 replicate_0 fst_conv snd_conv jump_removal_def)
  then show ?case using runCommandD [OF c] by (auto simp: m c jump_removal_def)
next
  case (Suc n)
  then obtain m where m: "fuel = Suc m" "n < m" by (cases fuel) auto
  let ?j = "jump_removal path"
  obtain out e h1 where c: "runCommand w path [''-t'', ''mangle'', ''-D'', ''OUTPUT'', ''-j'', ''GOVPASS_OUTPUT''] h = ((out, e), h1)"
    by (metis prod.collapse)
  have "snd (exec w h [] ?j) = None" using Suc.prems(1) by (metis append_Nil2 replicate_0 zero_less_Suc)
  then have e: "e = None" using c runCommand_fails [of w path _ h] by (metis fst_conv snd_conv jump_removal_def)
  have h1: "h1 = h @ [?j]" using runCommandD [OF c] by (simp add: jump_removal_def)
  have "\<forall>i<n. snd (exec w (h1 @ replicate i ?j) [] ?j) = None" "snd (exec w (h1 @ replicate n ?j) [] ?j) \<noteq> None"
    using Suc.prems(1,2) by (auto simp: h1 dest: spec [of _ "Suc _"])
  from Suc.IH [OF this m(2)] show ?case by (simp add: m(1) c e h1)
qed

text \<open>Uninstalling the iptables rules terminates: if the chain is jumped to \<^term>\<open>n\<close> times,
  so that the command that removes a jump succeeds \<^term>\<open>n\<close> times and then fails, the loop
  removes them all, stops, and the chain is flushed and deleted, even if these fail.\<close>

theorem iptables_uninstall_terminates:
  assumes "\<forall>i<n. snd (exec w (h @ replicate i (jump_removal path)) [] (jump_removal path)) = None"
    and "snd (exec w (h @ replicate n (jump_removal path)) [] (jump_removal path)) \<noteq> None" "n < fuel"
  shows "uninstallIptablesRules fuel w path h = Some (None, h @ replicate (Suc n) (jump_removal path)
    @ [(path, [''-t'', ''mangle'', ''-F'', ''GOVPASS_OUTPUT'']), (path, [''-t'', ''mangle'', ''-X'', ''GOVPASS_OUTPUT''])])"
  using remove_jumps_done [OF assms] by (simp add: uninstallIptablesRules_def)

lemma iptables_uninstall_terminates_witness:
  "uninstallIptablesRules 5 \<lparr>exec = (\<lambda>h _ _. ('''', if length h < 2 then None else Some ''exit status 1'')),
      look = (\<lambda>_ _. None), regular = (\<lambda>_ _. False)\<rparr> ''iptables'' []
    = Some (None, replicate 3 (jump_removal ''iptables'')
    @ [(''iptables'', [''-t'', ''mangle'', ''-F'', ''GOVPASS_OUTPUT'']), (''iptables'', [''-t'', ''mangle'', ''-X'', ''GOVPASS_OUTPUT''])])"
proof -
  let ?w = "\<lparr>exec = (\<lambda>h _ _. ('''', if length h < 2 then None else Some ''exit status 1'')),
      look = (\<lambda>_ _. None), regular = (\<lambda>_ _. False)\<rparr>"
  have "\<forall>i<2. snd (exec ?w ([] @ replicate i (jump_removal ''iptables'')) [] (jump_removal ''iptables'')) = None"
    "snd (exec ?w ([] @ replicate 2 (jump_removal ''iptables'')) [] (jump_removal ''iptables'')) \<noteq> None" by simp_all
  from iptables_uninstall_terminates [OF this, of 5] show ?thesis by (simp add: numeral_3_eq_3 numeral_2_eq_2)
qed

section \<open>Removing the rules\<close>

text \<open>What a removal has done between two histories.  With nft: nothing but looking if there is no
  table; else the tagged rules of the chain's listing are deleted by their handles.  With
  iptables: the jump is deleted until that fails, and the chain is flushed and deleted.\<close>

fun removal :: "world \<Rightarrow> backend \<Rightarrow> history \<Rightarrow> history \<Rightarrow> bool" where
  "removal w (Nft path) g h' = (let t = (path, [''list'', ''table'', ''inet'', ''gov_pass'']);
       l = (path, [''-a'', ''list'', ''chain'', ''inet'', ''gov_pass'', ''output''])
     in if snd (exec w g [] t) \<noteq> None then h' = g @ [t]
        else deletions w (map (nft_delete path ''gov_pass'' ''output'') (stale_handles ''gov-pass'' (listing w path (g @ [t])))) (g @ [t, l]) h')"
| "removal w (Iptables path) g h' = (\<exists>n. (\<forall>i<n. snd (exec w (g @ replicate i (jump_removal path)) [] (jump_removal path)) = None)
     \<and> snd (exec w (g @ replicate n (jump_removal path)) [] (jump_removal path)) \<noteq> None
     \<and> h' = g @ replicate (Suc n) (jump_removal path)
         @ [(path, [''-t'', ''mangle'', ''-F'', ''GOVPASS_OUTPUT'']), (path, [''-t'', ''mangle'', ''-X'', ''GOVPASS_OUTPUT''])])"

text \<open>A chain is jumped to finitely often: deleting the jump fails in the end.\<close>

definition jumps_finite :: "world \<Rightarrow> backend \<Rightarrow> bool" where
  "jumps_finite w b \<longleftrightarrow> (case b of Nft path \<Rightarrow> True
     | Iptables path \<Rightarrow> \<forall>g. \<exists>n. snd (exec w (g @ replicate n (jump_removal path)) [] (jump_removal path)) \<noteq> None)"

lemma uninstall_removes:
  assumes "jumps_finite w b"
  shows "\<exists>n r h'. (\<forall>fuel>n. uninstall fuel w b g = Some (r, h')) \<and> removal w b g h' \<and> (\<exists>cs. h' = g @ cs)"
proof (cases b)
  case (Nft path)
  let ?t = "[''list'', ''table'', ''inet'', ''gov_pass'']"
  obtain r h' where u: "uninstallNftRules w path g = (r, h')" by force
  obtain out e h1 where c: "runCommand w path ?t g = ((out, e), h1)" by (metis prod.collapse)
  note h1 = runCommandD [OF c]
  have e: "e = None \<longleftrightarrow> snd (exec w g [] (path, ?t)) = None" using runCommand_fails [of w path ?t g] c by simp
  have "removal w b g h'"
  proof (cases e)
    case None
    obtain r1 where "deleteTaggedNftRules w path ''gov_pass'' ''output'' ''gov-pass'' h1 = (r1, h')"
      using u c None by (auto simp: uninstallNftRules_def wrap_def split: prod.splits option.splits)
    from deleteTagged_any [OF this] show ?thesis using None e h1 by (simp add: Nft Let_def)
  next
    case (Some x)
    then show ?thesis using u c e h1 by (auto simp: uninstallNftRules_def Nft Let_def)
  qed
  moreover from this have "\<exists>cs. h' = g @ cs" by (auto simp: Nft Let_def deletions_def split: if_splits)
  moreover have "\<forall>fuel>0. uninstall fuel w b g = Some (r, h')" using u by (simp add: uninstall_def Nft)
  ultimately show ?thesis by blast
next
  case (Iptables path)
  let ?fails = "\<lambda>n. snd (exec w (g @ replicate n (jump_removal path)) [] (jump_removal path)) \<noteq> None"
  have "\<exists>n. ?fails n" using assms by (simp add: jumps_finite_def Iptables)
  from exists_least_iff [THEN iffD1, OF this] obtain n where n: "?fails n" "\<forall>i<n. \<not> ?fails i" by blast
  then show ?thesis using remove_jumps_done [of n w g path]
    by (intro exI [of _ n]) (auto simp: Iptables uninstall_def uninstallIptablesRules_def)
qed

end
