(* ===== verification/LinuxMainProps.thy ===== *)
theory LinuxMainProps
  imports LinuxMain LinuxRulesProps
begin

text \<open>
  Properties of the Linux program: what accepted flags guarantee, where the check of the mark
  falls short, and that installed rules and changed offloads are put back on every way out.
\<close>

lemma flag_ok:
  "flag_error f = None \<longleftrightarrow> (\<forall>(b, m)\<in>set (flag_checks f). \<not> b)"
  by (simp add: flag_error_def first_failure_None)

text \<open>C26. Accepted flags give a configuration within the bounds that the engine relies on, and a
  queue number that is not truncated; the first flag out of its range gives its own message,
  and the default flags are accepted.\<close>

theorem accepted_flags:
  assumes "flag_error f = None"
  shows "let c = flag_config (DefaultConfig n) f in 1 \<le> SplitChunk c \<and> 1 \<le> MaxBufferBytes c \<and> 1 \<le> MaxHeldPackets c
    \<and> 0 \<le> MaxSegmentPayload c \<and> 1 \<le> WorkerCount c \<and> 0 < CollectTimeout c \<and> 0 < FlowIdleTimeout c \<and> 0 < GCInterval c
    \<and> 0 \<le> MaxFlowsPerWorker c \<and> 0 \<le> MaxReassemblyBytesPerWorker c \<and> 0 \<le> MaxHeldBytesPerWorker c
    \<and> WorkerQueueSize c = 1024 \<and> SplitMode c \<in> {SplitModeImmediate, SplitModeTLSHello}
    \<and> uint (RuleQueueNum (flag_rules f)) = fQueueNum f \<and> uint (QueueNum (flag_queue f)) = fQueueNum f
    \<and> RuleMark (flag_rules f) = OptMark (flag_queue f)"
proof -
  have c: "\<forall>(b, m)\<in>set (flag_checks f). \<not> b" using assms by (simp add: flag_ok)
  then have q: "0 \<le> fQueueNum f" "fQueueNum f \<le> 65535" by (simp_all add: flag_checks_def)
  then have u: "uint (word_of_int (fQueueNum f) :: 16 word) = fQueueNum f" by (simp add: uint_word_of_int)
  have m: "fst (parseSplitMode (fSplitMode f)) \<in> {SplitModeImmediate, SplitModeTLSHello}"
    by (simp add: parseSplitMode_def)
  show ?thesis
    using c m u by (simp add: Let_def flag_config_def flag_checks_def flag_rules_def flag_queue_def DefaultConfig_def Millisecond_def)
qed

lemma accepted_flags_witness:
  "uint (RuleQueueNum (flag_rules (default_flags (DefaultConfig 4)))) = 100"
proof -
  have "flag_error (default_flags (DefaultConfig 4)) = None" by code_simp
  from accepted_flags [OF this, of 4] show ?thesis by (simp add: Let_def default_flags_def)
qed

text \<open>The check of the mark is defeated by truncation: a mark of 2^32 passes the check that
  automatic rules have a mark, but both the rules and the sockets get the mark 0, so that in
  neither backend a bypass rule for the program's own reinjected packets is installed.\<close>

definition wide_mark :: flags where
  "wide_mark = (default_flags (DefaultConfig 4))\<lparr>fMark := 4294967296\<rparr>"

theorem mark_truncated:
  "flag_error wide_mark = None \<and> fAutoRules wide_mark \<and> RuleMark (flag_rules wide_mark) = 0 \<and> OptMark (flag_queue wide_mark) = 0
   \<and> nft_rules (flag_rules wide_mark) = [nft_lo_rule, nft_queue_rule (flag_rules wide_mark)]
   \<and> ipt_rules (flag_rules wide_mark) = [ipt_lo_rule, ipt_queue_rule (flag_rules wide_mark)]"
proof -
  have "flag_rules wide_mark = \<lparr>RuleQueueNum = 100, RuleMark = 0, ExcludeLoopback = True\<rparr>" "OptMark (flag_queue wide_mark) = 0"
    by (simp_all add: flag_rules_def flag_queue_def wide_mark_def default_flags_def)
  moreover have "flag_error wide_mark = None" "fAutoRules wide_mark" by code_simp+
  ultimately show ?thesis by (simp add: nft_rules_def ipt_rules_def)
qed

section \<open>Cleaning up\<close>

lemma cleanup_removes:
  assumes "jumps_finite w b"
  shows "\<exists>n h'. (\<forall>fuel>n. rules_cleanup fuel w (Some b) g = Some h') \<and> removal w b g h' \<and> (\<exists>cs. h' = g @ cs)"
  using uninstall_removes [OF assms, of g] by (auto simp: rules_cleanup_def)

text \<open>The interface: the one that is asked for, or the one of the route to the outside.\<close>

definition chosen_interface :: "world \<Rightarrow> flags \<Rightarrow> history \<Rightarrow> (string + string) \<times> history" where
  "chosen_interface w f h = (if TrimSpace (fIface f) \<noteq> [] then (Inr (TrimSpace (fIface f)), h) else detectEgressInterface w h)"

text \<open>The command that sets an interface's offloads to a state.\<close>

definition set_offloads :: "world \<Rightarrow> string \<Rightarrow> offloadState \<Rightarrow> history \<Rightarrow> history" where
  "set_offloads w name st g = (case lookPath w ''ethtool'' g of None \<Rightarrow> []
     | Some p \<Rightarrow> [(p, [''-K'', TrimSpace name, ''gro'', on_off (gro st), ''gso'', on_off (gso st), ''tso'', on_off (tso st)])])"

lemma detect_extends: "detectEgressInterface w h = (r, h') \<Longrightarrow> \<exists>cs. h' = h @ cs"
  by (auto simp: detectEgressInterface_def split: option.splits prod.splits if_splits dest!: runCommandD)

lemma chosen_extends: "chosen_interface w f h = (r, h') \<Longrightarrow> \<exists>cs. h' = h @ cs"
  using detect_extends by (auto simp: chosen_interface_def split: if_splits)

lemma read_extends: "readOffloadState w name h = (r, h') \<Longrightarrow> \<exists>cs. h' = h @ cs"
  by (auto simp: readOffloadState_def Let_def split: option.splits prod.splits if_splits dest!: runCommandD)

lemma read_named: "readOffloadState w name h = (Inr st, h') \<Longrightarrow> TrimSpace name \<noteq> []"
  by (auto simp: readOffloadState_def Let_def split: if_splits)

lemma disable_extends: "disableOffload w name h = (r, h') \<Longrightarrow> \<exists>cs. h' = h @ cs"
  by (auto simp: disableOffload_def Let_def split: option.splits if_splits dest!: attemptD)

lemma apply_sets: "TrimSpace name \<noteq> [] \<Longrightarrow> snd (applyOffloadState w name st g) = g @ set_offloads w name st g"
  by (simp add: applyOffloadState_def set_offloads_def Let_def split: option.split)

lemma apply_extends: "\<exists>cs. snd (applyOffloadState w name st g) = g @ cs"
  by (simp add: applyOffloadState_def Let_def split: option.split)

text \<open>The offloads are set up with enough fuel, and what is to be restored is what was read.\<close>

definition read_back :: "world \<Rightarrow> flags \<Rightarrow> history \<Rightarrow> string \<Rightarrow> offloadState \<Rightarrow> history \<Rightarrow> bool" where
  "read_back w f h1 name st h3 \<longleftrightarrow> fAutoOffload f \<and> fAutoOffloadRestore f
     \<and> (\<exists>h2. chosen_interface w f h1 = (Inr name, h2) \<and> readOffloadState w name h2 = (Inr st, h3))"

lemma offload_setup_done:
  assumes "jumps_finite w b"
  shows "\<exists>n e restore g. (\<forall>fuel>n. offload_setup fuel w f (Some b) h1 = Some ((e, restore), g)) \<and> (\<exists>cs. g = h1 @ cs)
    \<and> (\<forall>name st h3. read_back w f h1 name st h3 \<longrightarrow> restore = Some (name, st) \<and> (\<exists>cs. g = h3 @ cs))"
proof (cases "fAutoOffload f")
  case False
  then have "\<forall>fuel>0. offload_setup fuel w f (Some b) h1 = Some ((None, None), h1)" "\<not> read_back w f h1 name st h3" for name st h3
    by (simp_all add: offload_setup_def read_back_def)
  then show ?thesis by (metis append_Nil2)
next
  case True
  obtain i h2 where i: "chosen_interface w f h1 = (i, h2)" by force
  have eq: "(if TrimSpace (fIface f) = [] then detectEgressInterface w h1 else (Inr (TrimSpace (fIface f)), h1)) = (i, h2)"
    using i by (auto simp: chosen_interface_def)
  obtain c2 where c2: "h2 = h1 @ c2" using chosen_extends [OF i] by blast
  show ?thesis
  proof (cases i)
    case (Inl e)
    obtain n g cs where "\<forall>fuel>n. rules_cleanup fuel w (Some b) h2 = Some g" "g = h2 @ cs"
      using cleanup_removes [OF assms, of h2] by blast
    then have "\<forall>fuel>n. offload_setup fuel w f (Some b) h1 = Some ((Some (''auto offload failed: '' @ e), None), g)" "g = h1 @ c2 @ cs"
      using True c2 by (simp_all add: offload_setup_def eq Inl)
    moreover have "\<not> read_back w f h1 name st h3" for name st h3 using i Inl by (auto simp: read_back_def)
    ultimately show ?thesis by blast
  next
    case (Inr name)
    obtain rs h3 where r: "read_restore w f name h2 = (rs, h3)" by force
    obtain c3 where c3: "h3 = h2 @ c3"
    proof (cases "fAutoOffloadRestore f")
      case True
      obtain x h where ro: "readOffloadState w name h2 = (x, h)" by force
      then have "h3 = h" using r True by (auto simp: read_restore_def split: sum.splits)
      then show ?thesis using read_extends [OF ro] that by blast
    qed (use r that in \<open>simp add: read_restore_def\<close>)
    obtain d h4 where d: "disableOffload w name h3 = (d, h4)" by force
    obtain c4 where c4: "h4 = h3 @ c4" using disable_extends [OF d] by blast
    have bk: "rs = Some (nm, st) \<and> h3' = h3" if "read_back w f h1 nm st h3'" for nm st h3'
      using that i Inr r by (auto simp: read_back_def read_restore_def)
    show ?thesis
    proof (cases d)
      case None
      then have "\<forall>fuel>0. offload_setup fuel w f (Some b) h1 = Some ((None, rs), h4)"
        using True r d by (simp add: offload_setup_def eq Inr)
      moreover have "h4 = h1 @ c2 @ c3 @ c4" using c2 c3 c4 by simp
      ultimately show ?thesis using bk c4 by blast
    next
      case (Some e)
      obtain n g cs where g: "\<forall>fuel>n. rules_cleanup fuel w (Some b) h4 = Some g" "g = h4 @ cs"
        using cleanup_removes [OF assms, of h4] by blast
      then have "\<forall>fuel>n. offload_setup fuel w f (Some b) h1 = Some ((Some (''disable offload failed: '' @ e), rs), g)"
        using True r d Some by (simp add: offload_setup_def eq Inr)
      moreover have "g = h1 @ c2 @ c3 @ c4 @ cs" "g = h3 @ c4 @ cs" using c2 c3 c4 g(2) by simp_all
      ultimately show ?thesis using bk by blast
    qed
  qed
qed

text \<open>C13. Installed rules are taken away again.  Once the preparation has succeeded and rules are wanted,
  there are two ways on.  If the installation fails, the program ends with its error and runs
  nothing more (so that rules added before the failure stay).  If it succeeds, the program ends,
  on every way out (interface not found, offload not changed, adapter not opened, engine failed
  or stopped), and the last that it has run is the removal of the rules in that backend, command
  by command; and if the state of the offloads was read before they were changed, then the
  command just before the removal sets them to that state again.  Jumps to the chain are taken
  to be finitely many, so that deleting them fails in the end.\<close>

theorem linux_cleans_up:
  assumes "prepare order w hst f h = (None, h0)" "fAutoRules f"
    and "\<forall>b. fst (installRules w (flag_rules f) h0) = Inr b \<longrightarrow> jumps_finite w b"
  shows "case installRules w (flag_rules f) h0 of
      (Inl e, h1) \<Rightarrow> \<forall>fuel. linux_run fuel order w hst f h = Some (Some (''auto rule install failed: '' @ e), h1)
    | (Inr b, h1) \<Rightarrow> \<exists>n r g h'. (\<forall>fuel>n. linux_run fuel order w hst f h = Some (r, h'))
        \<and> (\<exists>cs. g = h1 @ cs) \<and> removal w b g h'
        \<and> (\<forall>name st h3. read_back w f h1 name st h3 \<longrightarrow> (\<exists>cs. g = h3 @ cs @ set_offloads w name st (h3 @ cs)))"
proof (cases "fst (installRules w (flag_rules f) h0)")
  case (Inl e)
  then show ?thesis using assms(1,2) by (cases "installRules w (flag_rules f) h0") (simp add: linux_run_def)
next
  case (Inr b)
  then obtain h1 where i: "installRules w (flag_rules f) h0 = (Inr b, h1)" by (metis prod.collapse)
  have fin: "jumps_finite w b" using assms(3) Inr by blast
  obtain n1 e restore g1 c1 where s: "\<forall>fuel>n1. offload_setup fuel w f (Some b) h1 = Some ((e, restore), g1)" "g1 = h1 @ c1"
    "\<forall>name st h3. read_back w f h1 name st h3 \<longrightarrow> restore = Some (name, st) \<and> (\<exists>cs. g1 = h3 @ cs)"
    using offload_setup_done [OF fin, of f h1] by blast
  define g where "g = (case restore of None \<Rightarrow> g1 | Some (name, st) \<Rightarrow> snd (applyOffloadState w name st g1))"
  obtain c2 where c2: "g = g1 @ c2" using apply_extends by (fastforce simp: g_def split: option.splits prod.splits)
  obtain n2 h' where c: "\<forall>fuel>n2. rules_cleanup fuel w (Some b) g = Some h'" "removal w b g h'"
    using cleanup_removes [OF fin, of g] by blast
  define r where "r = (case e of Some x \<Rightarrow> Some x | None \<Rightarrow> serve hst f g1)"
  have run: "linux_run fuel order w hst f h = Some (r, h')" if "max n1 n2 < fuel" for fuel
  proof -
    have "deferred fuel w (Some b) restore g1 = Some h'" using c(1) that by (simp add: deferred_def g_def [symmetric])
    then show ?thesis using s(1) that assms(1,2) i by (simp add: linux_run_def after_rules_def r_def)
  qed
  have bk: "\<exists>cs. g = h3 @ cs @ set_offloads w name st (h3 @ cs)" if rb: "read_back w f h1 name st h3" for name st h3
  proof -
    obtain cs where "restore = Some (name, st)" "g1 = h3 @ cs" using s(3) rb by blast
    moreover have "TrimSpace name \<noteq> []" using rb read_named by (auto simp: read_back_def)
    ultimately show ?thesis by (intro exI [of _ cs]) (simp add: g_def apply_sets)
  qed
  show ?thesis unfolding i prod.case sum.case
    by (rule exI [of _ "max n1 n2"], rule exI [of _ r], rule exI [of _ g], rule exI [of _ h']) (use run bk c(2) s(2) c2 in simp)
qed

text \<open>A machine where everything succeeds and ethtool prints the offloads, and a run that ends normally.\<close>

definition root_host :: host where
  "root_host = \<lparr>euid = 0, cpus = 4, sockets = (\<lambda>_. \<lparr>os_result = (\<lambda>_ _. None), os_fd = (\<lambda>_. 3)\<rparr>),
     engineRun = (\<lambda>_ _. Some ContextCanceled), message = (\<lambda>_. [])\<rparr>"

definition eth0_flags :: flags where
  "eth0_flags = (default_flags (DefaultConfig 4))\<lparr>fIface := ''eth0''\<rparr>"

definition eth0_state :: offloadState where
  "eth0_state = \<lparr>gro = True, gso = False, tso = True\<rparr>"

definition eth0_world :: world where
  "eth0_world = quiet_world\<lparr>exec := (\<lambda>_ _ c. (if snd c = [''-k'', ''eth0''] then ethtool_output eth0_state else [], None))\<rparr>"

text \<open>Here the last commands are: the offloads as they were, a look at the table, the listing of the
  chain, in which there is nothing to delete.\<close>

lemma linux_cleans_up_witness:
  "\<exists>n r k. \<forall>fuel>n. linux_run fuel id eth0_world root_host eth0_flags [] = Some (r, k @
     [(''/usr/sbin/ethtool'', [''-K'', ''eth0'', ''gro'', ''on'', ''gso'', ''off'', ''tso'', ''on'']),
      (''/usr/sbin/nft'', [''list'', ''table'', ''inet'', ''gov_pass'']),
      (''/usr/sbin/nft'', [''-a'', ''list'', ''chain'', ''inet'', ''gov_pass'', ''output''])])"
proof -
  have e: "flag_error eth0_flags = None" "TrimSpace (fIface eth0_flags) = ''eth0''" "fAutoRules eth0_flags"
    "fAutoOffload eth0_flags" "fAutoOffloadRestore eth0_flags" "TrimSpace ''eth0'' = ''eth0''"
    unfolding eth0_flags_def by code_simp+
  have l: "lookPath eth0_world n h = Some (''/usr/sbin/'' @ n)" for n h by (simp add: lookPath_def eth0_world_def quiet_world_def)
  have p: "prepare id eth0_world root_host eth0_flags [] = (None, [])"
    by (simp add: prepare_def e root_host_def ensureLinuxExternalTools_def missing_tools_def no_filter_def l Let_def)
  have run: "runCommand eth0_world n args h = ((if args = [''-k'', ''eth0''] then ethtool_output eth0_state else [], None), h @ [(n, args)])" for n args h
    by (simp add: runCommand_def runCommandEnv_def eth0_world_def)
  obtain h1 where i: "installRules eth0_world (flag_rules eth0_flags) [] = (Inr (Nft ''/usr/sbin/nft''), h1)"
  proof -
    have o1: "flag_rules eth0_flags = \<lparr>RuleQueueNum = 100, RuleMark = 1, ExcludeLoopback = True\<rparr>"
      by (simp add: flag_rules_def eth0_flags_def default_flags_def)
    have "attempt eth0_world pre n args h = (None, h @ [(n, args)])" "ensure_made eth0_world n test pre adding h = (None, h @ [(n, test)])"
      for pre n args h test adding by (simp_all add: attempt_def ensure_made_def run)
    then have "\<exists>h1. installRules eth0_world (flag_rules eth0_flags) [] = (Inr (Nft ''/usr/sbin/nft''), h1)"
      by (simp add: o1 installRules_def l installNftRules_def and_then_def deleteTaggedNftRules_def run scan_lines_def wrap_def)
    then show thesis using that by blast
  qed
  have "offload_of_output (ethtool_output eth0_state) = Inr eth0_state"
    using ethtool_found [of True False True] by (simp add: offload_of_output_def ethtool_scanned eth0_state_def found_right_def)
  then have "readOffloadState eth0_world ''eth0'' h1 = (Inr eth0_state, h1 @ [(''/usr/sbin/ethtool'', [''-k'', ''eth0''])])"
    by (simp add: readOffloadState_def l e run)
  then have rb: "read_back eth0_world eth0_flags h1 ''eth0'' eth0_state (h1 @ [(''/usr/sbin/ethtool'', [''-k'', ''eth0''])])"
    by (simp add: read_back_def chosen_interface_def e)
  have ex: "snd (exec eth0_world g [] c) = None" for g c by (simp add: eth0_world_def)
  have li: "listing eth0_world ''/usr/sbin/nft'' g = []" for g by (simp add: listing_def run scan_lines_def)
  have "\<forall>b. fst (installRules eth0_world (flag_rules eth0_flags) []) = Inr b \<longrightarrow> jumps_finite eth0_world b"
    by (simp add: i jumps_finite_def)
  from linux_cleans_up [OF p e(3) this] obtain n r g h' where
    m: "\<forall>fuel>n. linux_run fuel id eth0_world root_host eth0_flags [] = Some (r, h')" "removal eth0_world (Nft ''/usr/sbin/nft'') g h'"
      "\<forall>name st h3. read_back eth0_world eth0_flags h1 name st h3 \<longrightarrow> (\<exists>cs. g = h3 @ cs @ set_offloads eth0_world name st (h3 @ cs))"
    unfolding i by auto
  then obtain cs where "g = (h1 @ [(''/usr/sbin/ethtool'', [''-k'', ''eth0''])]) @ cs
      @ set_offloads eth0_world ''eth0'' eth0_state ((h1 @ [(''/usr/sbin/ethtool'', [''-k'', ''eth0''])]) @ cs)" using rb by blast
  then obtain k where "g = k @ [(''/usr/sbin/ethtool'', [''-K'', ''eth0'', ''gro'', ''on'', ''gso'', ''off'', ''tso'', ''on''])]"
    by (simp add: set_offloads_def l e eth0_state_def on_off_def)
  moreover have "h' = g @ [(''/usr/sbin/nft'', [''list'', ''table'', ''inet'', ''gov_pass'']),
      (''/usr/sbin/nft'', [''-a'', ''list'', ''chain'', ''inet'', ''gov_pass'', ''output''])]"
    using m(2) by (simp add: Let_def ex li stale_handles_def map_filter_simps)
  ultimately show ?thesis using m(1) by auto
qed

end
