(* ===== verification/WinDivert.thy ===== *)
theory WinDivert
  imports Transmitter
begin

text \<open>
  The WinDivert adapter (\<^verbatim>\<open>internal/adapter/windivert_windows.go\<close>).  The procedures of
  \<^verbatim>\<open>WinDivert.dll\<close> are the record \<open>wd_os\<close>: their results, already wrapped by
  \<^verbatim>\<open>os.NewSyscallError\<close>, may depend on all calls made before; \<open>wLog\<close> is the log
  of the calls with their results.  The receive goroutine, \<^verbatim>\<open>Flush\<close> and the engine run
  concurrently, so the first two are cut at their accesses to the shared state.
\<close>

section \<open>The state\<close>

datatype wd_call = WdOpen string | WdSetParam u32 u64 | WdShutdown | WdSend bytes bytes | WdClose | WdChecksums bytes

type_synonym wd_log = "(wd_call \<times> go_error option) list"

record wd_os =
  wd_result :: "wd_log \<Rightarrow> wd_call \<Rightarrow> go_error option"
  wd_open :: "wd_log \<Rightarrow> string \<Rightarrow> u64 \<times> go_error"
  wd_summed :: "wd_log \<Rightarrow> bytes \<Rightarrow> bytes"

record wd_options =
  QueueLen :: u64
  QueueTime :: u64
  QueueSize :: u64

record windivert =
  wHandle :: u64
  wRecvCh :: "packet list"
  wErrsCh :: "go_error option"
  wStopErr :: "go_error option"
  wDone :: bool
  wOnce :: bool
  wLog :: wd_log

type_synonym wd_status = "go_error option \<times> windivert"

definition wdRecvCap :: nat where [go_defs]: "wdRecvCap = 1024"

definition wd_do :: "wd_os \<Rightarrow> wd_call \<Rightarrow> windivert \<Rightarrow> wd_status" where
  "wd_do env c s = (let r = wd_result env (wLog s) c in (r, s\<lparr>wLog := wLog s @ [(c, r)]\<rparr>))"

definition wd_stop :: "windivert \<Rightarrow> windivert" where
  "wd_stop s = s\<lparr>wStopErr := Some ContextCanceled\<rparr>"

section \<open>Opening, closing and options\<close>

definition wd_Close :: "wd_os \<Rightarrow> windivert \<Rightarrow> wd_status" where
  "wd_Close env s = (if wOnce s then (None, s) else
     let s = wd_stop (s\<lparr>wOnce := True\<rparr>)
     in if wHandle s = 0 then (None, s) else
        case wd_do env WdClose s of (e, s) \<Rightarrow> (e, s\<lparr>wHandle := 0\<rparr>))"

definition wd_setParam :: "wd_os \<Rightarrow> u32 \<Rightarrow> u64 \<Rightarrow> windivert \<Rightarrow> wd_status" where
  "wd_setParam env param v s = wd_do env (WdSetParam param v) s"

definition set_positive :: "wd_os \<Rightarrow> u32 \<Rightarrow> u64 \<Rightarrow> windivert \<Rightarrow> wd_status" where
  "set_positive env param v s = (if v > 0 then wd_setParam env param v s else (None, s))"

definition applyOptions :: "wd_os \<Rightarrow> wd_options \<Rightarrow> windivert \<Rightarrow> wd_status" where
  "applyOptions env o1 s = (if wHandle s = 0 then (Some ErrNotImplemented, s) else
     case set_positive env 0 (QueueLen o1) s of (Some e, s) \<Rightarrow> (Some e, s)
     | (None, s) \<Rightarrow> (case set_positive env 1 (QueueTime o1) s of (Some e, s) \<Rightarrow> (Some e, s)
       | (None, s) \<Rightarrow> set_positive env 2 (QueueSize o1) s))"

definition UpdateOptions :: "wd_os \<Rightarrow> wd_options \<Rightarrow> windivert \<Rightarrow> wd_status" where
  "UpdateOptions = applyOptions"

definition fresh_wd :: "u64 \<Rightarrow> wd_log \<Rightarrow> windivert" where
  "fresh_wd handle l = \<lparr>wHandle = handle, wRecvCh = [], wErrsCh = None, wStopErr = None, wDone = False,
     wOnce = False, wLog = l\<rparr>"

text \<open>A filter with a NUL byte is refused with \<^verbatim>\<open>EINVAL\<close>.\<close>

definition EINVAL :: go_error where "EINVAL = ErrNew ''invalid argument''"

definition NewWinDivert :: "wd_os \<Rightarrow> string \<Rightarrow> wd_options \<Rightarrow> wd_log \<Rightarrow> (go_error \<times> wd_log) + windivert" where
  "NewWinDivert env filt o1 l = (if CHR 0x00 \<in> set filt then Inl (EINVAL, l) else
     case wd_open env l filt of (handle, callErr) \<Rightarrow>
       if handle = 0 \<or> handle = - 1 then Inl (callErr, l @ [(WdOpen filt, Some callErr)]) else
       (case applyOptions env o1 (fresh_wd handle (l @ [(WdOpen filt, None)])) of
          (Some e, s) \<Rightarrow> Inl (e, wLog (snd (wd_Close env s)))
        | (None, s) \<Rightarrow> Inr s))"

section \<open>Send, Drop, Recv and checksums\<close>

definition wd_Send :: "wd_os \<Rightarrow> packet option \<Rightarrow> windivert \<Rightarrow> wd_status" where
  "wd_Send env po s = (if wHandle s = 0 then (Some ErrNotImplemented, s) else
     case po of None \<Rightarrow> (None, s)
     | Some p \<Rightarrow> if Data p = [] then (None, s) else wd_do env (WdSend (Addr p) (Data p)) s)"

definition wd_Drop :: "packet option \<Rightarrow> windivert \<Rightarrow> wd_status" where
  "wd_Drop po s = (None, s)"

datatype wd_arm = TakeRecv | TakeErrs | TakeCaller go_error | TakeStop

definition wd_Recv :: "wd_arm \<Rightarrow> windivert \<Rightarrow> ((go_error + packet) \<times> windivert) option" where
  "wd_Recv arm s = (if wHandle s = 0 then Some (Inl ErrNotImplemented, s) else case arm of
     TakeRecv \<Rightarrow> (case wRecvCh s of [] \<Rightarrow> None | p # ps \<Rightarrow> Some (Inr p, s\<lparr>wRecvCh := ps\<rparr>))
   | TakeErrs \<Rightarrow> (case wErrsCh s of None \<Rightarrow> None | Some e \<Rightarrow> Some (Inl e, s\<lparr>wErrsCh := None\<rparr>))
   | TakeCaller e \<Rightarrow> Some (Inl e, s)
   | TakeStop \<Rightarrow> (case wStopErr s of None \<Rightarrow> None | Some e \<Rightarrow> Some (Inl e, s)))"

text \<open>The DLL computes the checksums in the packet's own buffer.\<close>

definition wd_CalcChecksums :: "wd_os \<Rightarrow> packet option \<Rightarrow> windivert \<Rightarrow> (go_error option \<times> packet option) \<times> windivert" where
  "wd_CalcChecksums env po s = (case po of None \<Rightarrow> ((None, None), s)
   | Some p \<Rightarrow> if Data p = [] then ((None, Some p), s) else
       let d = wd_summed env (wLog s) (Data p)
       in case wd_do env (WdChecksums (Data p)) s of (e, s) \<Rightarrow> ((e, Some (p\<lparr>Data := d\<rparr>)), s))"

section \<open>The receive goroutine\<close>

text \<open>Where the goroutine is: at the top of its loop, in \<^verbatim>\<open>WinDivertRecv\<close>, with a packet
  it has received, past the test of the context, or in its select.\<close>

datatype rloop = LoopTop | Receiving | GotPacket bytes bytes | CheckFull bytes bytes | Offering packet | LoopExited

datatype recv_outcome = WdFails go_error | WdGot bytes bytes

text \<open>What a step takes: the outcome of the call, or the arm of the select; the other steps go.\<close>

datatype loop_in = Go | Outcome recv_outcome | PickRecv | PickDone | PickDefault

definition leave_loop :: "windivert \<Rightarrow> rloop \<times> windivert" where
  "leave_loop s = (LoopExited, s\<lparr>wDone := True\<rparr>)"

definition offer_wd :: "go_error \<Rightarrow> windivert \<Rightarrow> windivert" where
  "offer_wd e s = (if wErrsCh s = None then s\<lparr>wErrsCh := Some e\<rparr> else s)"

definition put_back :: "wd_os \<Rightarrow> bytes \<Rightarrow> bytes \<Rightarrow> windivert \<Rightarrow> wd_status" where
  "put_back env a d s = wd_do env (WdSend a d) s"

text \<open>Failing: the error is offered unless the adapter is being stopped.\<close>

definition fail_loop :: "go_error \<Rightarrow> windivert \<Rightarrow> rloop \<times> windivert" where
  "fail_loop e s = leave_loop (if wStopErr s \<noteq> None then s else offer_wd e s)"

definition bounce :: "wd_os \<Rightarrow> bytes \<Rightarrow> bytes \<Rightarrow> windivert \<Rightarrow> rloop \<times> windivert" where
  "bounce env a d s = (case put_back env a d s of (None, s) \<Rightarrow> (LoopTop, s) | (Some e, s) \<Rightarrow> fail_loop e s)"

fun loop_step :: "wd_os \<Rightarrow> loop_in \<Rightarrow> rloop \<Rightarrow> windivert \<Rightarrow> (rloop \<times> windivert) option" where
  "loop_step env Go LoopTop s = Some (if wStopErr s \<noteq> None \<or> wHandle s = 0 then leave_loop s else (Receiving, s))"
| "loop_step env (Outcome (WdFails e)) Receiving s = Some (fail_loop e s)"
| "loop_step env (Outcome (WdGot d a)) Receiving s = Some (if d = [] then (LoopTop, s) else (GotPacket d a, s))"
| "loop_step env Go (GotPacket d a) s =
     Some (if wStopErr s \<noteq> None then leave_loop (snd (put_back env a d s)) else (CheckFull d a, s))"
| "loop_step env Go (CheckFull d a) s = Some (if length (wRecvCh s) = wdRecvCap then bounce env a d s
     else (Offering \<lparr>Data = d, Addr = a, Meta = zero_meta, Source = SourceCaptured, NFQID = 0\<rparr>, s))"
| "loop_step env PickRecv (Offering p) s = (if length (wRecvCh s) < wdRecvCap
     then Some (LoopTop, s\<lparr>wRecvCh := wRecvCh s @ [p]\<rparr>) else None)"
| "loop_step env PickDone (Offering p) s = (if wStopErr s \<noteq> None
     then Some (leave_loop (snd (put_back env (Addr p) (Data p) s))) else None)"
| "loop_step env PickDefault (Offering p) s = (if length (wRecvCh s) < wdRecvCap \<or> wStopErr s \<noteq> None then None
     else Some (bounce env (Addr p) (Data p) s))"
| "loop_step env _ _ s = None"

section \<open>Flush\<close>

datatype wflush = WNotFlushing | WStop | WShutdown | WAwait | WDrain "go_error option" | WFlushed "go_error option"

definition shutdownRecv :: "wd_os \<Rightarrow> windivert \<Rightarrow> wd_status" where
  "shutdownRecv env s = (if wHandle s = 0 then (Some ErrNotImplemented, s) else wd_do env WdShutdown s)"

text \<open>One step of \<^verbatim>\<open>Flush\<close>, with the state of its context and the arm that the wait takes.\<close>

fun wflush_step :: "wd_os \<Rightarrow> go_error option \<Rightarrow> bool \<Rightarrow> wflush \<Rightarrow> windivert \<Rightarrow> (wflush \<times> windivert) option" where
  "wflush_step env ctx byDone WNotFlushing s = Some (if wHandle s = 0 then (WFlushed None, s) else (WStop, s))"
| "wflush_step env ctx byDone WStop s = Some (WShutdown, wd_stop s)"
| "wflush_step env ctx byDone WShutdown s = Some (WAwait, snd (shutdownRecv env s))"
| "wflush_step env ctx byDone WAwait s =
     (if (if byDone then wDone s else ctx \<noteq> None) then Some (WDrain None, s) else None)"
| "wflush_step env ctx byDone (WDrain first) s = Some (case wRecvCh s of
     [] \<Rightarrow> (WFlushed (if first = None \<and> ctx \<noteq> None then ctx else first), s)
   | p # ps \<Rightarrow> (case wd_Send env (Some p) (s\<lparr>wRecvCh := ps\<rparr>) of
       (e, s) \<Rightarrow> (WDrain (if first = None then e else first), s)))"
| "wflush_step env ctx byDone (WFlushed r) s = None"

end
