(* ===== verification/WinDivertProps.thy ===== *)
theory WinDivertProps
  imports WinDivert
begin

text \<open>
  Properties of the WinDivert adapter: it implements the transmitter interface, and no captured
  packet is lost by a flush that succeeds, however the receive goroutine, the flush and the
  engine are interleaved.
\<close>

section \<open>The transmitter interface\<close>

fun wd_output :: "wd_call \<times> go_error option \<Rightarrow> (bytes \<times> bytes) list" where
  "wd_output (WdSend a d, None) = [(a, d)]"
| "wd_output _ = []"

definition wd_outputs :: "windivert \<Rightarrow> (bytes \<times> bytes) list" where
  "wd_outputs s = concat (map wd_output (wLog s))"

definition pair_of :: "packet \<Rightarrow> bytes \<times> bytes" where
  "pair_of p = (Addr p, Data p)"

definition wd_sendable :: "packet \<Rightarrow> bool" where
  "wd_sendable p \<longleftrightarrow> Data p \<noteq> []"

interpretation wd_tx: transmitter "\<lambda>p. wd_Send env (Some p)" "\<lambda>p. wd_Drop (Some p)" wd_outputs pair_of wd_sendable
  for env
proof (unfold_locales, goal_cases)
  case (1 p s s')
  then show ?case
    by (auto simp: wd_Send_def wd_do_def Let_def wd_outputs_def pair_of_def wd_sendable_def split: if_splits)
next
  case (2 p s s' e)
  then show ?case by (auto simp: wd_Send_def wd_do_def Let_def wd_outputs_def split: if_splits)
next
  case (3 p s)
  then show ?case by (simp add: wd_Drop_def)
qed

section \<open>The adapter at work\<close>

text \<open>The adapter with its receive goroutine, the phase and context of \<^verbatim>\<open>Flush\<close>, the packets
  that the driver has delivered, those handed to the engine, and those the engine has sent.\<close>

record wd_system =
  wad :: windivert
  wloop :: rloop
  wphase :: wflush
  wctx :: "go_error option"
  wcaptured :: "(bytes \<times> bytes) list"
  whanded :: "packet list"
  wsent :: "(bytes \<times> bytes) list"

datatype wd_act = LoopAct loop_in | FlushAct bool | ExpireFlush go_error | EngineTakes | EngineSends packet

fun delivered_by :: "loop_in \<Rightarrow> (bytes \<times> bytes) list" where
  "delivered_by (Outcome (WdGot d a)) = (if d = [] then [] else [(a, d)])"
| "delivered_by _ = []"

fun wd_step :: "wd_os \<Rightarrow> wd_act \<Rightarrow> wd_system \<Rightarrow> wd_system option" where
  "wd_step env (LoopAct i) s = map_option (\<lambda>(l, u). s\<lparr>wad := u, wloop := l, wcaptured := wcaptured s @ delivered_by i\<rparr>)
     (loop_step env i (wloop s) (wad s))"
| "wd_step env (FlushAct byDone) s = map_option (\<lambda>(ph, u). s\<lparr>wad := u, wphase := ph\<rparr>)
     (wflush_step env (wctx s) byDone (wphase s) (wad s))"
| "wd_step env (ExpireFlush e) s = (if wctx s = None then Some (s\<lparr>wctx := Some e\<rparr>) else None)"
| "wd_step env EngineTakes s = (case wd_Recv TakeRecv (wad s) of
     Some (Inr p, u) \<Rightarrow> Some (s\<lparr>wad := u, whanded := whanded s @ [p]\<rparr>) | _ \<Rightarrow> None)"
| "wd_step env (EngineSends p) s = Some (s\<lparr>wad := snd (wd_Send env (Some p) (wad s)),
     wsent := wsent s @ (if Data p = [] then [] else [pair_of p])\<rparr>)"

fun wd_run :: "wd_os \<Rightarrow> wd_act list \<Rightarrow> wd_system \<Rightarrow> wd_system option" where
  "wd_run env [] s = Some s"
| "wd_run env (a # as) s = (case wd_step env a s of None \<Rightarrow> None | Some s' \<Rightarrow> wd_run env as s')"

definition wd_started :: "windivert \<Rightarrow> wd_system" where
  "wd_started u = \<lparr>wad = u, wloop = LoopTop, wphase = WNotFlushing, wctx = None, wcaptured = [], whanded = [], wsent = []\<rparr>"

text \<open>The packets put to the driver, whether it took them or not; and the one that the goroutine
  has in hand.\<close>

fun attempt_of :: "wd_call \<times> go_error option \<Rightarrow> (bytes \<times> bytes) list" where
  "attempt_of (WdSend a d, r) = [(a, d)]"
| "attempt_of _ = []"

definition attempts :: "wd_log \<Rightarrow> (bytes \<times> bytes) list" where
  "attempts l = concat (map attempt_of l)"

fun in_hand :: "rloop \<Rightarrow> (bytes \<times> bytes) list" where
  "in_hand (GotPacket d a) = [(a, d)]"
| "in_hand (CheckFull d a) = [(a, d)]"
| "in_hand (Offering p) = [pair_of p]"
| "in_hand _ = []"

definition kept_by :: "bytes \<times> bytes \<Rightarrow> windivert \<Rightarrow> nat" where
  "kept_by x u = count_list (attempts (wLog u)) x + count_list (map pair_of (wRecvCh u)) x"

definition wd_inv :: "wd_system \<Rightarrow> bool" where
  "wd_inv s \<longleftrightarrow> wHandle (wad s) \<noteq> 0 \<and> (wDone (wad s) \<longleftrightarrow> wloop s = LoopExited)
     \<and> (\<forall>x\<in>set (in_hand (wloop s)). snd x \<noteq> [])
     \<and> (\<forall>p\<in>set (wRecvCh (wad s)). Data p \<noteq> [])
     \<and> (\<forall>x. count_list (wcaptured s) x + count_list (wsent s) x
          = kept_by x (wad s) + count_list (map pair_of (whanded s)) x + count_list (in_hand (wloop s)) x)
     \<and> (\<forall>e. wphase s = WDrain e \<and> wctx s = None \<longrightarrow> wDone (wad s))
     \<and> (wphase s = WFlushed None \<longrightarrow> wDone (wad s) \<and> wRecvCh (wad s) = [])"

lemma wd_do_simps [simp]:
  "fst (wd_do env c s) = wd_result env (wLog s) c" "wHandle (snd (wd_do env c s)) = wHandle s"
  "wRecvCh (snd (wd_do env c s)) = wRecvCh s" "wDone (snd (wd_do env c s)) = wDone s"
  "wLog (snd (wd_do env c s)) = wLog s @ [(c, wd_result env (wLog s) c)]"
  by (simp_all add: wd_do_def Let_def)

lemma attempts_snoc [simp]: "attempts (l @ [x]) = attempts l @ attempt_of x"
  by (simp add: attempts_def)

lemma leave_simps [simp]:
  "leave_loop s = (LoopExited, s\<lparr>wDone := True\<rparr>)" "wHandle (offer_wd e s) = wHandle s"
  "wRecvCh (offer_wd e s) = wRecvCh s" "wLog (offer_wd e s) = wLog s"
  by (simp_all add: leave_loop_def offer_wd_def)

text \<open>What a step of the goroutine does to the adapter.\<close>

lemma bounce_spec:
  assumes "bounce env a d s = (l, s')"
  shows "wHandle s' = wHandle s" "wRecvCh s' = wRecvCh s" "wDone s' \<longleftrightarrow> l = LoopExited \<or> wDone s" "in_hand l = []"
    "attempts (wLog s') = attempts (wLog s) @ [(a, d)]" "l = LoopExited \<or> l = LoopTop"
proof -
  obtain r u where u: "put_back env a d s = (r, u)" by force
  then have k: "u = snd (wd_do env (WdSend a d) s)" by (simp add: put_back_def)
  have "wHandle s' = wHandle s \<and> wRecvCh s' = wRecvCh s \<and> (wDone s' \<longleftrightarrow> l = LoopExited \<or> wDone s) \<and> in_hand l = []
     \<and> attempts (wLog s') = attempts (wLog s) @ [(a, d)] \<and> (l = LoopExited \<or> l = LoopTop)"
    using assms u by (cases r) (auto simp: bounce_def fail_loop_def k)
  then show "wHandle s' = wHandle s" "wRecvCh s' = wRecvCh s" "wDone s' \<longleftrightarrow> l = LoopExited \<or> wDone s" "in_hand l = []"
    "attempts (wLog s') = attempts (wLog s) @ [(a, d)]" "l = LoopExited \<or> l = LoopTop" by simp_all
qed

lemma loop_step_spec:
  assumes "loop_step env i l0 s = Some (l, s')"
  shows "wHandle s' = wHandle s \<and> l0 \<noteq> LoopExited \<and> (wDone s' \<longleftrightarrow> l = LoopExited \<or> wDone s)
    \<and> kept_by x s' + count_list (in_hand l) x = kept_by x s + count_list (in_hand l0) x + count_list (delivered_by i) x
    \<and> ((\<forall>x\<in>set (in_hand l0). snd x \<noteq> []) \<longrightarrow> (\<forall>x\<in>set (in_hand l). snd x \<noteq> []))
    \<and> ((\<forall>x\<in>set (in_hand l0). snd x \<noteq> []) \<and> (\<forall>p\<in>set (wRecvCh s). Data p \<noteq> []) \<longrightarrow> (\<forall>p\<in>set (wRecvCh s'). Data p \<noteq> []))"
  using assms
proof (cases "(env, i, l0, s)" rule: loop_step.cases)
  case (5 env d a s)
  then show ?thesis
    using assms bounce_spec [of env a d s l s']
    by (cases "length (wRecvCh s) = wdRecvCap") (auto simp: kept_by_def pair_of_def)
next
  case (8 env p s)
  then show ?thesis
    using assms bounce_spec [of env "Addr p" "Data p" s l s'] by (auto simp: kept_by_def pair_of_def split: if_splits)
qed (auto simp: kept_by_def pair_of_def fail_loop_def put_back_def split: if_splits)

lemma wd_Send_kept:
  assumes "wHandle s \<noteq> 0"
  shows "wHandle (snd (wd_Send env (Some p) s)) = wHandle s" "wRecvCh (snd (wd_Send env (Some p) s)) = wRecvCh s"
    "wDone (snd (wd_Send env (Some p) s)) = wDone s"
    "kept_by x (snd (wd_Send env (Some p) s)) = kept_by x s + count_list (if Data p = [] then [] else [pair_of p]) x"
  using assms by (auto simp: wd_Send_def kept_by_def pair_of_def)

lemma wflush_step_spec:
  assumes "wHandle s \<noteq> 0" "\<forall>p\<in>set (wRecvCh s). Data p \<noteq> []" "wflush_step env ctx byDone ph s = Some (ph', s')"
  shows "wHandle s' = wHandle s \<and> wDone s' = wDone s \<and> kept_by x s' = kept_by x s \<and> set (wRecvCh s') \<subseteq> set (wRecvCh s)
    \<and> ((\<forall>e. ph = WDrain e \<and> ctx = None \<longrightarrow> wDone s) \<longrightarrow> (\<forall>e. ph' = WDrain e \<and> ctx = None \<longrightarrow> wDone s'))
    \<and> (ph' = WFlushed None \<longrightarrow> wRecvCh s' = [] \<and> ctx = None \<and> (\<exists>e. ph = WDrain e)) \<and> (\<forall>r. ph \<noteq> WFlushed r)"
proof (cases ph)
  case (WDrain first)
  show ?thesis
  proof (cases "wRecvCh s")
    case Nil
    then show ?thesis using assms WDrain by (auto split: if_splits)
  next
    case (Cons p ps)
    define t where "t = s\<lparr>wRecvCh := ps\<rparr>"
    obtain e u where u: "wd_Send env (Some p) t = (e, u)" by force
    have t: "wHandle t \<noteq> 0" using assms(1) by (simp add: t_def)
    have "Data p \<noteq> []" using assms(2) Cons by simp
    then have "kept_by x u = kept_by x s"
      using wd_Send_kept(4) [OF t, of x env p] u Cons by (simp add: t_def kept_by_def)
    moreover have "s' = u" "ph' = WDrain (if first = None then e else first)"
      using assms(3) WDrain Cons u by (simp_all add: t_def)
    moreover have "wHandle u = wHandle s" "wRecvCh u = ps" "wDone u = wDone s"
      using wd_Send_kept(1-3) [OF t, of env p] u by (simp_all add: t_def)
    ultimately show ?thesis using Cons WDrain by auto
  qed
qed (use assms in \<open>auto simp: wd_stop_def shutdownRecv_def kept_by_def split: if_splits\<close>)

lemma wd_step_inv:
  assumes inv: "wd_inv s" and st: "wd_step env a s = Some s'"
  shows "wd_inv s'" "wphase s = WFlushed r \<Longrightarrow> wphase s' = WFlushed r"
    "wloop s = LoopExited \<Longrightarrow> wloop s' = LoopExited \<and> wcaptured s' = wcaptured s"
proof -
  have h: "wHandle (wad s) \<noteq> 0" and d: "\<forall>p\<in>set (wRecvCh (wad s)). Data p \<noteq> []" using inv by (simp_all add: wd_inv_def)
  have "wd_inv s' \<and> (wphase s = WFlushed r \<longrightarrow> wphase s' = WFlushed r)
    \<and> (wloop s = LoopExited \<longrightarrow> wloop s' = LoopExited \<and> wcaptured s' = wcaptured s)"
  proof (cases a)
    case (LoopAct i)
    have c: "count_list (wcaptured s) x + count_list (wsent s) x
        = kept_by x (wad s) + count_list (map pair_of (whanded s)) x + count_list (in_hand (wloop s)) x" for x
      using inv unfolding wd_inv_def by blast
    from LoopAct obtain l u where lu: "loop_step env i (wloop s) (wad s) = Some (l, u)"
      "s' = s\<lparr>wad := u, wloop := l, wcaptured := wcaptured s @ delivered_by i\<rparr>" using st by auto
    have "count_list (wcaptured s') x + count_list (wsent s') x
        = kept_by x u + count_list (map pair_of (whanded s')) x + count_list (in_hand l) x" for x
      using c [of x] loop_step_spec [OF lu(1), of x] lu(2) by simp
    then show ?thesis
      using inv loop_step_spec [OF lu(1)] lu(2) unfolding wd_inv_def by (simp del: split_paired_All) blast
  next
    case (FlushAct byDone)
    then obtain ph u where pu: "wflush_step env (wctx s) byDone (wphase s) (wad s) = Some (ph, u)"
      "s' = s\<lparr>wad := u, wphase := ph\<rparr>" using st by auto
    have k: "kept_by x u = kept_by x (wad s)" for x using wflush_step_spec [OF h d pu(1)] by blast
    note f = wflush_step_spec [OF h d pu(1), of "([], [])"]
    then have "\<forall>p\<in>set (wRecvCh u). Data p \<noteq> []" using d by blast
    then show ?thesis using inv f k pu(2) by (auto simp: wd_inv_def)
  next
    case (ExpireFlush e)
    then show ?thesis using inv st by (auto simp: wd_inv_def split: if_splits)
  next
    case EngineTakes
    then obtain p ps where "wRecvCh (wad s) = p # ps" "s' = s\<lparr>wad := (wad s)\<lparr>wRecvCh := ps\<rparr>, whanded := whanded s @ [p]\<rparr>"
      using st h by (auto simp: wd_Recv_def split: list.splits)
    then show ?thesis using inv by (auto simp: wd_inv_def kept_by_def)
  next
    case (EngineSends p)
    then show ?thesis using inv st wd_Send_kept [OF h] by (auto simp: wd_inv_def)
  qed
  then show "wd_inv s'" "wphase s = WFlushed r \<Longrightarrow> wphase s' = WFlushed r"
    "wloop s = LoopExited \<Longrightarrow> wloop s' = LoopExited \<and> wcaptured s' = wcaptured s" by blast+
qed

lemma wd_run_inv:
  "wd_inv s \<Longrightarrow> wd_run env as s = Some s' \<Longrightarrow> wd_inv s' \<and> (wphase s = WFlushed r \<longrightarrow> wphase s' = WFlushed r)
    \<and> (wloop s = LoopExited \<longrightarrow> wloop s' = LoopExited \<and> wcaptured s' = wcaptured s)"
proof (induction as arbitrary: s)
  case (Cons a as)
  then obtain t where t: "wd_step env a s = Some t" "wd_run env as t = Some s'" by (auto split: option.splits)
  then show ?case using Cons.IH [of t] wd_step_inv [OF Cons.prems(1) t(1)] t(2) by auto
qed simp

lemma set_positive_spec:
  "wHandle (snd (set_positive env q v s)) = wHandle s" "wRecvCh (snd (set_positive env q v s)) = wRecvCh s"
  "wDone (snd (set_positive env q v s)) = wDone s" "attempts (wLog (snd (set_positive env q v s))) = attempts (wLog s)"
  by (simp_all add: set_positive_def wd_setParam_def)

lemma applyOptions_spec:
  "wHandle (snd (applyOptions env o1 s)) = wHandle s" "wRecvCh (snd (applyOptions env o1 s)) = wRecvCh s"
  "wDone (snd (applyOptions env o1 s)) = wDone s" "attempts (wLog (snd (applyOptions env o1 s))) = attempts (wLog s)"
proof -
  obtain r1 s1 r2 s2 where "set_positive env 0 (QueueLen o1) s = (r1, s1)" "set_positive env 1 (QueueTime o1) s1 = (r2, s2)"
    by force
  moreover have "snd (applyOptions env o1 s) \<in> {s, s1, s2, snd (set_positive env 2 (QueueSize o1) s2)}"
    using calculation by (auto simp: applyOptions_def split: option.splits)
  ultimately show "wHandle (snd (applyOptions env o1 s)) = wHandle s" "wRecvCh (snd (applyOptions env o1 s)) = wRecvCh s"
    "wDone (snd (applyOptions env o1 s)) = wDone s" "attempts (wLog (snd (applyOptions env o1 s))) = attempts (wLog s)"
    using set_positive_spec [of env 0 "QueueLen o1" s] set_positive_spec [of env 1 "QueueTime o1" s1]
      set_positive_spec [of env 2 "QueueSize o1" s2] by auto
qed

lemma wd_started_inv: "NewWinDivert env filt o1 [] = Inr u \<Longrightarrow> wd_inv (wd_started u)"
proof -
  assume new: "NewWinDivert env filt o1 [] = Inr u"
  obtain h e where h: "wd_open env [] filt = (h, e)" by force
  then have "h \<noteq> 0" "snd (applyOptions env o1 (fresh_wd h [(WdOpen filt, None)])) = u"
    using new by (auto simp: NewWinDivert_def split: if_splits prod.splits option.splits)
  then show ?thesis
    using applyOptions_spec [of env o1 "fresh_wd h [(WdOpen filt, None)]"]
    by (simp add: wd_inv_def wd_started_def fresh_wd_def kept_by_def attempts_def)
qed

text \<open>C27. No captured packet is left behind by a flush of the WinDivert adapter, in any interleaving
  of its receive goroutine with the engine and \<^verbatim>\<open>Flush\<close>: once \<^verbatim>\<open>Flush\<close> has
  returned nil, the goroutine has ended, the receive buffer is empty, both for good, and every
  packet that the driver delivered has been handed to the engine or put back to the driver,
  exactly once (the engine's own calls of \<^verbatim>\<open>Send\<close> counted apart).\<close>

theorem windivert_flush_complete:
  assumes "NewWinDivert env filt o1 [] = Inr u" "wd_run env as (wd_started u) = Some s" "wphase s = WFlushed None"
    and "wd_run env bs s = Some s'"
  shows "wloop s' = LoopExited \<and> wRecvCh (wad s') = [] \<and> wcaptured s' = wcaptured s
    \<and> count_list (wcaptured s') x + count_list (wsent s') x
      = count_list (attempts (wLog (wad s'))) x + count_list (map pair_of (whanded s')) x"
proof -
  have s: "wd_inv s" using wd_run_inv [OF wd_started_inv [OF assms(1)] assms(2)] by blast
  then have "wloop s = LoopExited" using assms(3) by (auto simp: wd_inv_def)
  then have s': "wd_inv s'" "wphase s' = WFlushed None" "wloop s' = LoopExited" "wcaptured s' = wcaptured s"
    using wd_run_inv [OF s assms(4)] assms(3) by auto
  then have "wRecvCh (wad s') = []" by (simp add: wd_inv_def)
  moreover have "count_list (wcaptured s') x + count_list (wsent s') x
      = kept_by x (wad s') + count_list (map pair_of (whanded s')) x + count_list (in_hand (wloop s')) x"
    using s'(1) unfolding wd_inv_def by blast
  ultimately show ?thesis using s'(3,4) by (simp add: kept_by_def)
qed

text \<open>Three packets: the first goes to the engine, the second waits in the buffer, the third
  arrives when the flush has begun.\<close>

definition quiet_wd :: wd_os where
  "quiet_wd = \<lparr>wd_result = (\<lambda>_ _. None), wd_open = (\<lambda>_ _. (1, EINVAL)), wd_summed = (\<lambda>_ d. d)\<rparr>"

definition arrives :: "byte \<Rightarrow> wd_act list" where
  "arrives n = [LoopAct Go, LoopAct (Outcome (WdGot [n] [7])), LoopAct Go, LoopAct Go]"

definition wd_acts :: "wd_act list" where
  "wd_acts = arrives 1 @ [LoopAct PickRecv, EngineTakes] @ arrives 2 @ [LoopAct PickRecv, LoopAct Go, FlushAct False, FlushAct False,
     LoopAct (Outcome (WdGot [3] [7])), LoopAct Go, FlushAct False, FlushAct True, FlushAct True, FlushAct True]"

lemma windivert_flush_complete_witness:
  "\<exists>u s. NewWinDivert quiet_wd ''tcp'' \<lparr>QueueLen = 4096, QueueTime = 0, QueueSize = 1\<rparr> [] = Inr u
    \<and> wd_run quiet_wd wd_acts (wd_started u) = Some s \<and> wphase s = WFlushed None \<and> wRecvCh (wad s) = []
    \<and> map (count_list (attempts (wLog (wad s)))) [([7], [1]), ([7], [2]), ([7], [3])] = [0, 1, 1]"
proof -
  define o1 where "o1 = \<lparr>QueueLen = 4096, QueueTime = 0, QueueSize = 1\<rparr>"
  define u where "u = projr (NewWinDivert quiet_wd ''tcp'' o1 [])"
  define s where "s = the (wd_run quiet_wd wd_acts (wd_started u))"
  have "isl (NewWinDivert quiet_wd ''tcp'' o1 []) = False" unfolding o1_def by code_simp
  then have u: "NewWinDivert quiet_wd ''tcp'' o1 [] = Inr u" by (simp add: u_def)
  have "wd_run quiet_wd wd_acts (wd_started u) \<noteq> None" unfolding u_def o1_def by code_simp
  then have s: "wd_run quiet_wd wd_acts (wd_started u) = Some s" by (simp add: s_def)
  have p: "wphase s = WFlushed None" unfolding s_def u_def o1_def by code_simp
  have d: "map (count_list (wcaptured s)) [([7], [1]), ([7], [2]), ([7], [3])] = [1, 1, 1]" "wsent s = []"
    "map (count_list (map pair_of (whanded s))) [([7], [1]), ([7], [2]), ([7], [3])] = [1, 0, 0]"
    unfolding s_def u_def o1_def by code_simp+
  have r: "wd_run quiet_wd [] s = Some s" by simp
  show ?thesis
    using windivert_flush_complete [OF u s p r, of "([7], [1])"] windivert_flush_complete [OF u s p r, of "([7], [2])"]
      windivert_flush_complete [OF u s p r, of "([7], [3])"] p d u s unfolding o1_def
    by (intro exI [of _ u] exI [of _ s]) simp
qed

text \<open>After the cancellation the buffer may still take a packet: both arms of the select are ready.
  When the context of \<^verbatim>\<open>Flush\<close> has ended before, nobody drains it.\<close>

theorem enqueue_after_cancel:
  assumes "wStopErr s \<noteq> None" "length (wRecvCh s) < wdRecvCap"
  shows "loop_step env PickRecv (Offering p) s = Some (LoopTop, s\<lparr>wRecvCh := wRecvCh s @ [p]\<rparr>)
    \<and> loop_step env PickDone (Offering p) s \<noteq> None"
  using assms by simp

end
