(* ===== verification/FreeBSDMain.thy ===== *)
theory FreeBSDMain
  imports Settings Divert
begin

text \<open>
  The FreeBSD program (\<^verbatim>\<open>cmd/splitter/main_freebsd.go\<close>): its flags, the adapter and the
  engine.  \<^verbatim>\<open>log.Fatal\<close> ends the program with its message.  The socket calls are those
  of the divert adapter; the error with which the engine's run ends and the texts of errors are
  arguments.
\<close>

record fb_flags = engine_flags +
  fDivertPort :: int

definition default_fb_flags :: "config \<Rightarrow> fb_flags" where
  "default_fb_flags c = \<lparr>fSplitMode = ''tls-hello'', fSplitChunk = SplitChunk c, fCollectTimeout = CollectTimeout c,
     fMaxBuffer = MaxBufferBytes c, fMaxHeld = MaxHeldPackets c, fMaxSegPayload = MaxSegmentPayload c,
     fWorkers = WorkerCount c, fFlowTimeout = FlowIdleTimeout c, fGcInterval = GCInterval c,
     fMaxFlows = MaxFlowsPerWorker c, fMaxReassembly = MaxReassemblyBytesPerWorker c,
     fMaxHeldBytes = MaxHeldBytesPerWorker c, fShutdownTimeout = ShutdownFailOpenTimeout c,
     fShutdownMaxPkts = ShutdownFailOpenMaxPackets c, fAdapterFlushTimeout = AdapterFlushTimeout c,
     fDivertPort = 10000\<rparr>"

definition fb_checks :: "fb_flags \<Rightarrow> (bool \<times> string) list" where
  "fb_checks f = [
     (snd (parseSplitMode (fSplitMode f)) \<noteq> None, ''invalid split-mode: expected tls-hello or immediate''),
     (fSplitChunk f < 1, ''split-chunk must be >= 1''),
     (fMaxBuffer f < 1, ''max-buffer must be >= 1''),
     (fMaxHeld f < 1, ''max-held-pkts must be >= 1''),
     (fMaxSegPayload f < 0, ''max-seg-payload must be >= 0''),
     (fWorkers f < 1, ''workers must be >= 1''),
     (fCollectTimeout f < 1 * Millisecond, ''collect-timeout must be >= 1ms''),
     (fFlowTimeout f < 1 * Millisecond, ''flow-timeout must be >= 1ms''),
     (fGcInterval f < 1 * Millisecond, ''gc-interval must be >= 1ms''),
     (fMaxFlows f < 0, ''max-flows-per-worker must be >= 0''),
     (fMaxReassembly f < 0, ''max-reassembly-bytes-per-worker must be >= 0''),
     (fMaxHeldBytes f < 0, ''max-held-bytes-per-worker must be >= 0''),
     (fShutdownTimeout f < 0, ''shutdown-fail-open-timeout must be >= 0''),
     (fShutdownMaxPkts f < 0, ''shutdown-fail-open-max-pkts must be >= 0''),
     (fAdapterFlushTimeout f < 0, ''adapter-flush-timeout must be >= 0''),
     (fDivertPort f < 1 \<or> fDivertPort f > 65535, ''divert-port must be in 1..65535'')]"

definition fb_error :: "fb_flags \<Rightarrow> string option" where
  "fb_error f = first_failure (fb_checks f)"

definition fb_port :: "fb_flags \<Rightarrow> u16" where
  "fb_port f = word_of_int (fDivertPort f)"

definition fb_main :: "int \<Rightarrow> divert_os \<Rightarrow> (config \<Rightarrow> divert \<Rightarrow> go_error option) \<Rightarrow> (go_error \<Rightarrow> string) \<Rightarrow> fb_flags
    \<Rightarrow> string option" where
  "fb_main cpus os runEng message f = (case fb_error f of Some e \<Rightarrow> Some e
   | None \<Rightarrow> (case NewDivert os (fb_port f) [] of
       Inl (e, _) \<Rightarrow> Some (''divert open failed: '' @ message e)
     | Inr ad \<Rightarrow> (case runEng (flag_config (DefaultConfig cpus) f) ad of
         None \<Rightarrow> None
       | Some e \<Rightarrow> if errors_is e ContextCanceled then None else Some (''engine stopped: '' @ message e))))"

section \<open>Properties\<close>

text \<open>The checks of the flags are those of the settings.\<close>

lemma fb_checks_split:
  "fb_error f = first_failure
     ([(snd (parseSplitMode (fSplitMode f)) \<noteq> None, ''invalid split-mode: expected tls-hello or immediate'')]
      @ engine_checks (flag_config c f)
      @ [(fDivertPort f < 1 \<or> fDivertPort f > 65535, ''divert-port must be in 1..65535'')])"
  by (simp add: fb_error_def fb_checks_def engine_checks_def flag_config_def)

lemma parseSplitMode_known: "fst (parseSplitMode m) \<in> {SplitModeImmediate, SplitModeTLSHello}"
  by (simp add: parseSplitMode_def)

lemma port_kept: "1 \<le> fDivertPort f \<Longrightarrow> fDivertPort f \<le> 65535 \<Longrightarrow> uint (fb_port f) = fDivertPort f \<and> fb_port f \<noteq> 0"
  using port_word [of "fDivertPort f"] by (simp add: fb_port_def)

text \<open>A program that ends well has opened the adapter on the port of the flags and run the engine
  on settings that it can use.\<close>

theorem freebsd_runs_on_valid_settings:
  assumes "fb_main cpus os runEng message f = None"
  shows "\<exists>ad. NewDivert os (fb_port f) [] = Inr ad \<and> dport ad = fb_port f \<and> uint (dport ad) = fDivertPort f
    \<and> usable (flag_config (DefaultConfig cpus) f)
    \<and> (case runEng (flag_config (DefaultConfig cpus) f) ad of None \<Rightarrow> True | Some e \<Rightarrow> errors_is e ContextCanceled)"
proof -
  have e: "fb_error f = None" using assms by (auto simp: fb_main_def split: option.splits)
  then have "validateEngineConfig (flag_config (DefaultConfig cpus) f) = None" "1 \<le> fDivertPort f" "fDivertPort f \<le> 65535"
    unfolding fb_checks_split [of f "DefaultConfig cpus"] first_failure_append validateEngineConfig_def
    by (auto simp: first_failure_None split: option.splits)
  then have v: "usable (flag_config (DefaultConfig cpus) f)" "uint (fb_port f) = fDivertPort f"
    using validated_usable port_kept by auto
  obtain ad where ad: "NewDivert os (fb_port f) [] = Inr ad"
    using assms e by (auto simp: fb_main_def split: sum.splits)
  then have "dport ad = fb_port f"
    by (auto simp: NewDivert_def div_call_def Let_def split: if_splits option.splits)
  then show ?thesis using assms e v ad by (auto simp: fb_main_def split: option.splits if_splits)
qed

end
