(* ===== verification/WinHost.thy ===== *)
theory WinHost
  imports GoStrings
begin

text \<open>
  The machine that the Windows program runs on.  Files, commands and the network are reached
  through operations whose results, outputs and failures are the record \<open>whost\<close>; they may
  depend on all operations made before, whose list is the state.  The functions of
  \<^verbatim>\<open>path/filepath\<close> depend on the machine too (volume names, current directory) and are
  fields of the record, like the status of the last HTTP response, the SHA-256 sum (in
  hexadecimal) of what was last received, the names in a zip file, the state of a Windows
  service at the last query, and the time in milliseconds.
\<close>

section \<open>Errors\<close>

text \<open>An error is a message, an error of the operating system or of a cancelled call, one of
  \<^verbatim>\<open>time.ParseDuration\<close>, or wrapped by \<^verbatim>\<open>fmt.Errorf("...%w...", err)\<close> with the texts before
  and after it.\<close>

datatype os_error = NotExist | Exist | Permission | Canceled | OtherOs nat

datatype werr = Msg string | OsErr os_error | BadDuration string | Wrapped string werr string

definition wrapped :: "string \<Rightarrow> werr \<Rightarrow> werr" where
  "wrapped pre e = Wrapped pre e []"

text \<open>\<^verbatim>\<open>errors.Is\<close> unwraps; \<^verbatim>\<open>os.IsPermission\<close>, which is older, does not look into
  errors wrapped by \<^verbatim>\<open>fmt.Errorf\<close>.\<close>

fun werr_is :: "werr \<Rightarrow> os_error \<Rightarrow> bool" where
  "werr_is (OsErr x) t = (x = t)"
| "werr_is (Wrapped pre e post) t = werr_is e t"
| "werr_is _ t = False"

definition os_IsPermission :: "werr \<Rightarrow> bool" where
  "os_IsPermission e \<longleftrightarrow> e = OsErr Permission"

section \<open>Operations\<close>

datatype wop =
    MkdirAll string | Stat string | ReadFile string | CreateNew string | OpenAppend string | WriteTo string string
  | CloseOf string | RemoveFile string | RenameFile string string | CreateTemp string string
  | HttpGet string | CloseBody | ReceiveInto string | OpenZip string | CloseZip string | OpenEntry string | CloseEntry string | CopyEntry string string
  | Command string "string list" | SetEnv string string
  | ScmConnect | ScmDisconnect | ScmOpen string | ScmClose | ScmStart | ScmStop | ScmParamChange | ScmDelete | ScmQuery
  | RegOpen string string | RegCreate string string | RegGet string | RegDelete string | RegSet string string | RegClose
  | Sleep int | RunElevated string string | RemoveAll string

type_synonym wlog = "wop list"

record whost =
  failure :: "wlog \<Rightarrow> wop \<Rightarrow> werr option"
  outcome :: "wlog \<Rightarrow> wop \<Rightarrow> string"
  getenv :: "wlog \<Rightarrow> string \<Rightarrow> string"
  exeFile :: "werr + string"
  lookExe :: "wlog \<Rightarrow> string \<Rightarrow> werr + string"
  isAdmin :: bool
  cleanPath :: "string \<Rightarrow> string"
  absPath :: "string \<Rightarrow> string option"
  joinPath :: "string \<Rightarrow> string \<Rightarrow> string"
  dirPath :: "string \<Rightarrow> string"
  basePath :: "string \<Rightarrow> string"
  statusCode :: "wlog \<Rightarrow> int"
  receivedSum :: "wlog \<Rightarrow> string"
  zipNames :: "wlog \<Rightarrow> string \<Rightarrow> string list"
  serviceState :: "wlog \<Rightarrow> nat"
  clock :: "wlog \<Rightarrow> int"
  elevated :: bool
  systemDir :: "werr + string"

type_synonym wstatus = "werr option \<times> wlog"

definition wdo :: "whost \<Rightarrow> wop \<Rightarrow> wlog \<Rightarrow> wstatus" where
  "wdo w op l = (failure w l op, l @ [op])"

definition wthen :: "wstatus \<Rightarrow> (wlog \<Rightarrow> wstatus) \<Rightarrow> wstatus" where
  "wthen r f = (case r of (Some e, l) \<Rightarrow> (Some e, l) | (None, l) \<Rightarrow> f l)"

definition wwrap :: "string \<Rightarrow> wstatus \<Rightarrow> wstatus" where
  "wwrap pre r = (case r of (Some e, l) \<Rightarrow> (Some (wrapped pre e), l) | (None, l) \<Rightarrow> (None, l))"

text \<open>Running something whose error is ignored.\<close>

definition quietly :: "whost \<Rightarrow> wop \<Rightarrow> wlog \<Rightarrow> wlog" where
  "quietly w op l = snd (wdo w op l)"

lemma wdo_simps [simp]: "fst (wdo w op l) = failure w l op" "snd (wdo w op l) = l @ [op]" "quietly w op l = l @ [op]"
  by (simp_all add: wdo_def quietly_def)

lemma wdo_eq: "wdo w op l = (r, l') \<longleftrightarrow> r = failure w l op \<and> l' = l @ [op]"
  by (auto simp: wdo_def)

lemma wthen_simps [simp]: "wthen (None, l) f = f l" "wthen (Some e, l) f = (Some e, l)"
  "wwrap pre (None, l) = (None, l)" "wwrap pre (Some e, l) = (Some (wrapped pre e), l)"
  by (simp_all add: wthen_def wwrap_def)

lemma wthen_ok: "wthen r f = (None, l') \<longleftrightarrow> (\<exists>l. r = (None, l) \<and> f l = (None, l'))"
  by (auto simp: wthen_def split: prod.splits option.splits)

lemma wwrap_ok [simp]: "wwrap pre r = (None, l) \<longleftrightarrow> r = (None, l)"
  by (auto simp: wwrap_def split: prod.splits option.splits)

lemma wwrap_log [simp]: "snd (wwrap pre r) = snd r"
  by (auto simp: wwrap_def split: prod.splits option.splits)

text \<open>The deferred calls of a function, whose errors are ignored, the last one deferred first.\<close>

definition with_defer :: "wop list \<Rightarrow> 'a \<times> wlog \<Rightarrow> 'a \<times> wlog" where
  "with_defer ops r = (fst r, snd r @ ops)"

lemma with_defer_simps [simp]: "with_defer ops (r, l) = (r, l @ ops)"
  by (simp add: with_defer_def)

text \<open>Monotonicity of the log.\<close>

definition extends :: "wlog \<Rightarrow> wlog \<Rightarrow> bool" where
  "extends l l' \<longleftrightarrow> (\<exists>k. l' = l @ k)"

lemma extends_refl [simp]: "extends l l" and extends_snoc [simp]: "extends l (l @ k)"
  by (auto simp: extends_def)

lemma extends_trans: "extends a b \<Longrightarrow> extends b c \<Longrightarrow> extends a c"
  by (auto simp: extends_def)

section \<open>Directories and access rights\<close>

text \<open>\<^verbatim>\<open>cmd/splitter/acl_windows.go\<close> and \<^verbatim>\<open>defaultProgramDataDir\<close>.\<close>

definition sidSystem :: string where "sidSystem = ''*S-1-5-18''"
definition sidAdministrators :: string where "sidAdministrators = ''*S-1-5-32-544''"
definition sidUsers :: string where "sidUsers = ''*S-1-5-32-545''"

text \<open>A command whose failure is reported with a label, the path and the command's output.\<close>

definition icacls_step :: "whost \<Rightarrow> string \<Rightarrow> string \<Rightarrow> string \<Rightarrow> string list \<Rightarrow> wlog \<Rightarrow> wstatus" where
  "icacls_step w label path exe args l = (case wdo w (Command exe args) l of
     (None, l') \<Rightarrow> (None, l')
   | (Some e, l') \<Rightarrow> (Some (Wrapped (label @ '' ('' @ path @ ''): '') e ('': '' @ TrimSpace (outcome w l (Command exe args)))), l'))"

definition harden :: "whost \<Rightarrow> string \<Rightarrow> string list \<Rightarrow> string \<Rightarrow> wlog \<Rightarrow> wstatus" where
  "harden w label grants path l = (case lookExe w l ''icacls.exe'' of Inl e \<Rightarrow> (Some e, l)
   | Inr exe \<Rightarrow> wthen (icacls_step w ''icacls reset failed'' path exe [path, ''/reset''] l)
       (icacls_step w label path exe ([path, ''/inheritance:r'', ''/grant:r''] @ grants)))"

definition hardenWindowsDirACL :: "whost \<Rightarrow> string \<Rightarrow> wlog \<Rightarrow> wstatus" where
  "hardenWindowsDirACL w dir = harden w ''icacls harden dir failed''
     [sidSystem @ '':(OI)(CI)F'', sidAdministrators @ '':(OI)(CI)F'', sidUsers @ '':(OI)(CI)RX''] dir"

definition hardenWindowsFileACL :: "whost \<Rightarrow> string \<Rightarrow> wlog \<Rightarrow> wstatus" where
  "hardenWindowsFileACL w path0 l = (let path = TrimSpace path0 in
     if path = [] then (Some (Msg ''path is empty''), l)
     else harden w ''icacls harden file failed'' [sidSystem @ '':F'', sidAdministrators @ '':F'', sidUsers @ '':R''] path l)"

definition ensureSecureWindowsDir :: "whost \<Rightarrow> string \<Rightarrow> wlog \<Rightarrow> wstatus" where
  "ensureSecureWindowsDir w dir0 l = (let dir = TrimSpace dir0 in
     if dir = [] then (Some (Msg ''dir is empty''), l)
     else wthen (wdo w (MkdirAll dir) l) (hardenWindowsDirACL w dir))"

definition full_path :: "whost \<Rightarrow> string \<Rightarrow> string" where
  "full_path w p = (case absPath w (cleanPath w p) of Some a \<Rightarrow> a | None \<Rightarrow> cleanPath w p)"

definition backslash :: char where [go_defs]: "backslash = CHR 0x5C"

definition isUnderDir :: "whost \<Rightarrow> string \<Rightarrow> string \<Rightarrow> bool" where
  "isUnderDir w path dir = (
     let p = ToLower (full_path w path); d = ToLower (full_path w dir);
         d' = (if HasSuffix d [backslash] then d else d @ [backslash])
     in p = d \<or> HasPrefix p d')"

definition defaultProgramDataDir :: "whost \<Rightarrow> wlog \<Rightarrow> string" where
  "defaultProgramDataDir w l = (let base = getenv w l ''ProgramData''
     in if base = [] then ''C:'' @ [backslash] @ ''ProgramData'' else base)"

definition programDataRoot :: "whost \<Rightarrow> wlog \<Rightarrow> string" where
  "programDataRoot w l = joinPath w (defaultProgramDataDir w l) ''gov-pass''"

end
