(* ===== verification/WinFiles.thy ===== *)
theory WinFiles
  imports WinHost WinDivert
begin

text \<open>
  The files of the WinDivert driver: looking for them, downloading the pinned distribution
  (\<^verbatim>\<open>internal/driver/windivert_download_windows.go\<close>), choosing the directory
  (\<^verbatim>\<open>cmd/splitter/windivert_ensure_windows.go\<close>) and the search path
  (\<^verbatim>\<open>internal/driver/path.go\<close>).
\<close>

section \<open>The files\<close>

definition winDivertZipURL :: string where
  "winDivertZipURL = ''https://github.com/basil00/WinDivert/releases/download/v2.2.2/WinDivert-2.2.2-A.zip''"

definition winDivertZipSHA256 :: string where
  "winDivertZipSHA256 = ''63cb41763bb4b20f600b6de04e991a9c2be73279e317d4d82f237b150c5f3f15''"

text \<open>\<^verbatim>\<open>os.Stat\<close> without an error.\<close>

definition present :: "whost \<Rightarrow> string \<Rightarrow> wlog \<Rightarrow> bool \<times> wlog" where
  "present w p l = (case wdo w (Stat p) l of (r, l) \<Rightarrow> (r = None, l))"

definition HasWinDivertFiles :: "whost \<Rightarrow> string \<Rightarrow> string \<Rightarrow> wlog \<Rightarrow> bool \<times> wlog" where
  "HasWinDivertFiles w dir0 sysName l = (let dir = TrimSpace dir0 in
     if dir = [] then (False, l) else
     case present w (joinPath w dir ''WinDivert.dll'') l of
       (False, l) \<Rightarrow> (False, l)
     | (True, l) \<Rightarrow>
       if sysName \<noteq> [] then present w (joinPath w dir sysName) l
       else (case present w (joinPath w dir ''WinDivert64.sys'') l of
           (True, l) \<Rightarrow> (True, l)
         | (False, l) \<Rightarrow> present w (joinPath w dir ''WinDivert.sys'') l))"

section \<open>Downloading\<close>

definition extractZipFile :: "whost \<Rightarrow> string \<Rightarrow> string \<Rightarrow> wlog \<Rightarrow> wstatus" where
  "extractZipFile w entry dest0 l = (let dest = TrimSpace dest0 in
     if dest = [] then (Some (Msg ''destPath is empty''), l) else
     wthen (wdo w (OpenEntry entry) l) (\<lambda>l. with_defer [CloseEntry entry] (
       wthen (wdo w (MkdirAll (dirPath w dest)) l) (\<lambda>l.
         let c = CreateTemp (dirPath w dest) (basePath w dest @ ''.tmp-*''); tmp = outcome w l c
         in wthen (wdo w c l) (\<lambda>l. with_defer [CloseOf tmp, RemoveFile tmp] (
           wthen (wdo w (CopyEntry entry tmp) l) (\<lambda>l.
           wthen (wdo w (CloseOf tmp) l) (\<lambda>l.
           wdo w (RenameFile tmp dest) (quietly w (RemoveFile dest) l)))))))))"

definition slash_name :: "string \<Rightarrow> string" where
  "slash_name s = ToLower (map (\<lambda>c. if c = backslash then CHR ''/'' else c) s)"

definition is_x64 :: "string \<Rightarrow> string \<Rightarrow> bool" where
  "is_x64 file name \<longleftrightarrow> Contains (slash_name name) ''/x64/'' \<and> HasSuffix (slash_name name) (CHR ''/'' # file)"

text \<open>The loop over the archive; the result says which of the two files were found.\<close>

fun extract_all :: "whost \<Rightarrow> string \<Rightarrow> string list \<Rightarrow> bool \<times> bool \<Rightarrow> wlog \<Rightarrow> (werr + bool \<times> bool) \<times> wlog" where
  "extract_all w dest [] found l = (Inr found, l)"
| "extract_all w dest (n # ns) (dll, sys) l = (
     if is_x64 ''windivert.dll'' n then
       (case extractZipFile w n (joinPath w dest ''WinDivert.dll'') l of
          (Some e, l) \<Rightarrow> (Inl e, l) | (None, l) \<Rightarrow> extract_all w dest ns (True, sys) l)
     else if is_x64 ''windivert64.sys'' n then
       (case extractZipFile w n (joinPath w dest ''WinDivert64.sys'') l of
          (Some e, l) \<Rightarrow> (Inl e, l) | (None, l) \<Rightarrow> extract_all w dest ns (dll, True) l)
     else extract_all w dest ns (dll, sys) l)"

text \<open>The first file missing in the order of the map's iteration, \<^term>\<open>sysFirst\<close>.\<close>

definition missing_file :: "bool \<Rightarrow> bool \<times> bool \<Rightarrow> werr option" where
  "missing_file sysFirst found = (
     let dll = (\<not> fst found, ''WinDivert.dll''); sys = (\<not> snd found, ''WinDivert64.sys'')
     in map_option (\<lambda>(_, n). Msg (''windivert zip missing expected x64 file: '' @ n))
          (find fst (if sysFirst then [sys, dll] else [dll, sys])))"

definition unpack :: "bool \<Rightarrow> whost \<Rightarrow> string \<Rightarrow> string \<Rightarrow> wlog \<Rightarrow> wstatus" where
  "unpack sysFirst w dest tmp l = (case extract_all w dest (zipNames w l tmp) (False, False) l of
     (Inl e, l) \<Rightarrow> (Some e, l) | (Inr found, l) \<Rightarrow> (missing_file sysFirst found, l))"

definition receive :: "whost \<Rightarrow> string \<Rightarrow> wlog \<Rightarrow> wstatus" where
  "receive w tmp l = (if statusCode w l \<noteq> 200 then (Some (Msg (''download failed: '' @ outcome w l (HttpGet winDivertZipURL))), l)
     else wthen (wwrap ''download failed: '' (wdo w (ReceiveInto tmp) l)) (\<lambda>l.
       wthen (wwrap ''close temp file failed: '' (wdo w (CloseOf tmp) l)) (\<lambda>l.
         if ToLower (receivedSum w l) \<noteq> winDivertZipSHA256
         then (Some (Msg (''windivert zip SHA256 mismatch: got '' @ receivedSum w l @ '', want '' @ winDivertZipSHA256)), l)
         else (None, l))))"

definition DownloadWinDivertX64 :: "bool \<Rightarrow> whost \<Rightarrow> string \<Rightarrow> wlog \<Rightarrow> wstatus" where
  "DownloadWinDivertX64 sysFirst w dest0 l = (let dest = TrimSpace dest0 in
     if dest = [] then (Some (Msg ''destDir is empty''), l) else
     wthen (wwrap ''create dest dir failed: '' (wdo w (MkdirAll dest) l)) (\<lambda>l.
       let c = CreateTemp dest ''windivert-*.zip''; tmp = outcome w l c
       in wthen (wwrap ''create temp file failed: '' (wdo w c l)) (\<lambda>l. with_defer [CloseOf tmp, RemoveFile tmp] (
            wthen (wdo w (HttpGet winDivertZipURL) l) (\<lambda>l. with_defer [CloseBody] (
              wthen (receive w tmp l) (\<lambda>l.
              wthen (wwrap ''open zip failed: '' (wdo w (OpenZip tmp) l)) (\<lambda>l.
                with_defer [CloseZip tmp] (unpack sysFirst w dest tmp l)))))))))"

section \<open>Choosing the directory\<close>

record windowsRunConfig =
  Filter :: string
  AdapterOpts :: wd_options
  WinDivertDir :: string
  WinDivertSys :: string
  WinDivertSvcName :: string
  AutoInstallDriver :: bool
  AutoUninstallDriver :: bool
  AutoDownloadFiles :: bool

definition fall_back :: "bool \<Rightarrow> whost \<Rightarrow> windowsRunConfig \<Rightarrow> wlog \<Rightarrow> (windowsRunConfig \<times> string \<times> werr option) \<times> wlog" where
  "fall_back sysFirst w wc l = (let root = programDataRoot w l; fallback = joinPath w root ''windivert'' in
     case wwrap ''secure ProgramData dir failed: '' (ensureSecureWindowsDir w root l) of
       (Some e, l) \<Rightarrow> ((wc, fallback, Some e), l)
     | (None, l) \<Rightarrow> (case wwrap ''secure windivert dir failed: '' (ensureSecureWindowsDir w fallback l) of
         (Some e, l) \<Rightarrow> ((wc, fallback, Some e), l)
       | (None, l) \<Rightarrow> (case DownloadWinDivertX64 sysFirst w fallback l of
           (Some e, l) \<Rightarrow> ((wc, fallback, Some e), l)
         | (None, l) \<Rightarrow> ((wc\<lparr>WinDivertDir := fallback\<rparr>, fallback, None), l))))"

definition ensureWinDivertFiles :: "bool \<Rightarrow> whost \<Rightarrow> windowsRunConfig \<Rightarrow> string \<Rightarrow> wlog
    \<Rightarrow> (windowsRunConfig \<times> string \<times> werr option) \<times> wlog" where
  "ensureWinDivertFiles sysFirst w wc exeDir0 l = (
     let exeDir = TrimSpace exeDir0; requested = TrimSpace (WinDivertDir wc);
         driverDir = TrimSpace (if requested = [] then exeDir else requested)
     in if driverDir = [] then ((wc, [], Some (Msg (''could not resolve WinDivert directory (exeDir='' @ [CHR 0x22, CHR 0x22] @ '')''))), l) else
     case HasWinDivertFiles w driverDir (WinDivertSys wc) l of
       (True, l) \<Rightarrow> ((wc, driverDir, None), l)
     | (False, l) \<Rightarrow>
       if \<not> AutoDownloadFiles wc then
         ((wc, driverDir, Some (Msg (''WinDivert files not found in '' @ driverDir
            @ '' (expected WinDivert.dll and WinDivert64.sys); install them or set --auto-download-windivert=true''))), l)
       else (case DownloadWinDivertX64 sysFirst w driverDir l of
           (None, l) \<Rightarrow> ((wc, driverDir, None), l)
         | (Some e, l) \<Rightarrow> if requested = [] \<and> os_IsPermission e then fall_back sysFirst w wc l
             else ((wc, driverDir, Some e), l)))"

section \<open>The search path\<close>

fun split_at :: "char \<Rightarrow> string \<Rightarrow> string \<Rightarrow> string list" where
  "split_at sep cur [] = [cur]"
| "split_at sep cur (c # s) = (if c = sep then cur # split_at sep [] s else split_at sep (cur @ [c]) s)"

definition EqualFold :: "string \<Rightarrow> string \<Rightarrow> bool" where
  "EqualFold a b \<longleftrightarrow> ToLower a = ToLower b"

definition PrependPath :: "whost \<Rightarrow> string \<Rightarrow> wlog \<Rightarrow> wstatus" where
  "PrependPath w dir l = (if dir = [] then (None, l) else
     case absPath w dir of None \<Rightarrow> (Some (Msg ''no current directory''), l)
     | Some full \<Rightarrow> wthen (wdo w (Stat full) l) (\<lambda>l.
         let pathEnv = getenv w l ''PATH''
         in if list_ex (\<lambda>part. EqualFold part full) (split_at CHR '';'' [] pathEnv) then (None, l)
            else wdo w (SetEnv ''PATH'' (if pathEnv \<noteq> [] then full @ '';'' @ pathEnv else full)) l))"

end
