(* ===== verification/GoDuration.thy ===== *)
theory GoDuration
  imports GoStrings
begin

text \<open>
  Printing and parsing of \<^verbatim>\<open>time.Duration\<close> (\<^verbatim>\<open>String\<close> and
  \<^verbatim>\<open>time.ParseDuration\<close> of Go's standard library), which the Windows program uses for its
  configuration file.  A duration is its number of nanoseconds.  \<^verbatim>\<open>ParseDuration\<close>
  multiplies a fraction in 64-bit floating point; that multiplication is the argument \<open>fm\<close>:
  \<open>fm f u s\<close> is the integer part of \<^verbatim>\<open>float64(f) * (float64(u) / s)\<close>.  Where the
  quotient is an integer both operations are exact.
\<close>

section \<open>Printing\<close>

text \<open>The last \<^term>\<open>prec\<close> digits as a fraction without trailing zeros, and the digits before.\<close>

fun fmtFrac :: "nat \<Rightarrow> nat \<Rightarrow> bool \<Rightarrow> string \<Rightarrow> string \<times> nat" where
  "fmtFrac 0 v pr acc = ((if pr then CHR ''.'' # acc else acc), v)"
| "fmtFrac (Suc n) v pr acc = (let digit = v mod 10; pr' = (pr \<or> digit \<noteq> 0)
     in fmtFrac n (v div 10) pr' (if pr' then digit_char digit # acc else acc))"

definition with_frac :: "nat \<Rightarrow> nat \<Rightarrow> string \<Rightarrow> string" where
  "with_frac prec u suffix = (case fmtFrac prec u False [] of (fr, v) \<Rightarrow> show_nat v @ fr @ suffix)"

definition micro :: string where "micro = [CHR 0xC2, CHR 0xB5]"

definition duration_body :: "nat \<Rightarrow> string" where
  "duration_body u = (
     if u = 0 then ''0s''
     else if u < 10 ^ 3 then with_frac 0 u ''ns''
     else if u < 10 ^ 6 then with_frac 3 u (micro @ ''s'')
     else if u < 10 ^ 9 then with_frac 6 u ''ms''
     else case fmtFrac 9 u False [] of (fr, secs) \<Rightarrow>
       let s = show_nat (secs mod 60) @ fr @ ''s''; mins = secs div 60
       in if mins = 0 then s
          else let m = show_nat (mins mod 60) @ ''m'' @ s; hours = mins div 60
               in if hours = 0 then m else show_nat hours @ ''h'' @ m)"

definition Duration_String :: "int \<Rightarrow> string" where
  "Duration_String d = (if d < 0 then CHR ''-'' # duration_body (nat (- d)) else duration_body (nat d))"

section \<open>Parsing\<close>

text \<open>\<^verbatim>\<open>leadingInt\<close>: the number and the rest, or an overflow.\<close>

fun leadingInt :: "nat \<Rightarrow> string \<Rightarrow> (nat \<times> string) option" where
  "leadingInt x [] = Some (x, [])"
| "leadingInt x (c # s) = (if \<not> is_digit c then Some (x, c # s) else
     if x > 2 ^ 63 div 10 then None else
     let y = 10 * x + (of_char c - 48) in if y > 2 ^ 63 then None else leadingInt y s)"

text \<open>\<^verbatim>\<open>leadingFraction\<close>: digits that no longer fit are skipped.\<close>

fun leadingFraction :: "nat \<Rightarrow> nat \<Rightarrow> bool \<Rightarrow> string \<Rightarrow> nat \<times> nat \<times> string" where
  "leadingFraction x scale over [] = (x, scale, [])"
| "leadingFraction x scale over (c # s) = (if \<not> is_digit c then (x, scale, c # s) else
     if over \<or> x > (2 ^ 63 - 1) div 10 then leadingFraction x scale True s else
     let y = 10 * x + (of_char c - 48)
     in if y > 2 ^ 63 then leadingFraction x scale True s else leadingFraction y (10 * scale) False s)"

definition unit_char :: "char \<Rightarrow> bool" where
  "unit_char c \<longleftrightarrow> c \<noteq> CHR ''.'' \<and> \<not> is_digit c"

definition unitMap :: "(string \<times> nat) list" where
  "unitMap = [(''ns'', 1), (''us'', 10 ^ 3), (micro @ ''s'', 10 ^ 3), ([CHR 0xCE, CHR 0xBC] @ ''s'', 10 ^ 3),
     (''ms'', 10 ^ 6), (''s'', 10 ^ 9), (''m'', 60 * 10 ^ 9), (''h'', 3600 * 10 ^ 9)]"

text \<open>One item: an integer part, a fraction and a unit.\<close>

definition parse_item :: "(nat \<Rightarrow> nat \<Rightarrow> nat \<Rightarrow> nat) \<Rightarrow> string \<Rightarrow> (nat \<times> string) option" where
  "parse_item fm s = (
     if s = [] \<or> \<not> (hd s = CHR ''.'' \<or> is_digit (hd s)) then None else
     case leadingInt 0 s of None \<Rightarrow> None | Some (v, s1) \<Rightarrow>
       let (f, scale, s2) = (if s1 \<noteq> [] \<and> hd s1 = CHR ''.'' then leadingFraction 0 1 False (tl s1) else (0, 1, s1));
           pre = length s1 \<noteq> length s; post = (s1 \<noteq> [] \<and> hd s1 = CHR ''.'' \<and> length s2 \<noteq> length (tl s1));
           u = takeWhile unit_char s2; s3 = dropWhile unit_char s2
       in if \<not> pre \<and> \<not> post \<or> u = [] then None else
          case map_of unitMap u of None \<Rightarrow> None | Some unit \<Rightarrow>
            if v > 2 ^ 63 div unit then None else
            let w = v * unit + (if f > 0 then fm f unit scale else 0)
            in if f > 0 \<and> w > 2 ^ 63 then None else Some (w, s3))"

lemma parse_item_shorter:
  assumes "parse_item fm s = Some (w, r)"
  shows "length r < length s"
proof -
  have li: "length r \<le> length s" if "leadingInt x s = Some (v, r)" for x v s r
    using that by (induction x s rule: leadingInt.induct) (auto simp: Let_def split: if_splits intro: le_SucI)
  have lf: "length (snd (snd (leadingFraction x sc ov s))) \<le> length s" for x sc ov s
    by (induction x sc ov s rule: leadingFraction.induct) (auto simp: Let_def intro: le_SucI)
  have dw: "length (dropWhile P xs) < length xs" if "takeWhile P xs \<noteq> []" for P and xs :: string
  proof -
    have "length (takeWhile P xs) + length (dropWhile P xs) = length xs"
      by (metis length_append takeWhile_dropWhile_id)
    then show ?thesis using that by (cases "takeWhile P xs") simp_all
  qed
  obtain v s1 where s1: "leadingInt 0 s = Some (v, s1)" using assms by (auto simp: parse_item_def split: option.splits if_splits)
  obtain f sc s2 where s2: "(if s1 \<noteq> [] \<and> hd s1 = CHR ''.'' then leadingFraction 0 1 False (tl s1) else (0, 1, s1)) = (f, sc, s2)"
    using prod_cases3 by blast
  have "length s2 \<le> length s1"
    using s2 lf [of 0 1 False "tl s1"] by (cases s1) (auto split: if_splits)
  moreover have "r = dropWhile unit_char s2" "takeWhile unit_char s2 \<noteq> []"
    using assms unfolding parse_item_def s1 option.case prod.case Let_def s2
    by (auto split: option.splits if_splits)
  ultimately show ?thesis using li [OF s1] dw [of unit_char s2] by simp
qed

function parse_items :: "(nat \<Rightarrow> nat \<Rightarrow> nat \<Rightarrow> nat) \<Rightarrow> nat \<Rightarrow> string \<Rightarrow> nat option" where
  "parse_items fm d s = (if s = [] then Some d else
     case parse_item fm s of None \<Rightarrow> None
     | Some (w, r) \<Rightarrow> let d' = (d + w) mod 2 ^ 64 in if d' > 2 ^ 63 then None else parse_items fm d' r)"
  by pat_completeness auto
termination
  by (relation "measure (\<lambda>(fm, d, s). length s)") (auto dest: parse_item_shorter)

declare parse_items.simps [simp del]

text \<open>\<^const>\<open>None\<close> is an error; its text quotes the whole input.\<close>

definition ParseDuration :: "(nat \<Rightarrow> nat \<Rightarrow> nat \<Rightarrow> nat) \<Rightarrow> string \<Rightarrow> int option" where
  "ParseDuration fm orig = (
     let (neg, s) = (case orig of [] \<Rightarrow> (False, []) | c # cs \<Rightarrow>
           if c = CHR ''-'' then (True, cs) else if c = CHR ''+'' then (False, cs) else (False, orig))
     in if s = ''0'' then Some 0 else if s = [] then None else
        case parse_items fm 0 s of None \<Rightarrow> None
        | Some d \<Rightarrow> if neg then Some (- int d) else if d > 2 ^ 63 - 1 then None else Some (int d))"

section \<open>Parsing undoes printing\<close>

text \<open>The last \<^term>\<open>n\<close> digits, with leading zeros.\<close>

fun digs :: "nat \<Rightarrow> nat \<Rightarrow> string" where
  "digs 0 v = []"
| "digs (Suc n) v = digs n (v div 10) @ [digit_char (v mod 10)]"

lemma digs_props: "length (digs n v) = n" "list_all is_digit (digs n v)" "digits_value (digs n v) = v mod 10 ^ n"
proof (induction n arbitrary: v)
  case (Suc n)
  case 1 show ?case using Suc.IH(1) by simp
  case 2 show ?case using Suc.IH(2) by (simp add: digit_is_digit)
  case 3 show ?case using Suc.IH(3) by (simp add: digits_value_snoc digit_of_char mod_mult2_eq)
qed (simp_all add: digits_value_def)

lemma fmtFrac_printing: "fmtFrac n v True acc = (CHR ''.'' # digs n v @ acc, v div 10 ^ n)"
  by (induction n arbitrary: v acc) (simp_all add: Let_def div_mult2_eq)

lemma fmtFrac_zero: "v mod 10 ^ n = 0 \<Longrightarrow> fmtFrac n v False [] = ([], v div 10 ^ n)"
proof (induction n arbitrary: v)
  case (Suc n)
  then have "10 * 10 ^ n dvd v" by (simp add: mod_eq_0_iff_dvd)
  then obtain q where "v = 10 * (10 ^ n * q)" by (auto simp: dvd_def algebra_simps)
  then show ?case using Suc.IH [of "v div 10"] by (simp add: Let_def div_mult2_eq)
qed simp

lemma fmtFrac_frac:
  "v mod 10 ^ n \<noteq> 0 \<Longrightarrow> \<exists>k. 0 < k \<and> k \<le> n \<and> 10 ^ (n - k) dvd v
    \<and> fmtFrac n v False [] = (CHR ''.'' # digs k (v div 10 ^ (n - k)), v div 10 ^ n)"
proof (induction n arbitrary: v)
  case (Suc n)
  show ?case
  proof (cases "v mod 10 = 0")
    case False
    then show ?thesis by (intro exI [of _ "Suc n"]) (simp add: Let_def fmtFrac_printing div_mult2_eq)
  next
    case True
    then obtain w where w: "v = 10 * w" by blast
    then have "w mod 10 ^ n \<noteq> 0" using Suc.prems by simp
    then obtain k where "0 < k" "k \<le> n" "10 ^ (n - k) dvd w"
      "fmtFrac n w False [] = (CHR ''.'' # digs k (w div 10 ^ (n - k)), w div 10 ^ n)"
      using Suc.IH by blast
    then show ?thesis using w by (intro exI [of _ k]) (simp add: Let_def Suc_diff_le)
  qed
qed simp

definition item_ends :: "string \<Rightarrow> bool" where
  "item_ends r \<longleftrightarrow> (r = [] \<or> \<not> is_digit (hd r))"

lemma foldl_digits_mono: "(x :: nat) \<le> foldl (\<lambda>v c. 10 * v + (of_char c - 48)) x (ds :: string)"
proof (induction ds arbitrary: x)
  case (Cons c ds)
  have "x \<le> 10 * x + (of_char c - 48)" by simp
  also have "\<dots> \<le> foldl (\<lambda>v c. 10 * v + (of_char c - 48)) (10 * x + (of_char c - 48)) ds" by (rule Cons.IH)
  finally show ?case by simp
qed simp

lemma leadingInt_digits:
  "list_all is_digit ds \<Longrightarrow> item_ends r \<Longrightarrow> foldl (\<lambda>v c. 10 * v + (of_char c - 48)) x ds \<le> 2 ^ 63 \<Longrightarrow>
    leadingInt x (ds @ r) = Some (foldl (\<lambda>v c. 10 * v + (of_char c - 48)) x ds, r)"
proof (induction ds arbitrary: x)
  case Nil
  then show ?case by (cases r) (simp_all add: item_ends_def)
next
  case (Cons c ds)
  let ?y = "10 * x + (of_char c - 48)"
  have y: "?y \<le> 2 ^ 63" using Cons.prems(3) foldl_digits_mono [of ?y ds] by simp
  then have "x \<le> 2 ^ 63 div 10" by simp
  then show ?case using Cons.IH [of ?y] Cons.prems y by (simp add: Let_def)
qed

lemma leadingFraction_digits:
  "list_all is_digit ds \<Longrightarrow> item_ends r \<Longrightarrow> foldl (\<lambda>v c. 10 * v + (of_char c - 48)) x ds < 2 ^ 63 \<Longrightarrow>
    leadingFraction x sc False (ds @ r) = (foldl (\<lambda>v c. 10 * v + (of_char c - 48)) x ds, sc * 10 ^ length ds, r)"
proof (induction ds arbitrary: x sc)
  case Nil
  then show ?case by (cases r) (simp_all add: item_ends_def)
next
  case (Cons c ds)
  let ?y = "10 * x + (of_char c - 48)"
  have y: "?y < 2 ^ 63" using Cons.prems(3) foldl_digits_mono [of ?y ds] by simp
  then have "x \<le> (2 ^ 63 - 1) div 10" by simp
  then show ?case using Cons.IH [of ?y "10 * sc"] Cons.prems y by (simp add: Let_def)
qed

definition unit_word :: "string \<Rightarrow> bool" where
  "unit_word un \<longleftrightarrow> un \<noteq> [] \<and> list_all unit_char un"

definition next_item :: "string \<Rightarrow> bool" where
  "next_item r \<longleftrightarrow> (r = [] \<or> \<not> unit_char (hd r))"

lemma split_unit: "unit_word un \<Longrightarrow> next_item r \<Longrightarrow> takeWhile unit_char (un @ r) = un \<and> dropWhile unit_char (un @ r) = r"
  by (cases r) (simp_all add: unit_word_def next_item_def list_all_iff)

lemma unit_word_hd: "unit_word un \<Longrightarrow> item_ends (un @ r) \<and> hd (un @ r) \<noteq> CHR ''.''"
  by (cases un) (simp_all add: unit_word_def unit_char_def item_ends_def)

lemma leadingInt_show: "v \<le> 2 ^ 63 \<Longrightarrow> item_ends r \<Longrightarrow> leadingInt 0 (show_nat v @ r) = Some (v, r)"
  using leadingInt_digits [of "show_nat v" r 0] show_nat_digits [of v] digits_value_show [of v] by (simp add: digits_value_def)

lemma show_nat_hd: "show_nat v @ r \<noteq> [] \<and> is_digit (hd (show_nat v @ r))"
  using show_nat_digits [of v] by (cases "show_nat v") simp_all

lemma factor_bound: "0 < U \<Longrightarrow> v * U \<le> n \<Longrightarrow> v \<le> n" for U v n :: nat
  by (cases U) simp_all

lemma parse_plain:
  assumes "unit_word un" "next_item r" "map_of unitMap un = Some U" "0 < U" "v * U \<le> 2 ^ 63"
  shows "parse_item fm (show_nat v @ un @ r) = Some (v * U, r)"
proof -
  have "v \<le> 2 ^ 63 div U" using assms(4,5) by (simp add: less_eq_div_iff_mult_less_eq)
  moreover have "v \<le> 2 ^ 63" using factor_bound [OF assms(4,5)] .
  ultimately show ?thesis
    using leadingInt_show [of v "un @ r"] unit_word_hd [OF assms(1), of r] split_unit [OF assms(1,2)] show_nat_hd [of v "un @ r"] assms
      show_nat_digits [of v]
    by (auto simp: parse_item_def Let_def unit_word_def)
qed

text \<open>What is known of the floating-point multiplication.\<close>

definition exact_product :: "(nat \<Rightarrow> nat \<Rightarrow> nat \<Rightarrow> nat) \<Rightarrow> bool" where
  "exact_product fm \<longleftrightarrow> (\<forall>f u s. 0 < s \<and> s dvd u \<and> f * (u div s) < 2 ^ 53 \<longrightarrow> fm f u s = f * (u div s))"

lemma parse_frac:
  assumes ex: "exact_product fm" and un: "unit_word un" "next_item r" "map_of unitMap un = Some (10 ^ p)" "p \<le> 9"
    and k: "0 < k" "k \<le> p" "10 ^ (p - k) dvd u" and m: "u mod 10 ^ p \<noteq> 0" and le: "v * 10 ^ p + u mod 10 ^ p \<le> 2 ^ 63"
  shows "parse_item fm (show_nat v @ CHR ''.'' # digs k (u div 10 ^ (p - k)) @ un @ r) = Some (v * 10 ^ p + u mod 10 ^ p, r)"
proof -
  define f where "f = u div 10 ^ (p - k) mod 10 ^ k"
  have pk: "(10 :: nat) ^ p = 10 ^ (p - k) * 10 ^ k" using k(2) by (simp flip: power_add)
  have u: "u mod 10 ^ p = f * 10 ^ (p - k)"
  proof -
    obtain w where w: "u = 10 ^ (p - k) * w" using k(3) by blast
    then have "f = w mod 10 ^ k" by (simp add: f_def)
    moreover have "(10 ^ (p - k) * w) mod (10 ^ (p - k) * 10 ^ k) = 10 ^ (p - k) * (w mod 10 ^ k)"
      by (rule mult_mod_right [symmetric])
    ultimately show ?thesis unfolding pk w by (simp only: mult.commute)
  qed
  have k9: "(10 :: nat) ^ k \<le> 10 ^ 9" "(10 :: nat) ^ p \<le> 10 ^ 9" 
    using k(2) un(4) power_increasing [of k 9 "10 :: nat"] power_increasing [of p 9 "10 :: nat"] by simp_all
  have "f < 10 ^ k" by (simp add: f_def)
  then have f: "f < 2 ^ 63" using k9(1) by simp
  have "f * 10 ^ (p - k) < 10 ^ p" by (simp add: u [symmetric])
  then have "f * 10 ^ (p - k) < 2 ^ 53" using k9(2) by simp
  moreover have "(10 :: nat) ^ p div 10 ^ k = 10 ^ (p - k)" "(10 :: nat) ^ k dvd 10 ^ p" using pk by simp_all
  ultimately have fm: "fm f (10 ^ p) (10 ^ k) = f * 10 ^ (p - k)" using ex by (simp add: exact_product_def)
  have f0: "0 < f" using m u by (cases f) simp_all
  let ?ds = "digs k (u div 10 ^ (p - k))"
  have lf: "leadingFraction 0 1 False (?ds @ un @ r) = (f, 10 ^ k, un @ r)"
    using leadingFraction_digits [of ?ds "un @ r" 0 1] digs_props [of k "u div 10 ^ (p - k)"] unit_word_hd [OF un(1), of r] f
    by (simp add: f_def digits_value_def)
  have "v * 10 ^ p \<le> 2 ^ 63" using le by simp
  then have v: "v \<le> 2 ^ 63 div 10 ^ p" "v \<le> 2 ^ 63"
    using factor_bound [of "10 ^ p" v] by (simp_all add: less_eq_div_iff_mult_less_eq)
  have "item_ends (CHR ''.'' # ?ds @ un @ r)" by (simp add: item_ends_def is_digit_def)
  then have li: "leadingInt 0 (show_nat v @ CHR ''.'' # ?ds @ un @ r) = Some (v, CHR ''.'' # ?ds @ un @ r)"
    by (rule leadingInt_show [OF v(2)])
  show ?thesis
    using split_unit [OF un(1,2)] show_nat_hd [of v "CHR ''.'' # ?ds @ un @ r"] un v(1) le u f0 show_nat_digits [of v]
    unfolding parse_item_def li by (simp add: lf [unfolded One_nat_def] fm Let_def unit_word_def)
qed

text \<open>An item with the fraction that \<^const>\<open>fmtFrac\<close> prints.\<close>

lemma parse_printed:
  assumes "exact_product fm" "unit_word un" "next_item r" "map_of unitMap un = Some (10 ^ p)" "p \<le> 9"
    and "v * 10 ^ p + u mod 10 ^ p \<le> 2 ^ 63" "fmtFrac p u False [] = (fr, q)"
  shows "parse_item fm (show_nat v @ fr @ un @ r) = Some (v * 10 ^ p + u mod 10 ^ p, r)"
proof (cases "u mod 10 ^ p = 0")
  case True
  then have "fr = []" using fmtFrac_zero [OF True] assms(7) by simp
  then show ?thesis using parse_plain [OF assms(2-4), of v] assms(6) True by simp
next
  case False
  then obtain k where "0 < k" "k \<le> p" "10 ^ (p - k) dvd u" "fr = CHR ''.'' # digs k (u div 10 ^ (p - k))"
    using fmtFrac_frac [OF False] assms(7) by auto
  then show ?thesis using parse_frac [OF assms(1-5), of k u v] False assms(6) by simp
qed

lemma units: "unit_word ''ns'' \<and> unit_word (micro @ ''s'') \<and> unit_word ''ms'' \<and> unit_word ''s'' \<and> unit_word ''m'' \<and> unit_word ''h''"
  by (simp add: unit_word_def unit_char_def is_digit_def micro_def)

lemma fmtFrac_int: "fmtFrac p u False [] = (fr, q) \<Longrightarrow> q = u div 10 ^ p"
  using fmtFrac_zero [of u p] fmtFrac_frac [of u p] by (cases "u mod 10 ^ p = 0") auto

lemma next_item_show: "next_item (show_nat v @ r)"
  using show_nat_hd [of v r] by (simp add: next_item_def unit_char_def)

lemma parse_items_step:
  "parse_item fm s = Some (w, r) \<Longrightarrow> d + w \<le> 2 ^ 63 \<Longrightarrow> parse_items fm d s = parse_items fm (d + w) r"
  by (subst parse_items.simps) (auto simp: parse_item_def Let_def)

lemma parse_item_None: "\<not> (c = CHR ''.'' \<or> is_digit c) \<Longrightarrow> parse_item fm (c # cs) = None"
  by (simp add: parse_item_def)

lemma parse_items_Some: "parse_items fm d (c # cs) = Some u \<Longrightarrow> parse_item fm (c # cs) \<noteq> None"
  by (subst (asm) parse_items.simps) (auto split: option.splits)

lemma parse_items_Nil [simp]: "parse_items fm d [] = Some d"
  by (simp add: parse_items.simps)

text \<open>A number with its fraction and unit at the end.\<close>

lemma parse_last:
  assumes "exact_product fm" "unit_word un" "map_of unitMap un = Some (10 ^ p)" "p \<le> 9"
    and "d + v * 10 ^ p + u mod 10 ^ p \<le> 2 ^ 63" "fmtFrac p u False [] = (fr, q)"
  shows "parse_items fm d (show_nat v @ fr @ un) = Some (d + v * 10 ^ p + u mod 10 ^ p)"
  using parse_items_step [OF parse_printed [OF assms(1,2) _ assms(3,4) _ assms(6), of "[]" v], of d] assms(5)
  by (simp add: next_item_def add.assoc)

lemma parse_with_frac:
  assumes "exact_product fm" "unit_word un" "map_of unitMap un = Some (10 ^ p)" "p \<le> 9" "u \<le> 2 ^ 63"
  shows "parse_items fm 0 (with_frac p u un) = Some u"
proof -
  obtain fr q where f: "fmtFrac p u False [] = (fr, q)" by force
  have "q * 10 ^ p + u mod 10 ^ p = u" unfolding fmtFrac_int [OF f] by (rule div_mult_mod_eq)
  then show ?thesis
    using parse_last [OF assms(1-4) _ f, of 0 q] assms(5) by (simp add: with_frac_def f)
qed

lemma parse_body:
  assumes ex: "exact_product fm" and u: "0 < u" "u \<le> 2 ^ 63"
  shows "parse_items fm 0 (duration_body u) = Some u"
proof -
  have m: "map_of unitMap ''ns'' = Some (10 ^ 0)" "map_of unitMap (micro @ ''s'') = Some (10 ^ 3)"
    "map_of unitMap ''ms'' = Some (10 ^ 6)" "map_of unitMap ''s'' = Some (10 ^ 9)"
    "map_of unitMap ''m'' = Some (60 * 10 ^ 9)" "map_of unitMap ''h'' = Some (3600 * 10 ^ 9)"
    by (simp_all add: unitMap_def micro_def)
  obtain fr q where f: "fmtFrac 9 u False [] = (fr, q)" by force
  have q: "u = q * 10 ^ 9 + u mod 10 ^ 9" using fmtFrac_int [OF f] by simp
  define s where "s = show_nat (q mod 60) @ fr @ ''s''"
  have last: "parse_items fm d s = Some (d + (q mod 60) * 10 ^ 9 + u mod 10 ^ 9)"
    if "d + (q mod 60) * 10 ^ 9 + u mod 10 ^ 9 \<le> 2 ^ 63" for d
    unfolding s_def using parse_last [OF ex _ m(4) _ that f] units by simp
  define t where "t = show_nat (q div 60 mod 60) @ ''m'' @ s"
  have ni: "next_item s" "next_item t" by (simp_all add: s_def t_def next_item_show)
  have mid: "parse_items fm d t = Some u" if d: "d + (q div 60 mod 60) * (60 * 10 ^ 9) + (q mod 60) * 10 ^ 9 + u mod 10 ^ 9 = u" for d
  proof -
    have "parse_item fm t = Some ((q div 60 mod 60) * (60 * 10 ^ 9), s)"
      unfolding t_def using d u units by (intro parse_plain ni m) simp_all
    from parse_items_step [OF this, of d] show ?thesis using last d u(2) by simp
  qed
  have top: "parse_items fm 0 (show_nat (q div 60 div 60) @ ''h'' @ t) = Some u"
  proof -
    have e: "q div 60 div 60 * (3600 * 10 ^ 9) + (q div 60 mod 60) * (60 * 10 ^ 9) + (q mod 60) * 10 ^ 9 + u mod 10 ^ 9 = u"
    proof -
      have e: "q div 60 div 60 * 3600 + (q div 60 mod 60) * 60 + q mod 60 = q"
        using div_mult_mod_eq [of q 60] div_mult_mod_eq [of "q div 60" 60] by linarith
      have "a * (3600 * n) + b * (60 * n) + c * n + m = (a * 3600 + b * 60 + c) * n + m" for a b c m n :: nat
        by (simp add: algebra_simps)
      from trans [OF this, of "q div 60 div 60" "q div 60 mod 60" "q mod 60" "10 ^ 9" "u mod 10 ^ 9" u]
      show ?thesis unfolding e using q [symmetric] by blast
    qed
    have "parse_item fm (show_nat (q div 60 div 60) @ ''h'' @ t) = Some (q div 60 div 60 * (3600 * 10 ^ 9), t)"
      using e u units by (intro parse_plain ni m) simp_all
    from parse_items_step [OF this, of 0] show ?thesis using mid e u(2) by simp
  qed
  have big: "duration_body u = (if q div 60 = 0 then s else if q div 60 div 60 = 0 then t
      else show_nat (q div 60 div 60) @ ''h'' @ t)" if "\<not> u < 10 ^ 9"
    using that u(1) unfolding duration_body_def f prod.case Let_def s_def t_def by simp
  show ?thesis
  proof (cases "u < 10 ^ 9")
    case True
    then show ?thesis
      using u units m(1-3) parse_with_frac [OF ex, of "''ns''" 0 u] parse_with_frac [OF ex, of "micro @ ''s''" 3 u]
        parse_with_frac [OF ex, of "''ms''" 6 u] by (simp add: duration_body_def)
  next
    case False
    have "parse_items fm 0 s = Some u" if "q div 60 = 0"
    proof -
      have "q mod 60 = q" using that div_mult_mod_eq [of q 60] by simp
      then show ?thesis using last [of 0] q [symmetric] u(2) by simp
    qed
    moreover have "parse_items fm 0 t = Some u" if "q div 60 div 60 = 0"
    proof -
      have "(q div 60 mod 60) * 60 + q mod 60 = q"
        using that div_mult_mod_eq [of "q div 60" 60] div_mult_mod_eq [of q 60] by simp
      then have "(q div 60 mod 60) * (60 * n) + (q mod 60) * n = q * n" for n by (metis add_mult_distrib mult.assoc)
      then have "0 + (q div 60 mod 60) * (60 * 10 ^ 9) + (q mod 60) * 10 ^ 9 + u mod 10 ^ 9 = u"
        unfolding add_0 using q [symmetric] by metis
      then show ?thesis by (rule mid)
    qed
    ultimately show ?thesis using top unfolding big [OF False] by simp
  qed
qed

text \<open>Durations survive printing: what \<^verbatim>\<open>ParseDuration\<close> reads from the text
  that \<^verbatim>\<open>String\<close> prints is the same duration, for every 64-bit number of nanoseconds,
  whenever the floating-point multiplication of the parser is exact where its quotient is an
  integer and the product is below 2^53.\<close>

theorem duration_roundtrip:
  assumes "exact_product fm" "- (2 ^ 63) \<le> d" "d < 2 ^ 63"
  shows "ParseDuration fm (Duration_String d) = Some d"
proof -
  define u where "u = nat \<bar>d\<bar>"
  have u: "u \<le> 2 ^ 63" using assms(2,3) by (simp add: u_def)
  have body: "parse_items fm 0 (duration_body u) = Some u \<and> duration_body u \<noteq> ''0''"
  proof (cases "u = 0")
    case True
    have "show_nat 0 = ''0''" by code_simp
    then have "parse_items fm 0 ''0s'' = Some 0"
      using parse_with_frac [OF assms(1), of "''s''" 9 0] units
      by (simp add: with_frac_def unitMap_def micro_def fmtFrac_zero)
    then show ?thesis using True by (simp add: duration_body_def)
  next
    case False
    have "parse_items fm 0 ''0'' = None" by (simp add: parse_items.simps parse_item_def is_digit_def)
    then show ?thesis using parse_body [OF assms(1) _ u] False by auto
  qed
  then obtain c cs where b: "duration_body u = c # cs" "c \<noteq> CHR ''-''" "c \<noteq> CHR ''+''"
  proof (cases "duration_body u")
    case Nil
    then have "u = 0" using body by simp
    then show ?thesis using Nil by (simp add: duration_body_def)
  next
    case (Cons c cs)
    then have "parse_items fm 0 (c # cs) = Some u" using body by (simp only: Cons)
    then have "parse_item fm (c # cs) \<noteq> None" by (rule parse_items_Some)
    then have "c = CHR ''.'' \<or> is_digit c" by (rule contrapos_np) (simp add: parse_item_None)
    then have "c \<noteq> CHR ''-''" "c \<noteq> CHR ''+''" by (auto simp: is_digit_def)
    then show ?thesis by (rule that [OF Cons])
  qed
  show ?thesis
  proof (cases "d < 0")
    case True
    then have "Duration_String d = CHR ''-'' # duration_body u" by (simp add: Duration_String_def u_def)
    then show ?thesis using body b True by (simp add: ParseDuration_def u_def)
  next
    case False
    then have s: "Duration_String d = duration_body u" by (simp add: Duration_String_def u_def)
    have "u \<le> 2 ^ 63 - 1" "int u = d" using assms(3) False by (simp_all add: u_def)
    then show ?thesis using body b unfolding ParseDuration_def s by auto
  qed
qed

lemma fmtFrac_numeral: "fmtFrac (numeral k) v pr acc = fmtFrac (pred_numeral k) (v div 10) (pr \<or> v mod 10 \<noteq> 0)
    (if pr \<or> v mod 10 \<noteq> 0 then digit_char (v mod 10) # acc else acc)"
  unfolding numeral_eq_Suc [of k] fmtFrac.simps(2) Let_def by (rule refl)

lemma duration_roundtrip_witness:
  "Duration_String 90061500000000 = ''25h1m1.5s'' \<and> ParseDuration (\<lambda>f u s. f * u div s) ''25h1m1.5s'' = Some 90061500000000"
proof -
  have ex: "exact_product (\<lambda>f u s. f * u div s)" 
    unfolding exact_product_def by (intro allI impI, elim conjE, rule div_mult_swap [symmetric])
  have "show_nat 25 = ''25''" "show_nat 1 = ''1''" "digit_char 5 = CHR ''5''" by code_simp+
  then have "Duration_String 90061500000000 = ''25h1m1.5s''"
    by (simp add: Duration_String_def duration_body_def Let_def fmtFrac_numeral)
  then show ?thesis using duration_roundtrip [OF ex, of 90061500000000] by simp
qed

end
