(* ===== verification/WinConfig.thy ===== *)
theory WinConfig
  imports WinFiles Settings GoDuration
begin

text \<open>
  The Windows program's configuration (\<^verbatim>\<open>cmd/splitter/config_windows.go\<close>): the JSON file,
  the command line and what comes out of both.  The package \<^verbatim>\<open>encoding/json\<close> is a pair of
  functions, and the number of processors and the float multiplication of
  \<^verbatim>\<open>time.ParseDuration\<close> are arguments.
\<close>

section \<open>The file\<close>

text \<open>A pointer field is an option.\<close>

record engineJSONConfig =
  jSplitMode :: "string option"
  jSplitChunk :: "int option"
  jCollectTimeout :: "string option"
  jMaxBufferBytes :: "int option"
  jMaxHeldPackets :: "int option"
  jMaxSegmentPayload :: "int option"
  jWorkers :: "int option"
  jFlowIdleTimeout :: "string option"
  jGCInterval :: "string option"
  jMaxFlowsPerWorker :: "int option"
  jMaxReassemblyBytesPerWorker :: "int option"
  jMaxHeldBytesPerWorker :: "int option"
  jShutdownFailOpenTimeout :: "string option"
  jShutdownFailOpenMaxPackets :: "int option"
  jAdapterFlushTimeout :: "string option"

record winDivertJSONConfig =
  jFilter :: "string option"
  jQueueLen :: "u64 option"
  jQueueTimeMs :: "u64 option"
  jQueueSizeBytes :: "u64 option"
  jWinDivertDir :: "string option"
  jWinDivertSys :: "string option"
  jAutoInstallDriver :: "bool option"
  jAutoDownloadFiles :: "bool option"

record windowsJSONConfig =
  jEngine :: "engineJSONConfig option"
  jWinDivert :: "winDivertJSONConfig option"

record json_lib =
  unmarshal :: "string \<Rightarrow> werr + windowsJSONConfig"
  marshalIndent :: "windowsJSONConfig \<Rightarrow> werr + string"

record windowsCLIArgs = engine_flags +
  aFilter :: string
  aQueueLen :: u64
  aQueueTime :: u64
  aQueueSize :: u64
  aWinDivertDir :: string
  aWinDivertSys :: string
  aAutoInstall :: bool
  aAutoUninstall :: bool
  aAutoDownload :: bool
  aConfigPath :: string

definition defaultServiceConfigPath :: "whost \<Rightarrow> wlog \<Rightarrow> string" where
  "defaultServiceConfigPath w l = joinPath w (joinPath w (defaultProgramDataDir w l) ''gov-pass'') ''config.json''"

definition readWindowsJSONConfig :: "json_lib \<Rightarrow> whost \<Rightarrow> string \<Rightarrow> wlog \<Rightarrow> (werr + windowsJSONConfig) \<times> wlog" where
  "readWindowsJSONConfig js w path l = (case wdo w (ReadFile path) l of
     (Some e, l') \<Rightarrow> (Inl e, l') | (None, l') \<Rightarrow> (unmarshal js (outcome w l (ReadFile path)), l'))"

definition writeWindowsJSONConfigIfMissing :: "json_lib \<Rightarrow> whost \<Rightarrow> string \<Rightarrow> windowsJSONConfig \<Rightarrow> wlog \<Rightarrow> wstatus" where
  "writeWindowsJSONConfigIfMissing js w path cfg l = wthen (wdo w (MkdirAll (dirPath w path)) l) (\<lambda>l.
     case marshalIndent js cfg of Inl e \<Rightarrow> (Some e, l)
     | Inr b \<Rightarrow> (case wdo w (CreateNew path) l of
         (Some e, l) \<Rightarrow> (if werr_is e Exist then None else Some e, l)
       | (None, l) \<Rightarrow> with_defer [CloseOf path]
           (wthen (wdo w (WriteTo path (b @ [CHR 0x0A])) l) (wdo w (CloseOf path)))))"

section \<open>Applying a file\<close>

definition sbind :: "'e + 'a \<Rightarrow> ('a \<Rightarrow> 'e + 'b) \<Rightarrow> 'e + 'b" where
  "sbind r f = (case r of Inl e \<Rightarrow> Inl e | Inr x \<Rightarrow> f x)"

lemma sbind_simps [simp]: "sbind (Inl e) f = Inl e" "sbind (Inr x) f = f x"
  by (simp_all add: sbind_def)

lemma sbind_ok: "sbind r f = Inr y \<longleftrightarrow> (\<exists>x. r = Inr x \<and> f x = Inr y)"
  by (cases r) auto

definition set_opt :: "'a option \<Rightarrow> ('a \<Rightarrow> 'c \<Rightarrow> 'c) \<Rightarrow> 'c \<Rightarrow> 'c" where
  "set_opt v upd c = (case v of None \<Rightarrow> c | Some x \<Rightarrow> upd x c)"

text \<open>A text that is absent or blank.\<close>

definition given :: "string option \<Rightarrow> string option" where
  "given v = (case v of Some s \<Rightarrow> if TrimSpace s \<noteq> [] then Some s else None | None \<Rightarrow> None)"

definition set_mode :: "string option \<Rightarrow> config \<Rightarrow> werr + config" where
  "set_mode v c = (case given v of None \<Rightarrow> Inr c
     | Some s \<Rightarrow> (case parseSplitMode s of (_, Some m) \<Rightarrow> Inl (wrapped ''engine.split_mode: '' (Msg m))
                 | (mode, None) \<Rightarrow> Inr (c\<lparr>SplitMode := mode\<rparr>)))"

definition set_dur :: "(nat \<Rightarrow> nat \<Rightarrow> nat \<Rightarrow> nat) \<Rightarrow> string \<Rightarrow> string option \<Rightarrow> (int \<Rightarrow> config \<Rightarrow> config) \<Rightarrow> config \<Rightarrow> werr + config" where
  "set_dur fm label v upd c = (case given v of None \<Rightarrow> Inr c
     | Some s \<Rightarrow> (case ParseDuration fm s of None \<Rightarrow> Inl (wrapped (label @ '': '') (BadDuration s))
                 | Some d \<Rightarrow> Inr (upd d c)))"

definition applyEngineJSON :: "(nat \<Rightarrow> nat \<Rightarrow> nat \<Rightarrow> nat) \<Rightarrow> engineJSONConfig \<Rightarrow> config \<Rightarrow> werr + config" where
  "applyEngineJSON fm j c =
     sbind (set_mode (jSplitMode j) c) (\<lambda>c.
     sbind (set_dur fm ''engine.collect_timeout'' (jCollectTimeout j) (\<lambda>d c. c\<lparr>CollectTimeout := d\<rparr>)
       (set_opt (jSplitChunk j) (\<lambda>v c. c\<lparr>SplitChunk := v\<rparr>) c)) (\<lambda>c.
     sbind (set_dur fm ''engine.flow_idle_timeout'' (jFlowIdleTimeout j) (\<lambda>d c. c\<lparr>FlowIdleTimeout := d\<rparr>)
       (set_opt (jWorkers j) (\<lambda>v c. c\<lparr>WorkerCount := v\<rparr>)
       (set_opt (jMaxSegmentPayload j) (\<lambda>v c. c\<lparr>MaxSegmentPayload := v\<rparr>)
       (set_opt (jMaxHeldPackets j) (\<lambda>v c. c\<lparr>MaxHeldPackets := v\<rparr>)
       (set_opt (jMaxBufferBytes j) (\<lambda>v c. c\<lparr>MaxBufferBytes := v\<rparr>) c))))) (\<lambda>c.
     sbind (set_dur fm ''engine.gc_interval'' (jGCInterval j) (\<lambda>d c. c\<lparr>GCInterval := d\<rparr>) c) (\<lambda>c.
     sbind (set_dur fm ''engine.shutdown_fail_open_timeout'' (jShutdownFailOpenTimeout j) (\<lambda>d c. c\<lparr>ShutdownFailOpenTimeout := d\<rparr>)
       (set_opt (jMaxHeldBytesPerWorker j) (\<lambda>v c. c\<lparr>MaxHeldBytesPerWorker := v\<rparr>)
       (set_opt (jMaxReassemblyBytesPerWorker j) (\<lambda>v c. c\<lparr>MaxReassemblyBytesPerWorker := v\<rparr>)
       (set_opt (jMaxFlowsPerWorker j) (\<lambda>v c. c\<lparr>MaxFlowsPerWorker := v\<rparr>) c)))) (\<lambda>c.
     set_dur fm ''engine.adapter_flush_timeout'' (jAdapterFlushTimeout j) (\<lambda>d c. c\<lparr>AdapterFlushTimeout := d\<rparr>)
       (set_opt (jShutdownFailOpenMaxPackets j) (\<lambda>v c. c\<lparr>ShutdownFailOpenMaxPackets := v\<rparr>) c))))))"

definition applyWinDivertJSON :: "winDivertJSONConfig \<Rightarrow> windowsRunConfig \<Rightarrow> windowsRunConfig" where
  "applyWinDivertJSON j wc =
     set_opt (jAutoDownloadFiles j) (\<lambda>v c. c\<lparr>AutoDownloadFiles := v\<rparr>)
     (set_opt (jAutoInstallDriver j) (\<lambda>v c. c\<lparr>AutoInstallDriver := v\<rparr>)
     (set_opt (jWinDivertSys j) (\<lambda>v c. c\<lparr>WinDivertSys := TrimSpace v\<rparr>)
     (set_opt (jWinDivertDir j) (\<lambda>v c. c\<lparr>WinDivertDir := TrimSpace v\<rparr>)
     (set_opt (jQueueSizeBytes j) (\<lambda>v c. c\<lparr>AdapterOpts := (AdapterOpts c)\<lparr>QueueSize := v\<rparr>\<rparr>)
     (set_opt (jQueueTimeMs j) (\<lambda>v c. c\<lparr>AdapterOpts := (AdapterOpts c)\<lparr>QueueTime := v\<rparr>\<rparr>)
     (set_opt (jQueueLen j) (\<lambda>v c. c\<lparr>AdapterOpts := (AdapterOpts c)\<lparr>QueueLen := v\<rparr>\<rparr>)
     (set_opt (given (jFilter j)) (\<lambda>v c. c\<lparr>Filter := v\<rparr>) wc)))))))"

definition applyWindowsJSONConfig :: "(nat \<Rightarrow> nat \<Rightarrow> nat \<Rightarrow> nat) \<Rightarrow> config \<times> windowsRunConfig \<Rightarrow> windowsJSONConfig
    \<Rightarrow> werr + config \<times> windowsRunConfig" where
  "applyWindowsJSONConfig fm dst cfg = (case dst of (c, wc) \<Rightarrow>
     sbind (case jEngine cfg of None \<Rightarrow> Inr c | Some j \<Rightarrow> applyEngineJSON fm j c) (\<lambda>c.
       Inr (c, case jWinDivert cfg of None \<Rightarrow> wc | Some j \<Rightarrow> applyWinDivertJSON j wc)))"

definition windowsJSONConfigFromDefaults :: "config \<Rightarrow> windowsRunConfig \<Rightarrow> windowsJSONConfig" where
  "windowsJSONConfigFromDefaults c wc = \<lparr>
     jEngine = Some \<lparr>jSplitMode = Some (if SplitMode c = SplitModeImmediate then ''immediate'' else ''tls-hello''),
       jSplitChunk = Some (SplitChunk c), jCollectTimeout = Some (Duration_String (CollectTimeout c)),
       jMaxBufferBytes = Some (MaxBufferBytes c), jMaxHeldPackets = Some (MaxHeldPackets c),
       jMaxSegmentPayload = Some (MaxSegmentPayload c), jWorkers = Some (WorkerCount c),
       jFlowIdleTimeout = Some (Duration_String (FlowIdleTimeout c)), jGCInterval = Some (Duration_String (GCInterval c)),
       jMaxFlowsPerWorker = Some (MaxFlowsPerWorker c), jMaxReassemblyBytesPerWorker = Some (MaxReassemblyBytesPerWorker c),
       jMaxHeldBytesPerWorker = Some (MaxHeldBytesPerWorker c),
       jShutdownFailOpenTimeout = Some (Duration_String (ShutdownFailOpenTimeout c)),
       jShutdownFailOpenMaxPackets = Some (ShutdownFailOpenMaxPackets c),
       jAdapterFlushTimeout = Some (Duration_String (AdapterFlushTimeout c))\<rparr>,
     jWinDivert = Some \<lparr>jFilter = Some (Filter wc), jQueueLen = Some (QueueLen (AdapterOpts wc)),
       jQueueTimeMs = Some (QueueTime (AdapterOpts wc)), jQueueSizeBytes = Some (QueueSize (AdapterOpts wc)),
       jWinDivertDir = None, jWinDivertSys = None, jAutoInstallDriver = Some (AutoInstallDriver wc),
       jAutoDownloadFiles = Some (AutoDownloadFiles wc)\<rparr>\<rparr>"

section \<open>Defaults, checks and the command line\<close>

definition validateWindowsRunConfig :: "windowsRunConfig \<Rightarrow> string option" where
  "validateWindowsRunConfig wc = (if TrimSpace (Filter wc) = [] then Some ''filter is empty'' else None)"

definition defaultWinDivertFilter :: string where
  "defaultWinDivertFilter = ''outbound and ip and tcp.DstPort == 443''"

definition windowsDefaults :: "int \<Rightarrow> config \<times> windowsRunConfig" where
  "windowsDefaults cpus = (DefaultConfig cpus,
     \<lparr>Filter = defaultWinDivertFilter, AdapterOpts = \<lparr>QueueLen = 4096, QueueTime = 2000, QueueSize = 32 * 1024 * 1024\<rparr>,
      WinDivertDir = [], WinDivertSys = [], WinDivertSvcName = ''WinDivert'', AutoInstallDriver = True,
      AutoUninstallDriver = True, AutoDownloadFiles = True\<rparr>)"

definition set_if :: "bool \<Rightarrow> ('c \<Rightarrow> 'c) \<Rightarrow> 'c \<Rightarrow> 'c" where
  "set_if b f c = (if b then f c else c)"

definition override_mode :: "(string \<Rightarrow> bool) \<Rightarrow> windowsCLIArgs \<Rightarrow> config \<Rightarrow> werr + config" where
  "override_mode fs a c = (if fs ''split-mode'' then
     (case parseSplitMode (fSplitMode a) of (_, Some m) \<Rightarrow> Inl (wrapped ''invalid split-mode: '' (Msg m))
      | (mode, None) \<Rightarrow> Inr (c\<lparr>SplitMode := mode\<rparr>)) else Inr c)"

definition override_engine :: "(string \<Rightarrow> bool) \<Rightarrow> windowsCLIArgs \<Rightarrow> config \<Rightarrow> config" where
  "override_engine fs a c =
     set_if (fs ''adapter-flush-timeout'') (\<lambda>c. c\<lparr>AdapterFlushTimeout := fAdapterFlushTimeout a\<rparr>)
     (set_if (fs ''shutdown-fail-open-max-pkts'') (\<lambda>c. c\<lparr>ShutdownFailOpenMaxPackets := fShutdownMaxPkts a\<rparr>)
     (set_if (fs ''shutdown-fail-open-timeout'') (\<lambda>c. c\<lparr>ShutdownFailOpenTimeout := fShutdownTimeout a\<rparr>)
     (set_if (fs ''max-held-bytes-per-worker'') (\<lambda>c. c\<lparr>MaxHeldBytesPerWorker := fMaxHeldBytes a\<rparr>)
     (set_if (fs ''max-reassembly-bytes-per-worker'') (\<lambda>c. c\<lparr>MaxReassemblyBytesPerWorker := fMaxReassembly a\<rparr>)
     (set_if (fs ''max-flows-per-worker'') (\<lambda>c. c\<lparr>MaxFlowsPerWorker := fMaxFlows a\<rparr>)
     (set_if (fs ''gc-interval'') (\<lambda>c. c\<lparr>GCInterval := fGcInterval a\<rparr>)
     (set_if (fs ''flow-timeout'') (\<lambda>c. c\<lparr>FlowIdleTimeout := fFlowTimeout a\<rparr>)
     (set_if (fs ''workers'') (\<lambda>c. c\<lparr>WorkerCount := fWorkers a\<rparr>)
     (set_if (fs ''max-seg-payload'') (\<lambda>c. c\<lparr>MaxSegmentPayload := fMaxSegPayload a\<rparr>)
     (set_if (fs ''max-held-pkts'') (\<lambda>c. c\<lparr>MaxHeldPackets := fMaxHeld a\<rparr>)
     (set_if (fs ''max-buffer'') (\<lambda>c. c\<lparr>MaxBufferBytes := fMaxBuffer a\<rparr>)
     (set_if (fs ''collect-timeout'') (\<lambda>c. c\<lparr>CollectTimeout := fCollectTimeout a\<rparr>)
     (set_if (fs ''split-chunk'') (\<lambda>c. c\<lparr>SplitChunk := fSplitChunk a\<rparr>) c)))))))))))))"

definition override_win :: "(string \<Rightarrow> bool) \<Rightarrow> windowsCLIArgs \<Rightarrow> windowsRunConfig \<Rightarrow> windowsRunConfig" where
  "override_win fs a wc =
     set_if (fs ''auto-download-windivert'') (\<lambda>c. c\<lparr>AutoDownloadFiles := aAutoDownload a\<rparr>)
     (set_if (fs ''auto-uninstall'') (\<lambda>c. c\<lparr>AutoUninstallDriver := aAutoUninstall a\<rparr>)
     (set_if (fs ''auto-install'') (\<lambda>c. c\<lparr>AutoInstallDriver := aAutoInstall a\<rparr>)
     (set_if (fs ''windivert-sys'') (\<lambda>c. c\<lparr>WinDivertSys := aWinDivertSys a\<rparr>)
     (set_if (fs ''windivert-dir'') (\<lambda>c. c\<lparr>WinDivertDir := aWinDivertDir a\<rparr>)
     (set_if (fs ''queue-size'') (\<lambda>c. c\<lparr>AdapterOpts := (AdapterOpts c)\<lparr>QueueSize := aQueueSize a\<rparr>\<rparr>)
     (set_if (fs ''queue-time'') (\<lambda>c. c\<lparr>AdapterOpts := (AdapterOpts c)\<lparr>QueueTime := aQueueTime a\<rparr>\<rparr>)
     (set_if (fs ''queue-len'') (\<lambda>c. c\<lparr>AdapterOpts := (AdapterOpts c)\<lparr>QueueLen := aQueueLen a\<rparr>\<rparr>)
     (set_if (fs ''filter'') (\<lambda>c. c\<lparr>Filter := aFilter a\<rparr>) wc))))))))"

text \<open>From the values of the file (or the defaults) to the result: flags and checks.\<close>

definition settle :: "(string \<Rightarrow> bool) \<Rightarrow> windowsCLIArgs \<Rightarrow> bool \<Rightarrow> config \<times> windowsRunConfig \<Rightarrow> werr + config \<times> windowsRunConfig" where
  "settle fs a asService r = sbind (override_mode fs a (fst r)) (\<lambda>c0.
     let c = override_engine fs a c0; wc0 = override_win fs a (snd r);
         wc = (if asService then wc0\<lparr>AutoUninstallDriver := False\<rparr> else wc0)
     in case validateEngineConfig c of Some m \<Rightarrow> Inl (Msg m)
        | None \<Rightarrow> (case validateWindowsRunConfig wc of Some m \<Rightarrow> Inl (Msg m) | None \<Rightarrow> Inr (c, wc)))"

section \<open>All together\<close>

text \<open>The state of the program under \<^verbatim>\<open>ProgramData\<close> is made safe first.\<close>

definition secure_state :: "whost \<Rightarrow> bool \<Rightarrow> string \<Rightarrow> string \<Rightarrow> wlog \<Rightarrow> wstatus" where
  "secure_state w asService root configPath l = (
     if asService \<and> configPath \<noteq> [] \<and> isUnderDir w configPath root then
       wthen (wwrap ''secure ProgramData dir failed: '' (ensureSecureWindowsDir w root l)) (\<lambda>l.
         case present w configPath l of
           (True, l) \<Rightarrow> wwrap ''secure config file failed: '' (hardenWindowsFileACL w configPath l)
         | (False, l) \<Rightarrow> (None, l))
     else (None, l))"

text \<open>The first run as a service writes a template and goes on with the defaults.\<close>

definition first_run :: "json_lib \<Rightarrow> whost \<Rightarrow> string \<Rightarrow> string \<Rightarrow> config \<times> windowsRunConfig \<Rightarrow> wlog \<Rightarrow> wstatus" where
  "first_run js w root configPath d l =
     wthen (wwrap ''create default config failed: ''
         (writeWindowsJSONConfigIfMissing js w configPath (windowsJSONConfigFromDefaults (fst d) (snd d)) l)) (\<lambda>l.
       if isUnderDir w configPath root then wwrap ''secure config file failed: '' (hardenWindowsFileACL w configPath l)
       else (None, l))"

definition file_values :: "json_lib \<Rightarrow> (nat \<Rightarrow> nat \<Rightarrow> nat \<Rightarrow> nat) \<Rightarrow> whost \<Rightarrow> bool \<Rightarrow> bool \<Rightarrow> string \<Rightarrow> string
    \<Rightarrow> config \<times> windowsRunConfig \<Rightarrow> wlog \<Rightarrow> (werr + config \<times> windowsRunConfig) \<times> wlog" where
  "file_values js fm w asService usingDefaultPath root configPath d l = (
     if configPath = [] then (Inr d, l) else
     case readWindowsJSONConfig js w configPath l of
       (Inl e, l) \<Rightarrow>
         if werr_is e NotExist \<and> asService \<and> usingDefaultPath then
           (case first_run js w root configPath d l of (Some e, l) \<Rightarrow> (Inl e, l) | (None, l) \<Rightarrow> (Inr d, l))
         else (Inl (wrapped (''read config failed ('' @ configPath @ ''): '') e), l)
     | (Inr j, l) \<Rightarrow> (case applyWindowsJSONConfig fm d j of
         Inl e \<Rightarrow> (Inl (wrapped ''apply config failed: '' e), l) | Inr r \<Rightarrow> (Inr r, l)))"

definition config_path :: "whost \<Rightarrow> windowsCLIArgs \<Rightarrow> bool \<Rightarrow> wlog \<Rightarrow> string \<times> bool" where
  "config_path w a asService l = (let p = TrimSpace (aConfigPath a) in
     if p = [] \<and> asService then (defaultServiceConfigPath w l, True) else (p, False))"

definition effectiveWindowsConfig :: "json_lib \<Rightarrow> (nat \<Rightarrow> nat \<Rightarrow> nat \<Rightarrow> nat) \<Rightarrow> int \<Rightarrow> whost \<Rightarrow> windowsCLIArgs \<Rightarrow> (string \<Rightarrow> bool)
    \<Rightarrow> bool \<Rightarrow> wlog \<Rightarrow> (werr + config \<times> windowsRunConfig) \<times> wlog" where
  "effectiveWindowsConfig js fm cpus w a fs asService l = (
     case config_path w a asService l of (configPath, usingDefaultPath) \<Rightarrow>
     let root = programDataRoot w l in
     case secure_state w asService root configPath l of
       (Some e, l) \<Rightarrow> (Inl e, l)
     | (None, l) \<Rightarrow> (case file_values js fm w asService usingDefaultPath root configPath (windowsDefaults cpus) l of
         (Inl e, l) \<Rightarrow> (Inl e, l) | (Inr r, l) \<Rightarrow> (settle fs a asService r, l)))"

end
