(* ===== verification/WinDriver.thy ===== *)
theory WinDriver
  imports WinFiles
begin

text \<open>
  Installing and starting the WinDivert driver as a Windows service
  (\<^verbatim>\<open>internal/driver/driver_windows.go\<close>), by way of \<^verbatim>\<open>sc.exe\<close>.  The cleanup that
  \<^verbatim>\<open>Ensure\<close> returns as a closure is a record of what it captures.
\<close>

record driverConfig =
  Dir :: string
  SysName :: string
  ServiceName :: string
  AutoInstall :: bool
  AutoUninstall :: bool
  AutoStop :: bool

definition ErrAdminRequired :: werr where "ErrAdminRequired = Msg ''administrator privileges required''"
definition ErrDriverNotFound :: werr where "ErrDriverNotFound = Msg ''WinDivert driver sys not found''"

section \<open>Finding the driver\<close>

definition resolveDir :: "whost \<Rightarrow> string \<Rightarrow> wlog \<Rightarrow> (werr + string) \<times> wlog" where
  "resolveDir w dir l = (case (if dir = [] then (case exeFile w of Inl e \<Rightarrow> Inl e | Inr exe \<Rightarrow> Inr (dirPath w exe)) else Inr dir) of
     Inl e \<Rightarrow> (Inl e, l)
   | Inr d \<Rightarrow> (case wdo w (Stat d) l of (Some e, l) \<Rightarrow> (Inl e, l) | (None, l) \<Rightarrow> (Inr d, l)))"

fun first_present :: "whost \<Rightarrow> string list \<Rightarrow> wlog \<Rightarrow> (werr + string) \<times> wlog" where
  "first_present w [] l = (Inl ErrDriverNotFound, l)"
| "first_present w (p # ps) l = (case present w p l of (True, l) \<Rightarrow> (Inr p, l) | (False, l) \<Rightarrow> first_present w ps l)"

definition resolveSysPath :: "whost \<Rightarrow> string \<Rightarrow> string \<Rightarrow> wlog \<Rightarrow> (werr + string) \<times> wlog" where
  "resolveSysPath w dir name l =
     first_present w (map (joinPath w dir) (if name \<noteq> [] then [name] else [''WinDivert64.sys'', ''WinDivert.sys''])) l"

section \<open>The service manager\<close>

definition sc :: "string list \<Rightarrow> wop" where
  "sc args = Command ''sc.exe'' args"

definition runSC :: "whost \<Rightarrow> string list \<Rightarrow> wlog \<Rightarrow> (string \<times> werr option) \<times> wlog" where
  "runSC w args l = ((outcome w l (sc args), failure w l (sc args)), l @ [sc args])"

definition isServiceMissing :: "string \<Rightarrow> bool" where
  "isServiceMissing out \<longleftrightarrow> Contains (ToLower out) ''1060'' \<or> Contains (ToLower out) ''does not exist''"

definition isServiceNotRunning :: "string \<Rightarrow> bool" where
  "isServiceNotRunning out \<longleftrightarrow> Contains (ToLower out) ''1062'' \<or> Contains (ToLower out) ''not been started''"

definition upper_char :: "char \<Rightarrow> char" where
  "upper_char c = (let n = of_char c :: nat in if 97 \<le> n \<and> n \<le> 122 then char_of (n - 32) else c)"

definition ToUpper :: "string \<Rightarrow> string" where
  "ToUpper s = map upper_char s"

text \<open>Whether the service exists and runs.\<close>

definition queryService :: "whost \<Rightarrow> string \<Rightarrow> wlog \<Rightarrow> (werr + bool \<times> bool) \<times> wlog" where
  "queryService w name l = (case runSC w [''query'', name] l of
     ((out, Some e), l) \<Rightarrow> (if isServiceMissing out then Inr (False, False) else Inl e, l)
   | ((out, None), l) \<Rightarrow> (Inr (True, Contains (ToUpper out) ''RUNNING''), l))"

definition sc_only :: "whost \<Rightarrow> string list \<Rightarrow> wlog \<Rightarrow> wstatus" where
  "sc_only w args l = wdo w (sc args) l"

definition create_args :: "string \<Rightarrow> string \<Rightarrow> string list" where
  "create_args name sysPath = [''create'', name, ''type='', ''kernel'', ''start='', ''demand'', ''binPath='', sysPath]"

definition config_args :: "string \<Rightarrow> string \<Rightarrow> string list" where
  "config_args name sysPath = [''config'', name, ''start='', ''demand'', ''binPath='', sysPath]"

definition createService :: "whost \<Rightarrow> string \<Rightarrow> string \<Rightarrow> wlog \<Rightarrow> wstatus" where
  "createService w name sysPath = sc_only w (create_args name sysPath)"

definition configService :: "whost \<Rightarrow> string \<Rightarrow> string \<Rightarrow> wlog \<Rightarrow> wstatus" where
  "configService w name sysPath = sc_only w (config_args name sysPath)"

definition startService :: "whost \<Rightarrow> string \<Rightarrow> wlog \<Rightarrow> wstatus" where
  "startService w name = sc_only w [''start'', name]"

definition stopService :: "whost \<Rightarrow> string \<Rightarrow> wlog \<Rightarrow> wstatus" where
  "stopService w name l = (case runSC w [''stop'', name] l of ((out, e), l) \<Rightarrow>
     (if e \<noteq> None \<and> isServiceNotRunning out then None else e, l))"

definition deleteService :: "whost \<Rightarrow> string \<Rightarrow> wlog \<Rightarrow> wstatus" where
  "deleteService w name = sc_only w [''delete'', name]"

section \<open>The path of an installed service\<close>

text \<open>The text up to the first occurrence of a word, if it occurs.\<close>

fun before :: "string \<Rightarrow> string \<Rightarrow> string option" where
  "before [] p = (if p = [] then Some [] else None)"
| "before (c # s) p = (if HasPrefix (c # s) p then Some [] else map_option (Cons c) (before s p))"

definition trim_quotes :: "string \<Rightarrow> string" where
  "trim_quotes s = (let d = dropWhile (\<lambda>c. c = CHR 0x22) s in rev (dropWhile (\<lambda>c. c = CHR 0x22) (rev d)))"

definition nt_prefix :: string where
  "nt_prefix = [backslash, CHR ''?'', CHR ''?'', backslash]"

definition normalizeServicePath :: "string \<Rightarrow> string" where
  "normalizeServicePath raw = (
     let p0 = trim_quotes (TrimSpace raw);
         path = (if HasPrefix p0 nt_prefix then drop 4 p0 else p0)
     in case before (ToLower path) ''.sys'' of
          Some pre \<Rightarrow> take (length pre + 4) path
        | None \<Rightarrow> (case before path '' '' of Some pre \<Rightarrow> pre | None \<Rightarrow> path))"

text \<open>The first line with the path; the flag of \<^const>\<open>scan_lines\<close> is the scanner's error.\<close>

fun bin_path :: "string list \<Rightarrow> string option" where
  "bin_path [] = None"
| "bin_path (l # ls) = (let line = TrimSpace l in
     if HasPrefix line ''BINARY_PATH_NAME'' then
       (case after_char CHR '':'' line of Some rest \<Rightarrow> Some (normalizeServicePath (TrimSpace rest)) | None \<Rightarrow> bin_path ls)
     else bin_path ls)"

definition queryServiceBinPath :: "whost \<Rightarrow> string \<Rightarrow> wlog \<Rightarrow> (werr + string) \<times> wlog" where
  "queryServiceBinPath w name l = (case runSC w [''qc'', name] l of
     ((out, Some e), l) \<Rightarrow> (Inl e, l)
   | ((out, None), l) \<Rightarrow> (case scan_lines out of (ls, too_long) \<Rightarrow>
       (case bin_path ls of Some p \<Rightarrow> (Inr p, l)
        | None \<Rightarrow> (if too_long then Inl (Msg ''bufio.Scanner: token too long'') else Inr [], l))))"

section \<open>Ensure and its cleanup\<close>

record cleanup =
  cCreated :: bool
  cStarted :: bool
  cName :: string
  cUninstall :: bool
  cStop :: bool

text \<open>A service whose file is gone is set to the driver found now.\<close>

definition repoint :: "whost \<Rightarrow> string \<Rightarrow> string \<Rightarrow> wlog \<Rightarrow> wstatus" where
  "repoint w name sysPath l = (case queryServiceBinPath w name l of
     (Inr p, l) \<Rightarrow> if p = [] then (None, l) else
        (case present w p l of (True, l) \<Rightarrow> (None, l)
         | (False, l) \<Rightarrow> if \<not> isAdmin w then (Some ErrAdminRequired, l) else configService w name sysPath l)
   | (Inl _, l) \<Rightarrow> (None, l))"

definition install :: "whost \<Rightarrow> string \<Rightarrow> string \<Rightarrow> bool \<Rightarrow> wlog \<Rightarrow> wstatus" where
  "install w name sysPath found l = (if found then repoint w name sysPath l
     else if \<not> isAdmin w then (Some ErrAdminRequired, l) else createService w name sysPath l)"

definition start_if :: "whost \<Rightarrow> string \<Rightarrow> bool \<Rightarrow> wlog \<Rightarrow> wstatus" where
  "start_if w name running l = (if running then (None, l)
     else if \<not> isAdmin w then (Some ErrAdminRequired, l) else startService w name l)"

definition Ensure :: "whost \<Rightarrow> driverConfig \<Rightarrow> wlog \<Rightarrow> (werr + cleanup option) \<times> wlog" where
  "Ensure w c l = (if \<not> AutoInstall c then (Inr None, l) else
     let name = (if ServiceName c = [] then ''WinDivert'' else ServiceName c) in
     case resolveDir w (Dir c) l of (Inl e, l) \<Rightarrow> (Inl e, l)
   | (Inr dir, l) \<Rightarrow> (case resolveSysPath w dir (SysName c) l of (Inl e, l) \<Rightarrow> (Inl e, l)
   | (Inr sysPath, l) \<Rightarrow> (case queryService w name l of (Inl e, l) \<Rightarrow> (Inl e, l)
   | (Inr (found, running), l) \<Rightarrow> (case install w name sysPath found l of (Some e, l) \<Rightarrow> (Inl e, l)
   | (None, l) \<Rightarrow> (case start_if w name running l of (Some e, l) \<Rightarrow> (Inl e, l)
   | (None, l) \<Rightarrow> (Inr (Some \<lparr>cCreated = \<not> found, cStarted = \<not> running, cName = name, cUninstall = AutoUninstall c,
        cStop = AutoStop c\<rparr>), l))))))"

definition run_cleanup :: "whost \<Rightarrow> cleanup \<Rightarrow> wlog \<Rightarrow> wstatus" where
  "run_cleanup w k l = (
     if cCreated k \<and> cUninstall k then wthen (stopService w (cName k) l) (deleteService w (cName k))
     else if cStarted k \<and> cStop k then stopService w (cName k) l
     else (None, l))"

end
