(* ===== verification/WinFilesProps.thy ===== *)
theory WinFilesProps
  imports WinDriver
begin

text \<open>
  Properties of the driver files and the driver service: nothing is unpacked unless the
  download has the pinned sum; the directory of the program is never replaced by the one under
  \<^verbatim>\<open>ProgramData\<close> when it cannot be written; the cleanup touches only what the run has made.
\<close>

section \<open>Downloading\<close>

lemma wthen_cases:
  assumes "wthen r f = (e, l')"
  obtains (failed) x l where "r = (Some x, l)" "e = Some x" "l' = l" | (passed) l where "r = (None, l)" "f l = (e, l')"
  using assms by (cases r; cases "fst r") (auto simp: wthen_def)

text \<open>A file of the archive is in place: an entry with the right name, of those listed, was copied into
  a fresh temporary file, which was closed and renamed to the destination, and none of this
  failed.  The operations \<^term>\<open>k\<close> follow the history \<^term>\<open>l\<close>.\<close>

definition installed :: "whost \<Rightarrow> string list \<Rightarrow> wlog \<Rightarrow> wop list \<Rightarrow> string \<Rightarrow> string \<Rightarrow> bool" where
  "installed w ns l k name dest \<longleftrightarrow> (\<exists>a b entry dir pat t.
     k = a @ [CreateTemp dir pat, CopyEntry entry t, CloseOf t, RemoveFile dest, RenameFile t dest] @ b
     \<and> entry \<in> set ns \<and> is_x64 name entry \<and> t = outcome w (l @ a) (CreateTemp dir pat)
     \<and> failure w (l @ a) (CreateTemp dir pat) = None
     \<and> failure w (l @ a @ [CreateTemp dir pat]) (CopyEntry entry t) = None
     \<and> failure w (l @ a @ [CreateTemp dir pat, CopyEntry entry t]) (CloseOf t) = None
     \<and> failure w (l @ a @ [CreateTemp dir pat, CopyEntry entry t, CloseOf t, RemoveFile dest]) (RenameFile t dest) = None)"

text \<open>No renaming among the operations has failed.\<close>

definition rename_ok :: "whost \<Rightarrow> wlog \<Rightarrow> wop \<Rightarrow> bool" where
  "rename_ok w l op \<longleftrightarrow> (case op of RenameFile a b \<Rightarrow> failure w l op = None | _ \<Rightarrow> True)"

fun renames_ok :: "whost \<Rightarrow> wlog \<Rightarrow> wop list \<Rightarrow> bool" where
  "renames_ok w l [] = True"
| "renames_ok w l (op # k) = (rename_ok w l op \<and> renames_ok w (l @ [op]) k)"

lemma rename_ok_simps [simp]: "rename_ok w l (RenameFile a b) \<longleftrightarrow> failure w l (RenameFile a b) = None"
  "rename_ok w l (OpenEntry n)" "rename_ok w l (CloseEntry n)" "rename_ok w l (MkdirAll d)" "rename_ok w l (CreateTemp d p)"
  "rename_ok w l (CopyEntry n d)" "rename_ok w l (CloseOf d)" "rename_ok w l (RemoveFile d)" "rename_ok w l (OpenZip d)"
  "rename_ok w l (CloseZip d)" "rename_ok w l (HttpGet d)" "rename_ok w l (ReceiveInto d)" "rename_ok w l CloseBody"
  by (simp_all add: rename_ok_def)

lemma renames_ok_append [simp]: "renames_ok w l (j @ k) \<longleftrightarrow> renames_ok w l j \<and> renames_ok w (l @ j) k"
  by (induction j arbitrary: l) simp_all

lemma installed_inside: "installed w ns (l @ j) k name dest \<Longrightarrow> set ns \<subseteq> set ns' \<Longrightarrow> installed w ns' l (j @ k @ m) name dest"
proof -
  assume i: "installed w ns (l @ j) k name dest" and s: "set ns \<subseteq> set ns'"
  obtain a b entry dir pat t where k: "k = a @ [CreateTemp dir pat, CopyEntry entry t, CloseOf t, RemoveFile dest, RenameFile t dest] @ b"
    and e: "entry \<in> set ns" "is_x64 name entry" "t = outcome w ((l @ j) @ a) (CreateTemp dir pat)"
     "failure w ((l @ j) @ a) (CreateTemp dir pat) = None"
     "failure w ((l @ j) @ a @ [CreateTemp dir pat]) (CopyEntry entry t) = None"
     "failure w ((l @ j) @ a @ [CreateTemp dir pat, CopyEntry entry t]) (CloseOf t) = None"
     "failure w ((l @ j) @ a @ [CreateTemp dir pat, CopyEntry entry t, CloseOf t, RemoveFile dest]) (RenameFile t dest) = None"
    using i unfolding installed_def by blast
  show ?thesis
    unfolding installed_def
    by (rule exI [of _ "j @ a"], rule exI [of _ "b @ m"], rule exI [of _ entry], rule exI [of _ dir], rule exI [of _ pat], rule exI [of _ t])
      (use e(2-) subsetD [OF s e(1)] in \<open>simp add: k del: append_assoc add: append_assoc [symmetric]\<close>)
qed

lemmas installed_after = installed_inside [where m = "[]", simplified]
  and installed_before = installed_inside [where j = "[]", simplified]
  and installed_more = installed_inside [where j = "[]" and m = "[]", simplified]

lemma extract_log:
  assumes "extractZipFile w n dest l = (r, l')"
  shows "\<exists>k. l' = l @ k \<and> (r = None \<longrightarrow> renames_ok w l k \<and> (\<forall>name. is_x64 name n \<longrightarrow> installed w [n] l k name (TrimSpace dest)))"
proof (cases "r = None")
  case False
  then show ?thesis using assms
    by (auto simp: extractZipFile_def wthen_def with_defer_def Let_def wdo_def quietly_def split: if_splits option.splits)
next
  case True
  let ?d = "TrimSpace dest"
  let ?c = "CreateTemp (dirPath w ?d) (basePath w ?d @ ''.tmp-*'')"
  let ?a = "[OpenEntry n, MkdirAll (dirPath w ?d)]"
  let ?t = "outcome w (l @ ?a) ?c"
  have e: "l' = l @ ?a @ [?c, CopyEntry n ?t, CloseOf ?t, RemoveFile ?d, RenameFile ?t ?d] @ [CloseOf ?t, RemoveFile ?t, CloseEntry n]"
    "failure w (l @ ?a) ?c = None" "failure w (l @ ?a @ [?c]) (CopyEntry n ?t) = None"
    "failure w (l @ ?a @ [?c, CopyEntry n ?t]) (CloseOf ?t) = None"
    "failure w (l @ ?a @ [?c, CopyEntry n ?t, CloseOf ?t, RemoveFile ?d]) (RenameFile ?t ?d) = None"
    using assms True
    by (auto simp: extractZipFile_def wthen_def with_defer_def Let_def wdo_def quietly_def split: if_splits option.splits)
  have "installed w [n] l (?a @ [?c, CopyEntry n ?t, CloseOf ?t, RemoveFile ?d, RenameFile ?t ?d] @ [CloseOf ?t, RemoveFile ?t, CloseEntry n]) name ?d"
    if "is_x64 name n" for name
    unfolding installed_def using e(2-) that
    by (intro exI [of _ ?a] exI [of _ "[CloseOf ?t, RemoveFile ?t, CloseEntry n]"] exI [of _ n] exI [of _ "dirPath w ?d"]
        exI [of _ "basePath w ?d @ ''.tmp-*''"] exI [of _ ?t]) simp
  then show ?thesis using e by auto
qed

text \<open>The two files of the x64 driver.\<close>

definition dll_in :: "whost \<Rightarrow> string list \<Rightarrow> wlog \<Rightarrow> wop list \<Rightarrow> string \<Rightarrow> bool" where
  "dll_in w ns l k d = installed w ns l k ''windivert.dll'' (TrimSpace (joinPath w d ''WinDivert.dll''))"

definition sys_in :: "whost \<Rightarrow> string list \<Rightarrow> wlog \<Rightarrow> wop list \<Rightarrow> string \<Rightarrow> bool" where
  "sys_in w ns l k d = installed w ns l k ''windivert64.sys'' (TrimSpace (joinPath w d ''WinDivert64.sys''))"

lemma files_inside: assumes "set ns \<subseteq> set ns'"
  shows "dll_in w ns (l @ j) k d \<Longrightarrow> dll_in w ns' l (j @ k @ m) d" "sys_in w ns (l @ j) k d \<Longrightarrow> sys_in w ns' l (j @ k @ m) d"
  unfolding dll_in_def sys_in_def by (erule installed_inside [OF _ assms])+

lemmas files_after = files_inside [where m = "[]", simplified]
  and files_before = files_inside [where j = "[]", simplified]
  and files_more = files_inside [where j = "[]" and m = "[]", simplified]

lemma extract_dll:
  assumes "extractZipFile w n (joinPath w d ''WinDivert.dll'') l = (r, l')" "is_x64 ''windivert.dll'' n"
  shows "\<exists>k. l' = l @ k \<and> (r = None \<longrightarrow> renames_ok w l k \<and> dll_in w [n] l k d)"
  using extract_log [OF assms(1)] assms(2) unfolding dll_in_def by blast

lemma extract_sys:
  assumes "extractZipFile w n (joinPath w d ''WinDivert64.sys'') l = (r, l')" "is_x64 ''windivert64.sys'' n"
  shows "\<exists>k. l' = l @ k \<and> (r = None \<longrightarrow> renames_ok w l k \<and> sys_in w [n] l k d)"
  using extract_log [OF assms(1)] assms(2) unfolding sys_in_def by blast

lemma extract_all_log:
  assumes "extract_all w d ns (dll, sys) l = (r, l')"
  shows "\<exists>k. l' = l @ k \<and> (\<forall>dll' sys'. r = Inr (dll', sys') \<longrightarrow> renames_ok w l k
    \<and> (dll' \<longrightarrow> dll \<or> dll_in w ns l k d) \<and> (sys' \<longrightarrow> sys \<or> sys_in w ns l k d))"
  using assms
proof (induction ns arbitrary: dll sys l)
  case (Cons n ns)
  have sub: "set ns \<subseteq> set (n # ns)" "set [n] \<subseteq> set (n # ns)" by auto
  consider (dll) "is_x64 ''windivert.dll'' n" | (sys) "\<not> is_x64 ''windivert.dll'' n" "is_x64 ''windivert64.sys'' n"
    | (other) "\<not> is_x64 ''windivert.dll'' n" "\<not> is_x64 ''windivert64.sys'' n" by blast
  then show ?case
  proof cases
    case dll
    obtain e l1 where x: "extractZipFile w n (joinPath w d ''WinDivert.dll'') l = (e, l1)" by force
    obtain k1 where k1: "l1 = l @ k1" "e = None \<longrightarrow> renames_ok w l k1 \<and> dll_in w [n] l k1 d"
      using extract_dll [OF x dll] by blast
    show ?thesis
    proof (cases e)
      case None
      then have "extract_all w d ns (True, sys) l1 = (r, l')" using Cons.prems dll x by simp
      then obtain k2 where "l' = l1 @ k2" "\<forall>dll' sys'. r = Inr (dll', sys') \<longrightarrow> renames_ok w l1 k2 \<and> (sys' \<longrightarrow> sys \<or> sys_in w ns l1 k2 d)"
        using Cons.IH by blast
      then show ?thesis using k1 None files_after [OF sub(1)] files_before [OF sub(2)]
        by (intro exI [of _ "k1 @ k2"]) auto
    qed (use k1(1) Cons.prems dll x in auto)
  next
    case sys
    obtain e l1 where x: "extractZipFile w n (joinPath w d ''WinDivert64.sys'') l = (e, l1)" by force
    obtain k1 where k1: "l1 = l @ k1" "e = None \<longrightarrow> renames_ok w l k1 \<and> sys_in w [n] l k1 d"
      using extract_sys [OF x sys(2)] by blast
    show ?thesis
    proof (cases e)
      case None
      then have "extract_all w d ns (dll, True) l1 = (r, l')" using Cons.prems sys x by simp
      then obtain k2 where "l' = l1 @ k2" "\<forall>dll' sys'. r = Inr (dll', sys') \<longrightarrow> renames_ok w l1 k2 \<and> (dll' \<longrightarrow> dll \<or> dll_in w ns l1 k2 d)"
        using Cons.IH by blast
      then show ?thesis using k1 None files_after [OF sub(1)] files_before [OF sub(2)]
        by (intro exI [of _ "k1 @ k2"]) auto
    qed (use k1(1) Cons.prems sys x in auto)
  next
    case other
    then have "extract_all w d ns (dll, sys) l = (r, l')" using Cons.prems by simp
    then obtain k where k: "l' = l @ k" "\<forall>dll' sys'. r = Inr (dll', sys') \<longrightarrow> renames_ok w l k
      \<and> (dll' \<longrightarrow> dll \<or> dll_in w ns l k d) \<and> (sys' \<longrightarrow> sys \<or> sys_in w ns l k d)"
      using Cons.IH by blast
    show ?thesis using k(2) files_more [OF sub(1), of w l k d] by (intro exI [of _ k] conjI [OF k(1)]) blast
  qed
qed auto

lemma missing_file_None: "missing_file sf found = None \<longleftrightarrow> fst found \<and> snd found"
  by (cases found) (auto simp: missing_file_def Let_def)

text \<open>Both files of the x64 driver are in place in the directory.\<close>

definition placed :: "whost \<Rightarrow> string list \<Rightarrow> wlog \<Rightarrow> wop list \<Rightarrow> string \<Rightarrow> bool" where
  "placed w ns l k d \<longleftrightarrow> dll_in w ns l k d \<and> sys_in w ns l k d"

lemma placed_inside: "placed w ns (l @ j) k d \<Longrightarrow> placed w ns l (j @ k @ m) d"
  unfolding placed_def using files_inside [OF subset_refl] by blast

lemma unpack_log:
  assumes "unpack sf w d tmp l = (r, l')"
  shows "\<exists>k. l' = l @ k \<and> (r = None \<longrightarrow> renames_ok w l k \<and> placed w (zipNames w l tmp) l k d)"
proof -
  obtain x l1 where x: "extract_all w d (zipNames w l tmp) (False, False) l = (x, l1)" by force
  then show ?thesis
    using extract_all_log [OF x] assms by (cases x) (auto simp: unpack_def missing_file_None placed_def)
qed

text \<open>The operations up to the end of the transfer.\<close>

definition transfer :: "whost \<Rightarrow> string \<Rightarrow> string \<Rightarrow> wop list" where
  "transfer w d tmp = [MkdirAll d, CreateTemp d ''windivert-*.zip'', HttpGet winDivertZipURL, ReceiveInto tmp, CloseOf tmp]"

definition renames :: "wop list \<Rightarrow> bool" where
  "renames k \<longleftrightarrow> (\<exists>a b. RenameFile a b \<in> set k)"

lemma renames_simps [simp]: "\<not> renames []" "renames (x # k) \<longleftrightarrow> (\<exists>a b. x = RenameFile a b) \<or> renames k"
  "renames (j @ k) \<longleftrightarrow> renames j \<or> renames k"
  by (auto simp: renames_def)

lemma receive_log:
  assumes "receive w tmp l = (r, l')"
  shows "\<exists>k. l' = l @ k \<and> \<not> renames k \<and> (r = None \<longrightarrow> k = [ReceiveInto tmp, CloseOf tmp] \<and> statusCode w l = 200
    \<and> ToLower (receivedSum w l') = winDivertZipSHA256)"
  using assms
  by (auto simp: receive_def wthen_def wwrap_def wdo_def split: if_splits option.splits prod.splits)

text \<open>What follows once the temporary file exists.\<close>

definition fetch :: "bool \<Rightarrow> whost \<Rightarrow> string \<Rightarrow> string \<Rightarrow> wlog \<Rightarrow> wstatus" where
  "fetch sf w d tmp l = wthen (wdo w (HttpGet winDivertZipURL) l) (\<lambda>l. with_defer [CloseBody] (
     wthen (receive w tmp l) (\<lambda>l. wthen (wwrap ''open zip failed: '' (wdo w (OpenZip tmp) l)) (\<lambda>l.
       with_defer [CloseZip tmp] (unpack sf w d tmp l)))))"

lemma fetch_log:
  assumes "fetch sf w d tmp l = (r, l')"
  shows "\<exists>k. l' = l @ k \<and> (renames k \<longrightarrow> take 3 k = [HttpGet winDivertZipURL, ReceiveInto tmp, CloseOf tmp]
        \<and> statusCode w (l @ [HttpGet winDivertZipURL]) = 200
        \<and> ToLower (receivedSum w (l @ [HttpGet winDivertZipURL, ReceiveInto tmp, CloseOf tmp])) = winDivertZipSHA256)
    \<and> (r = None \<longrightarrow> renames_ok w l k
        \<and> placed w (zipNames w (l @ [HttpGet winDivertZipURL, ReceiveInto tmp, CloseOf tmp, OpenZip tmp]) tmp) l k d)"
proof -
  let ?l = "l @ [HttpGet winDivertZipURL]"
  obtain r1 l1 where rec: "receive w tmp ?l = (r1, l1)" by force
  obtain k1 where k1: "l1 = ?l @ k1" "\<not> renames k1" "r1 = None \<longrightarrow> k1 = [ReceiveInto tmp, CloseOf tmp] \<and> statusCode w ?l = 200
      \<and> ToLower (receivedSum w l1) = winDivertZipSHA256"
    using receive_log [OF rec] by blast
  obtain r2 l2 where un: "unpack sf w d tmp (l1 @ [OpenZip tmp]) = (r2, l2)" by force
  obtain k2 where k2: "l2 = (l1 @ [OpenZip tmp]) @ k2" "r2 = None \<longrightarrow> renames_ok w (l1 @ [OpenZip tmp]) k2
        \<and> placed w (zipNames w (l1 @ [OpenZip tmp]) tmp) (l1 @ [OpenZip tmp]) k2 d"
    using unpack_log [OF un] by blast
  consider "r \<noteq> None" "l' = ?l" | "r \<noteq> None" "l' = ?l @ k1 @ [CloseBody]"
    | "r \<noteq> None" "r1 = None" "l' = ?l @ k1 @ [OpenZip tmp, CloseBody]"
    | "r = r2" "r1 = None" "l' = ?l @ k1 @ [OpenZip tmp] @ k2 @ [CloseZip tmp, CloseBody]"
    using assms rec un k1(1) k2(1) unfolding fetch_def
    by (elim wthen_cases) (auto simp: wwrap_def wdo_def with_defer_def wthen_def split: option.splits)
  then show ?thesis
  proof cases
    case 4
    then show ?thesis using k1 k2 placed_inside [of w _ l "HttpGet winDivertZipURL # k1 @ [OpenZip tmp]" k2 d "[CloseZip tmp, CloseBody]"]
      by auto
  qed (use k1 in auto)
qed

text \<open>C28. The download is tamper-evident and clean: a file is renamed into place only after the
  response had status 200 and what was received had the pinned SHA-256 sum; when the download
  succeeds every renaming has succeeded and both files of the x64 driver are in place: for each
  an entry of the received archive with its name was copied into a fresh temporary file, which
  was closed and renamed to the destination, all without an error; and the temporary file of
  the download, once created, is closed and removed last on every way out.\<close>

theorem download_pinned:
  assumes "DownloadWinDivertX64 sf w dest l = (r, l')"
  defines "d \<equiv> TrimSpace dest"
  defines "tmp \<equiv> outcome w (l @ [MkdirAll d]) (CreateTemp d ''windivert-*.zip'')"
  shows "\<exists>k. l' = l @ k
    \<and> (renames k \<longrightarrow> take 5 k = transfer w d tmp \<and> statusCode w (l @ take 3 k) = 200
        \<and> ToLower (receivedSum w (l @ transfer w d tmp)) = winDivertZipSHA256)
    \<and> (r = None \<longrightarrow> renames_ok w l k \<and> placed w (zipNames w (l @ transfer w d tmp @ [OpenZip tmp]) tmp) l k d)
    \<and> (2 < length k \<longrightarrow> drop (length k - 2) k = [CloseOf tmp, RemoveFile tmp])"
proof (cases "d = []")
  case True
  then show ?thesis using assms by (auto simp: DownloadWinDivertX64_def)
next
  case False
  let ?c = "CreateTemp d ''windivert-*.zip''"
  have D: "DownloadWinDivertX64 sf w dest l = wthen (wwrap ''create dest dir failed: '' (wdo w (MkdirAll d) l)) (\<lambda>l.
       wthen (wwrap ''create temp file failed: '' (wdo w ?c l))
         (\<lambda>l1. with_defer [CloseOf (outcome w l ?c), RemoveFile (outcome w l ?c)] (
            fetch sf w d (outcome w l ?c) l1)))"
    using False by (simp add: DownloadWinDivertX64_def fetch_def d_def Let_def)
  consider "r \<noteq> None" "l' = l @ [MkdirAll d]" | "r \<noteq> None" "l' = l @ [MkdirAll d, ?c]"
    | lb where "fetch sf w d tmp (l @ [MkdirAll d, ?c]) = (r, lb)" "l' = lb @ [CloseOf tmp, RemoveFile tmp]"
  proof (cases "failure w l (MkdirAll d)"; cases "failure w (l @ [MkdirAll d]) ?c")
    assume "failure w l (MkdirAll d) = None" "failure w (l @ [MkdirAll d]) ?c = None"
    then show ?thesis
      using assms(1) that(3) unfolding D
      by (cases "fetch sf w d tmp (l @ [MkdirAll d, ?c])") (auto simp: wdo_def tmp_def)
  qed (use assms(1) that(1,2) in \<open>auto simp: D wdo_def\<close>)
  then show ?thesis
  proof cases
    case 3
    obtain k where k: "lb = l @ [MkdirAll d, ?c] @ k" "renames k \<longrightarrow> take 3 k = [HttpGet winDivertZipURL, ReceiveInto tmp, CloseOf tmp]
        \<and> statusCode w (l @ [MkdirAll d, ?c, HttpGet winDivertZipURL]) = 200
        \<and> ToLower (receivedSum w (l @ transfer w d tmp)) = winDivertZipSHA256"
      "r = None \<longrightarrow> renames_ok w (l @ [MkdirAll d, ?c]) k
          \<and> placed w (zipNames w (l @ transfer w d tmp @ [OpenZip tmp]) tmp) (l @ [MkdirAll d, ?c]) k d"
      using fetch_log [OF 3(1)] by (auto simp: transfer_def)
    have n: "3 \<le> length k \<and> take (Suc 0) k = [a]" if "take 3 k = [a, b, c]" for a b c
      using arg_cong [OF that, of length] arg_cong [OF that, of "take 1"] by simp
    show ?thesis
      using k 3(2) n placed_inside [of w _ l "[MkdirAll d, ?c]" k d "[CloseOf tmp, RemoveFile tmp]"]
      by (intro exI [of _ "[MkdirAll d, ?c] @ k @ [CloseOf tmp, RemoveFile tmp]"]) (auto simp: transfer_def)
  qed (auto simp: transfer_def)
qed


text \<open>A machine on which everything works and the archive holds the two files.\<close>

definition good_machine :: whost where
  "good_machine = \<lparr>failure = (\<lambda>_ _. None), outcome = (\<lambda>_ op. case op of CreateTemp d p \<Rightarrow> d @ ''/tmp'' | _ \<Rightarrow> []),
     getenv = (\<lambda>_ _. []), exeFile = Inr ''C:/g/splitter.exe'', lookExe = (\<lambda>_ n. Inr n), isAdmin = True,
     cleanPath = (\<lambda>p. p), absPath = Some, joinPath = (\<lambda>a b. a @ CHR ''/'' # b), dirPath = (\<lambda>_. ''C:/g''), basePath = (\<lambda>p. p),
     statusCode = (\<lambda>_. 200), receivedSum = (\<lambda>_. winDivertZipSHA256), zipNames = (\<lambda>_ _. [''W/x64/WinDivert64.sys'', ''W/x64/WinDivert.dll'']),
     serviceState = (\<lambda>_. 1), clock = (\<lambda>l. 100 * int (length l)), elevated = True, systemDir = Inr ''C:/s''\<rparr>"

lemma download_pinned_witness:
  "\<exists>l'. DownloadWinDivertX64 True good_machine ''C:/g'' [] = (None, l')
    \<and> statusCode good_machine (take 3 l') = 200 \<and> drop (length l' - 2) l' = [CloseOf ''C:/g/tmp'', RemoveFile ''C:/g/tmp'']
    \<and> placed good_machine [''W/x64/WinDivert64.sys'', ''W/x64/WinDivert.dll''] [] l' ''C:/g''"
proof -
  have ok: "fst (DownloadWinDivertX64 True good_machine ''C:/g'' []) = None \<and> 2 < length (snd (DownloadWinDivertX64 True good_machine ''C:/g'' []))
    \<and> TrimSpace ''C:/g'' = ''C:/g''"
    by code_simp
  then obtain l' where d: "DownloadWinDivertX64 True good_machine ''C:/g'' [] = (None, l')" "2 < length l'"
    by (metis fst_conv snd_conv surj_pair)
  have "drop (length l' - 2) l' = [CloseOf ''C:/g/tmp'', RemoveFile ''C:/g/tmp'']
    \<and> placed good_machine [''W/x64/WinDivert64.sys'', ''W/x64/WinDivert.dll''] [] l' ''C:/g''"
    using download_pinned [OF d(1)] d(2) ok by (auto simp: good_machine_def)
  then show ?thesis using d by (auto simp: good_machine_def)
qed

lemma dropWhile_rev_trim: "dropWhile P (rev (dropWhile P (rev (dropWhile P s)))) = rev (dropWhile P (rev (dropWhile P s)))"
proof (cases "dropWhile P s")
  case (Cons a as)
  then have "\<not> P a" by (metis hd_dropWhile list.distinct(1) list.sel(1))
  then show ?thesis
    by (simp add: Cons dropWhile_append)
qed (simp add: dropWhile_eq_Nil_conv [THEN iffD2])

lemma TrimSpace_idem [simp]: "TrimSpace (TrimSpace s) = TrimSpace s"
  by (simp add: TrimSpace_def dropWhile_rev_trim)

section \<open>No way to the other directory\<close>

text \<open>C29. When the directory of the program cannot be written, so that the directory or the
  temporary file cannot be made, the download's error is reported and nothing else is tried,
  whatever the error is: the error is wrapped and \<^verbatim>\<open>os.IsPermission\<close> does not unwrap, so the
  directory under \<^verbatim>\<open>ProgramData\<close>, meant for this very case, is never used.\<close>

theorem unwritable_no_fallback:
  assumes "AutoDownloadFiles wc" "TrimSpace (WinDivertDir wc) = []" "TrimSpace exeDir \<noteq> []"
    and "HasWinDivertFiles w (TrimSpace exeDir) (WinDivertSys wc) l = (False, l1)"
    and "failure w l1 (MkdirAll (TrimSpace exeDir)) = Some e
      \<or> failure w l1 (MkdirAll (TrimSpace exeDir)) = None
        \<and> failure w (l1 @ [MkdirAll (TrimSpace exeDir)]) (CreateTemp (TrimSpace exeDir) ''windivert-*.zip'') = Some e"
  shows "\<exists>what l2. ensureWinDivertFiles sf w wc exeDir l = ((wc, TrimSpace exeDir, Some (wrapped what e)), l2)
    \<and> (l2 = l1 @ [MkdirAll (TrimSpace exeDir)]
      \<or> l2 = l1 @ [MkdirAll (TrimSpace exeDir), CreateTemp (TrimSpace exeDir) ''windivert-*.zip''])"
  using assms
  by (auto simp: ensureWinDivertFiles_def DownloadWinDivertX64_def Let_def wdo_def os_IsPermission_def wrapped_def)

definition locked_machine :: whost where
  "locked_machine = good_machine\<lparr>failure := \<lambda>_ op. case op of
     MkdirAll _ \<Rightarrow> Some (OsErr Permission) | Stat _ \<Rightarrow> Some (OsErr NotExist) | _ \<Rightarrow> None\<rparr>"

definition default_run :: windowsRunConfig where
  "default_run = \<lparr>Filter = [], AdapterOpts = \<lparr>QueueLen = 0, QueueTime = 0, QueueSize = 0\<rparr>, WinDivertDir = [], WinDivertSys = [],
     WinDivertSvcName = ''WinDivert'', AutoInstallDriver = True, AutoUninstallDriver = True, AutoDownloadFiles = True\<rparr>"

lemma unwritable_no_fallback_witness:
  "\<exists>what l2. ensureWinDivertFiles True locked_machine default_run ''C:/g'' [] =
     ((default_run, ''C:/g'', Some (wrapped what (OsErr Permission))), l2)"
proof -
  have h: "AutoDownloadFiles default_run" "TrimSpace (WinDivertDir default_run) = []" "TrimSpace ''C:/g'' = ''C:/g''"
    "HasWinDivertFiles locked_machine ''C:/g'' (WinDivertSys default_run) [] = (False, [Stat ''C:/g/WinDivert.dll''])"
    by code_simp+
  show ?thesis
    using unwritable_no_fallback [of default_run "''C:/g''" locked_machine "[]" "[Stat ''C:/g/WinDivert.dll'']" "OsErr Permission" True] h
    by (auto simp: locked_machine_def)
qed

section \<open>The driver service\<close>

fun changing :: "wop \<Rightarrow> bool" where
  "changing (Stat p) = False"
| "changing (Command exe args) = (exe \<noteq> ''sc.exe'' \<or> take 1 args \<noteq> [''query''] \<and> take 1 args \<noteq> [''qc''])"
| "changing _ = True"

lemma resolveDir_log:
  assumes "resolveDir w d l = (r, l')"
  shows "\<exists>k. l' = l @ k \<and> \<not> list_ex changing k"
  using assms by (auto simp: resolveDir_def wdo_def split: if_splits option.splits sum.splits)

lemma present_log: "present w p l = (b, l') \<Longrightarrow> l' = l @ [Stat p]"
  by (auto simp: present_def wdo_def)

lemma first_present_log: "first_present w ps l = (r, l') \<Longrightarrow> \<exists>k. l' = l @ k \<and> \<not> list_ex changing k"
proof (induction ps arbitrary: l)
  case (Cons p ps)
  then show ?case
    by (cases "present w p l"; cases "fst (present w p l)") (fastforce dest: present_log)+
qed simp

lemma queryService_log: "queryService w n l = (r, l') \<Longrightarrow> l' = l @ [sc [''query'', n]]"
  by (auto simp: queryService_def runSC_def split: if_splits option.splits)

lemma queryServiceBinPath_log: "queryServiceBinPath w n l = (r, l') \<Longrightarrow> l' = l @ [sc [''qc'', n]]"
  by (auto simp: queryServiceBinPath_def runSC_def split: if_splits option.splits prod.splits)

text \<open>Nothing is changed without the rights of an administrator.\<close>

definition permitted :: "whost \<Rightarrow> wop list \<Rightarrow> bool" where
  "permitted w k \<longleftrightarrow> isAdmin w \<or> \<not> list_ex changing k"

lemma permitted_simps [simp]: "permitted w []" "permitted w (j @ k) \<longleftrightarrow> permitted w j \<and> permitted w k"
  "permitted w (sc [''query'', n] # k) \<longleftrightarrow> permitted w k" "permitted w [sc [''qc'', n]]" "permitted w [Stat p]"
  "isAdmin w \<Longrightarrow> permitted w k" "\<not> list_ex changing k \<Longrightarrow> permitted w k"
  by (auto simp: permitted_def sc_def)

lemma repoint_log:
  assumes "repoint w n p l = (r, l')"
  shows "\<exists>k. l' = l @ k \<and> permitted w k"
proof -
  obtain q l1 where q: "queryServiceBinPath w n l = (q, l1)" by force
  obtain b l2 where b: "present w (projr q) l1 = (b, l2)" by force
  have "l' = l @ [sc [''qc'', n]] \<or> l' = l @ [sc [''qc'', n], Stat (projr q)]
      \<or> isAdmin w \<and> l' = l @ [sc [''qc'', n], Stat (projr q), sc (config_args n p)]"
    using assms queryServiceBinPath_log [OF q] present_log [OF b] b
    by (cases q; cases b) (auto simp: repoint_def q configService_def sc_only_def wdo_def split: if_splits)
  moreover have "permitted w [sc [''qc'', n], Stat (projr q)]"
    by (simp add: permitted_def sc_def)
  ultimately show ?thesis by auto
qed

lemma install_log:
  assumes "install w n p found l = (r, l')"
  shows "\<exists>k. l' = l @ k \<and> permitted w k \<and> (r = None \<and> \<not> found \<longrightarrow> sc (create_args n p) \<in> set k)"
proof (cases found)
  case True
  then show ?thesis using assms repoint_log [of w n p l] by (auto simp: install_def)
qed (use assms in \<open>auto simp: install_def createService_def sc_only_def wdo_def split: if_splits\<close>)

lemma start_if_log:
  assumes "start_if w n running l = (r, l')"
  shows "\<exists>k. l' = l @ k \<and> permitted w k \<and> (r = None \<and> \<not> running \<longrightarrow> sc [''start'', n] \<in> set k)"
  using assms by (auto simp: start_if_def startService_def sc_only_def wdo_def split: if_splits)

text \<open>What a successful \<^const>\<open>Ensure\<close> remembers about the operations it made.\<close>

definition owns :: "driverConfig \<Rightarrow> wop list \<Rightarrow> cleanup \<Rightarrow> bool" where
  "owns c k cl \<longleftrightarrow> cUninstall cl = AutoUninstall c \<and> cStop cl = AutoStop c
    \<and> (cCreated cl \<longrightarrow> (\<exists>p. sc (create_args (cName cl) p) \<in> set k)) \<and> (cStarted cl \<longrightarrow> sc [''start'', cName cl] \<in> set k)"

lemma Ensure_log:
  assumes "Ensure w c l = (r, l')"
  shows "\<exists>k. l' = l @ k \<and> permitted w k \<and> (\<forall>cl. r = Inr (Some cl) \<longrightarrow> owns c k cl)"
proof (cases "AutoInstall c")
  case True
  define n where "n = (if ServiceName c = [] then ''WinDivert'' else ServiceName c)"
  have E: "Ensure w c l = (case resolveDir w (Dir c) l of (Inl e, l) \<Rightarrow> (Inl e, l)
   | (Inr dir, l) \<Rightarrow> (case resolveSysPath w dir (SysName c) l of (Inl e, l) \<Rightarrow> (Inl e, l)
   | (Inr sysPath, l) \<Rightarrow> (case queryService w n l of (Inl e, l) \<Rightarrow> (Inl e, l)
   | (Inr (found, running), l) \<Rightarrow> (case install w n sysPath found l of (Some e, l) \<Rightarrow> (Inl e, l)
   | (None, l) \<Rightarrow> (case start_if w n running l of (Some e, l) \<Rightarrow> (Inl e, l)
   | (None, l) \<Rightarrow> (Inr (Some \<lparr>cCreated = \<not> found, cStarted = \<not> running, cName = n, cUninstall = AutoUninstall c,
        cStop = AutoStop c\<rparr>), l))))))"
    unfolding Ensure_def n_def Let_def using True by (simp only: not_True_eq_False if_False)
  obtain r1 l1 where 1: "resolveDir w (Dir c) l = (r1, l1)" by force
  obtain r2 l2 where 2: "resolveSysPath w (projr r1) (SysName c) l1 = (r2, l2)" by force
  obtain r3 l3 where 3: "queryService w n l2 = (r3, l3)" by force
  obtain r4 l4 where 4: "install w n (projr r2) (fst (projr r3)) l3 = (r4, l4)" by force
  obtain r5 l5 where 5: "start_if w n (snd (projr r3)) l4 = (r5, l5)" by force
  obtain k1 k2 where k: "l1 = l @ k1" "permitted w k1" "l2 = l1 @ k2" "permitted w k2"
    using resolveDir_log [OF 1] first_present_log [OF 2 [unfolded resolveSysPath_def]] by auto
  note k3 = queryService_log [OF 3]
  obtain k4 where k4: "l4 = l3 @ k4" "permitted w k4" "r4 = None \<and> \<not> fst (projr r3) \<longrightarrow> sc (create_args n (projr r2)) \<in> set k4"
    using install_log [OF 4] by auto
  obtain k5 where k5: "l5 = l4 @ k5" "permitted w k5" "r5 = None \<and> \<not> snd (projr r3) \<longrightarrow> sc [''start'', n] \<in> set k5"
    using start_if_log [OF 5] by auto
  consider "\<nexists>x. r = Inr x" "l' = l1" | "\<nexists>x. r = Inr x" "l' = l2" | "\<nexists>x. r = Inr x" "l' = l3" | "\<nexists>x. r = Inr x" "l' = l4"
    | "\<nexists>x. r = Inr x" "l' = l5"
    | "r4 = None" "r5 = None" "l' = l5" "r = Inr (Some \<lparr>cCreated = \<not> fst (projr r3), cStarted = \<not> snd (projr r3), cName = n,
          cUninstall = AutoUninstall c, cStop = AutoStop c\<rparr>)"
    using assms 1 2 3 4 5 unfolding E
    by (cases r1; simp; cases r2; simp; cases r3; clarsimp; cases r4; simp; cases r5; force)
  then show ?thesis
  proof cases
    case 6
    have "owns c (k4 @ k5) \<lparr>cCreated = \<not> fst (projr r3), cStarted = \<not> snd (projr r3), cName = n,
          cUninstall = AutoUninstall c, cStop = AutoStop c\<rparr>"
      using 6 k4(3) k5(3) by (auto simp: owns_def)
    then show ?thesis
      using 6 k k3 k4(1,2) k5(1,2) by (intro exI [of _ "k1 @ k2 @ [sc [''query'', n]] @ k4 @ k5"]) (auto simp: owns_def)
  qed (use k k3 k4(1,2) k5(1,2) in auto)
qed (use assms in \<open>auto simp: Ensure_def\<close>)

lemma stopService_eq: "\<exists>e. stopService w n m = (e, m @ [sc [''stop'', n]])"
  by (simp add: stopService_def runSC_def)

lemma run_cleanup_log:
  "\<exists>e u. run_cleanup w cl m = (e, m @ u) \<and> set u \<subseteq> {sc [''stop'', cName cl], sc [''delete'', cName cl]}
    \<and> (sc [''delete'', cName cl] \<in> set u \<longrightarrow> cCreated cl \<and> cUninstall cl)
    \<and> (u \<noteq> [] \<longrightarrow> cCreated cl \<and> cUninstall cl \<or> cStarted cl \<and> cStop cl)"
proof -
  obtain e where e: "stopService w (cName cl) m = (e, m @ [sc [''stop'', cName cl]])" using stopService_eq by blast
  show ?thesis
    by (cases e) (auto simp: run_cleanup_def e deleteService_def sc_only_def wdo_def sc_def)
qed

text \<open>C30. The driver service is changed only by an administrator, and the cleanup undoes only
  what the run has done itself: its operations are a stop and a deletion of the service; it is
  deleted only if this run created it and automatic uninstallation is on, and stopped only in
  that case or if this run started it and automatic stopping is on.  A service found running is
  left alone.\<close>

theorem driver_service_owned:
  assumes "Ensure w c l = (r, l')"
  shows "\<exists>k. l' = l @ k \<and> (\<not> isAdmin w \<longrightarrow> \<not> list_ex changing k)
    \<and> (\<forall>cl w2 m. r = Inr (Some cl) \<longrightarrow> (\<exists>e u. run_cleanup w2 cl m = (e, m @ u)
      \<and> set u \<subseteq> {sc [''stop'', cName cl], sc [''delete'', cName cl]}
      \<and> (sc [''delete'', cName cl] \<in> set u \<longrightarrow> AutoUninstall c \<and> (\<exists>p. sc (create_args (cName cl) p) \<in> set k))
      \<and> (u \<noteq> [] \<longrightarrow> AutoUninstall c \<and> (\<exists>p. sc (create_args (cName cl) p) \<in> set k)
          \<or> AutoStop c \<and> sc [''start'', cName cl] \<in> set k)))"
proof -
  obtain k where k: "l' = l @ k" "permitted w k" "\<And>cl. r = Inr (Some cl) \<Longrightarrow> owns c k cl"
    using Ensure_log [OF assms] by blast
  have "\<exists>e u. run_cleanup w2 cl m = (e, m @ u)
      \<and> set u \<subseteq> {sc [''stop'', cName cl], sc [''delete'', cName cl]}
      \<and> (sc [''delete'', cName cl] \<in> set u \<longrightarrow> AutoUninstall c \<and> (\<exists>p. sc (create_args (cName cl) p) \<in> set k))
      \<and> (u \<noteq> [] \<longrightarrow> AutoUninstall c \<and> (\<exists>p. sc (create_args (cName cl) p) \<in> set k)
          \<or> AutoStop c \<and> sc [''start'', cName cl] \<in> set k)" if "r = Inr (Some cl)" for cl w2 m
    using run_cleanup_log [of w2 cl m] k(3) [OF that] unfolding owns_def by blast
  then show ?thesis using k(1,2) by (auto simp: permitted_def)
qed

text \<open>On a machine where the service is missing, it is created, started, stopped and deleted.\<close>

definition bare_machine :: whost where
  "bare_machine = good_machine
     \<lparr>failure := \<lambda>_ op. if op = sc [''query'', ''WinDivert''] then Some (OsErr (OtherOs 1060)) else None,
      outcome := \<lambda>_ op. if op = sc [''query'', ''WinDivert''] then ''FAILED 1060:'' else []\<rparr>"

definition bare_config :: driverConfig where
  "bare_config = \<lparr>Dir = ''C:/g'', SysName = [], ServiceName = [], AutoInstall = True, AutoUninstall = True, AutoStop = True\<rparr>"

lemma driver_service_owned_witness:
  "\<exists>cl l'. Ensure bare_machine bare_config [] = (Inr (Some cl), l')
    \<and> run_cleanup bare_machine cl l' = (None, l' @ [sc [''stop'', ''WinDivert''], sc [''delete'', ''WinDivert'']])
    \<and> (\<exists>p. sc (create_args ''WinDivert'' p) \<in> set l')"
proof -
  obtain l' where E: "Ensure bare_machine bare_config [] = (Inr (Some \<lparr>cCreated = True, cStarted = True, cName = ''WinDivert'',
      cUninstall = True, cStop = True\<rparr>), l')" (is "_ = (Inr (Some ?cl), _)")
    by (simp add: Ensure_def Let_def bare_config_def bare_machine_def good_machine_def resolveDir_def wdo_def resolveSysPath_def
        present_def queryService_def runSC_def isServiceMissing_def sc_def install_def createService_def sc_only_def
        create_args_def start_if_def startService_def HasPrefix_def ToLower_def lower_char_def)
  have c: "run_cleanup bare_machine ?cl l' = (None, l' @ [sc [''stop'', ''WinDivert''], sc [''delete'', ''WinDivert'']])"
    by (simp add: run_cleanup_def stopService_def runSC_def deleteService_def sc_only_def wdo_def bare_machine_def
        good_machine_def sc_def)
  then have "\<exists>p. sc (create_args ''WinDivert'' p) \<in> set l'"
    using driver_service_owned [OF E] by (auto simp: sc_def dest!: spec [of _ bare_machine] spec [of _ l'])
  then show ?thesis using E c by auto
qed

section \<open>Two defects\<close>

text \<open>The path of an installed driver is cut at the first \<^verbatim>\<open>.sys\<close>, also inside the name of
  a directory; the file then looks missing and the service is configured again.\<close>

lemma service_path_cut: "normalizeServicePath ''C:/my.system/WinDivert64.sys'' = ''C:/my.sys''"
  by code_simp

text \<open>A service that was created but could not be started is left behind: there is no cleanup.\<close>

lemma created_service_leaks:
  assumes "start_if w n False l4 = (Some e, l5)" "install w n p False l3 = (None, l4)" "queryService w n l2 = (Inr (False, False), l3)"
    and "resolveDir w (Dir c) l = (Inr d, l1)" "resolveSysPath w d (SysName c) l1 = (Inr p, l2)" "AutoInstall c" "ServiceName c = n" "n \<noteq> []"
  shows "\<exists>k. Ensure w c l = (Inl e, l @ k) \<and> sc (create_args n p) \<in> set k"
proof -
  obtain k1 k2 k4 k5 where "l1 = l @ k1" "l2 = l1 @ k2" "l4 = l3 @ k4" "sc (create_args n p) \<in> set k4" "l5 = l4 @ k5"
    using resolveDir_log [OF assms(4)] first_present_log [OF assms(5) [unfolded resolveSysPath_def]] install_log [OF assms(2)]
      start_if_log [OF assms(1)] by blast
  moreover have "l3 = l2 @ [sc [''query'', n]]" using assms(3) by (rule queryService_log)
  ultimately show ?thesis using assms by (simp add: Ensure_def)
qed

end
