(* ===== verification/WinConfigProps.thy ===== *)
theory WinConfigProps
  imports WinConfig WinFilesProps
begin

text \<open>
  Properties of the Windows configuration: the template that the first service run writes reads
  back to the configuration it was made from, and where each setting comes from.
\<close>

section \<open>The template\<close>

lemma TrimSpace_Nil: "TrimSpace s = [] \<longleftrightarrow> (\<forall>c\<in>set s. is_space c)"
  by (simp add: TrimSpace_def dropWhile_eq_Nil_conv) (metis dropWhile_eq_Nil_conv in_set_conv_decomp set_dropWhileD dropWhile_eq_self_iff hd_dropWhile list.set_sel(1))

lemma duration_body_s: "CHR ''s'' \<in> set (duration_body u)"
  by (cases "fmtFrac 3 u False []"; cases "fmtFrac 6 u False []"; cases "fmtFrac 9 u False []")
    (auto simp: duration_body_def with_frac_def Let_def)

lemma given_duration [simp]: "given (Some (Duration_String d)) = Some (Duration_String d)"
proof -
  have "CHR ''s'' \<in> set (Duration_String d)" by (simp add: Duration_String_def duration_body_s)
  then show ?thesis by (auto simp: given_def TrimSpace_Nil is_space_def)
qed

definition int64 :: "int \<Rightarrow> bool" where
  "int64 d \<longleftrightarrow> - (2 ^ 63) \<le> d \<and> d < 2 ^ 63"

lemma set_dur_printed:
  assumes "exact_product fm" "int64 d"
  shows "set_dur fm label (Some (Duration_String d)) upd c = Inr (upd d c)"
  using duration_roundtrip [OF assms(1)] assms(2) by (simp add: set_dur_def int64_def)

lemma set_mode_printed:
  assumes "m \<in> {SplitModeImmediate, SplitModeTLSHello}"
  shows "set_mode (Some (if m = SplitModeImmediate then ''immediate'' else ''tls-hello'')) c = Inr (c\<lparr>SplitMode := m\<rparr>)"
  using assms
  by (auto simp: set_mode_def given_def TrimSpace_Nil is_space_def parseSplitMode_def ToLower_def lower_char_def
      SplitModeImmediate_def SplitModeTLSHello_def)

text \<open>C31. The configuration template reads back: for every engine configuration with a named
  split mode and durations of 64 bits, and every driver configuration whose filter is not
  blank, writing the template and applying it to any other configuration sets each setting that
  the file holds to the value it was written with, and leaves the four others (the size of the
  workers' queues, the directory and the name of the driver, its service) and the
  uninstallation alone.\<close>

theorem template_roundtrip:
  assumes "exact_product fm" "SplitMode c \<in> {SplitModeImmediate, SplitModeTLSHello}"
    and "list_all int64 [CollectTimeout c, FlowIdleTimeout c, GCInterval c, ShutdownFailOpenTimeout c, AdapterFlushTimeout c]"
    and "TrimSpace (Filter wc) \<noteq> []"
  shows "applyWindowsJSONConfig fm (c0, wc0) (windowsJSONConfigFromDefaults c wc) =
    Inr (c\<lparr>WorkerQueueSize := WorkerQueueSize c0\<rparr>,
      wc\<lparr>WinDivertDir := WinDivertDir wc0, WinDivertSys := WinDivertSys wc0, WinDivertSvcName := WinDivertSvcName wc0,
        AutoUninstallDriver := AutoUninstallDriver wc0\<rparr>)"
  using assms
  by (simp add: applyWindowsJSONConfig_def windowsJSONConfigFromDefaults_def applyEngineJSON_def set_mode_printed set_dur_printed
      set_opt_def applyWinDivertJSON_def given_def [of "Some (Filter wc)"])

lemma exact_div: "exact_product (\<lambda>f u s. f * u div s)"
  unfolding exact_product_def by (intro allI impI, elim conjE, rule div_mult_swap [symmetric])

lemma template_roundtrip_witness:
  "case windowsDefaults 8 of (c, wc) \<Rightarrow>
     applyWindowsJSONConfig (\<lambda>f u s. f * u div s) (c\<lparr>SplitChunk := 1, GCInterval := 1\<rparr>, wc\<lparr>Filter := ''true'', WinDivertDir := ''C:/d''\<rparr>)
       (windowsJSONConfigFromDefaults c wc) = Inr (c, wc\<lparr>WinDivertDir := ''C:/d''\<rparr>)"
proof -
  have "TrimSpace defaultWinDivertFilter \<noteq> []" by code_simp
  then show ?thesis
    using template_roundtrip [OF exact_div, of "fst (windowsDefaults 8)" "snd (windowsDefaults 8)"
      "(fst (windowsDefaults 8))\<lparr>SplitChunk := 1, GCInterval := 1\<rparr>" "(snd (windowsDefaults 8))\<lparr>Filter := ''true'', WinDivertDir := ''C:/d''\<rparr>"]
    by (simp add: windowsDefaults_def DefaultConfig_def int64_def Millisecond_def Second_def)
qed

section \<open>Where a setting comes from\<close>

text \<open>The flag given on the command line, else the value in the file, else the default.\<close>

definition pick :: "bool \<Rightarrow> 'a \<Rightarrow> 'a option \<Rightarrow> 'a \<Rightarrow> 'a" where
  "pick is_set arg file dflt = (if is_set then arg else case file of Some v \<Rightarrow> v | None \<Rightarrow> dflt)"

text \<open>The fields of a file's section that may be missing altogether.\<close>

definition engine_field :: "windowsJSONConfig \<Rightarrow> (engineJSONConfig \<Rightarrow> 'a option) \<Rightarrow> 'a option" where
  "engine_field j f = Option.bind (jEngine j) f"

definition win_field :: "windowsJSONConfig \<Rightarrow> (winDivertJSONConfig \<Rightarrow> 'a option) \<Rightarrow> 'a option" where
  "win_field j f = Option.bind (jWinDivert j) f"

definition dur :: "(nat \<Rightarrow> nat \<Rightarrow> nat \<Rightarrow> nat) \<Rightarrow> string option \<Rightarrow> int option" where
  "dur fm v = Option.bind (given v) (ParseDuration fm)"

definition mode :: "string option \<Rightarrow> split_mode option" where
  "mode v = map_option (\<lambda>s. fst (parseSplitMode s)) (given v)"

definition from_file :: "(nat \<Rightarrow> nat \<Rightarrow> nat \<Rightarrow> nat) \<Rightarrow> windowsJSONConfig \<Rightarrow> config \<times> windowsRunConfig \<Rightarrow> (string \<Rightarrow> bool) \<Rightarrow> windowsCLIArgs
    \<Rightarrow> config \<times> windowsRunConfig" where
  "from_file fm j d fs a = (case d of (c, wc) \<Rightarrow>
     (\<lparr>SplitMode = pick (fs ''split-mode'') (fst (parseSplitMode (fSplitMode a))) (mode (engine_field j jSplitMode)) (SplitMode c),
       SplitChunk = pick (fs ''split-chunk'') (fSplitChunk a) (engine_field j jSplitChunk) (SplitChunk c),
       CollectTimeout = pick (fs ''collect-timeout'') (fCollectTimeout a) (dur fm (engine_field j jCollectTimeout)) (CollectTimeout c),
       MaxBufferBytes = pick (fs ''max-buffer'') (fMaxBuffer a) (engine_field j jMaxBufferBytes) (MaxBufferBytes c),
       MaxHeldPackets = pick (fs ''max-held-pkts'') (fMaxHeld a) (engine_field j jMaxHeldPackets) (MaxHeldPackets c),
       MaxSegmentPayload = pick (fs ''max-seg-payload'') (fMaxSegPayload a) (engine_field j jMaxSegmentPayload) (MaxSegmentPayload c),
       MaxFlowsPerWorker = pick (fs ''max-flows-per-worker'') (fMaxFlows a) (engine_field j jMaxFlowsPerWorker) (MaxFlowsPerWorker c),
       MaxReassemblyBytesPerWorker = pick (fs ''max-reassembly-bytes-per-worker'') (fMaxReassembly a)
         (engine_field j jMaxReassemblyBytesPerWorker) (MaxReassemblyBytesPerWorker c),
       MaxHeldBytesPerWorker = pick (fs ''max-held-bytes-per-worker'') (fMaxHeldBytes a)
         (engine_field j jMaxHeldBytesPerWorker) (MaxHeldBytesPerWorker c),
       WorkerCount = pick (fs ''workers'') (fWorkers a) (engine_field j jWorkers) (WorkerCount c),
       WorkerQueueSize = WorkerQueueSize c,
       FlowIdleTimeout = pick (fs ''flow-timeout'') (fFlowTimeout a) (dur fm (engine_field j jFlowIdleTimeout)) (FlowIdleTimeout c),
       GCInterval = pick (fs ''gc-interval'') (fGcInterval a) (dur fm (engine_field j jGCInterval)) (GCInterval c),
       ShutdownFailOpenTimeout = pick (fs ''shutdown-fail-open-timeout'') (fShutdownTimeout a)
         (dur fm (engine_field j jShutdownFailOpenTimeout)) (ShutdownFailOpenTimeout c),
       ShutdownFailOpenMaxPackets = pick (fs ''shutdown-fail-open-max-pkts'') (fShutdownMaxPkts a)
         (engine_field j jShutdownFailOpenMaxPackets) (ShutdownFailOpenMaxPackets c),
       AdapterFlushTimeout = pick (fs ''adapter-flush-timeout'') (fAdapterFlushTimeout a)
         (dur fm (engine_field j jAdapterFlushTimeout)) (AdapterFlushTimeout c)\<rparr>,
      \<lparr>Filter = pick (fs ''filter'') (aFilter a) (given (win_field j jFilter)) (Filter wc),
       AdapterOpts = \<lparr>QueueLen = pick (fs ''queue-len'') (aQueueLen a) (win_field j jQueueLen) (QueueLen (AdapterOpts wc)),
         QueueTime = pick (fs ''queue-time'') (aQueueTime a) (win_field j jQueueTimeMs) (QueueTime (AdapterOpts wc)),
         QueueSize = pick (fs ''queue-size'') (aQueueSize a) (win_field j jQueueSizeBytes) (QueueSize (AdapterOpts wc))\<rparr>,
       WinDivertDir = pick (fs ''windivert-dir'') (aWinDivertDir a) (map_option TrimSpace (win_field j jWinDivertDir)) (WinDivertDir wc),
       WinDivertSys = pick (fs ''windivert-sys'') (aWinDivertSys a) (map_option TrimSpace (win_field j jWinDivertSys)) (WinDivertSys wc),
       WinDivertSvcName = WinDivertSvcName wc,
       AutoInstallDriver = pick (fs ''auto-install'') (aAutoInstall a) (win_field j jAutoInstallDriver) (AutoInstallDriver wc),
       AutoUninstallDriver = pick (fs ''auto-uninstall'') (aAutoUninstall a) None (AutoUninstallDriver wc),
       AutoDownloadFiles = pick (fs ''auto-download-windivert'') (aAutoDownload a) (win_field j jAutoDownloadFiles) (AutoDownloadFiles wc)\<rparr>))"

lemma set_opt_fields [simp]: "set_opt None u c = c" "set_opt (Some v) u c = u v c"
  by (simp_all add: set_opt_def)

lemma set_dur_ok: "set_dur fm label v upd c = Inr c' \<longleftrightarrow>
    c' = set_opt (dur fm v) upd c \<and> (given v = None \<or> dur fm v \<noteq> None)"
  by (auto simp: set_dur_def dur_def split: option.splits)

lemma set_mode_ok: "set_mode v c = Inr c' \<Longrightarrow> c' = set_opt (mode v) (\<lambda>m c. c\<lparr>SplitMode := m\<rparr>) c"
  by (auto simp: set_mode_def mode_def split: option.splits prod.splits)

text \<open>A chain of settings, each of which touches one field, as record updates.\<close>

definition flag_or :: "bool \<Rightarrow> 'a \<Rightarrow> 'a \<Rightarrow> 'a" where
  "flag_or b x y = (if b then x else y)"

definition orelse :: "'a option \<Rightarrow> 'a \<Rightarrow> 'a" where
  "orelse v y = (case v of Some x \<Rightarrow> x | None \<Rightarrow> y)"

lemma pick_eq: "pick b x v y = flag_or b x (orelse v y)"
  by (simp add: pick_def flag_or_def orelse_def)

lemma orelse_None: "orelse None y = y"
  by (simp add: orelse_def)

lemma opt_fields:
  "set_opt v1 (\<lambda>x c. c\<lparr>SplitMode := x\<rparr>) c = c\<lparr>SplitMode := orelse v1 (SplitMode c)\<rparr>"
  "set_opt v2 (\<lambda>x c. c\<lparr>SplitChunk := x\<rparr>) c = c\<lparr>SplitChunk := orelse v2 (SplitChunk c)\<rparr>"
  "set_opt v3 (\<lambda>x c. c\<lparr>CollectTimeout := x\<rparr>) c = c\<lparr>CollectTimeout := orelse v3 (CollectTimeout c)\<rparr>"
  "set_opt v4 (\<lambda>x c. c\<lparr>MaxBufferBytes := x\<rparr>) c = c\<lparr>MaxBufferBytes := orelse v4 (MaxBufferBytes c)\<rparr>"
  "set_opt v5 (\<lambda>x c. c\<lparr>MaxHeldPackets := x\<rparr>) c = c\<lparr>MaxHeldPackets := orelse v5 (MaxHeldPackets c)\<rparr>"
  "set_opt v6 (\<lambda>x c. c\<lparr>MaxSegmentPayload := x\<rparr>) c = c\<lparr>MaxSegmentPayload := orelse v6 (MaxSegmentPayload c)\<rparr>"
  "set_opt v7 (\<lambda>x c. c\<lparr>MaxFlowsPerWorker := x\<rparr>) c = c\<lparr>MaxFlowsPerWorker := orelse v7 (MaxFlowsPerWorker c)\<rparr>"
  "set_opt v8 (\<lambda>x c. c\<lparr>MaxReassemblyBytesPerWorker := x\<rparr>) c = c\<lparr>MaxReassemblyBytesPerWorker := orelse v8 (MaxReassemblyBytesPerWorker c)\<rparr>"
  "set_opt v9 (\<lambda>x c. c\<lparr>MaxHeldBytesPerWorker := x\<rparr>) c = c\<lparr>MaxHeldBytesPerWorker := orelse v9 (MaxHeldBytesPerWorker c)\<rparr>"
  "set_opt v10 (\<lambda>x c. c\<lparr>WorkerCount := x\<rparr>) c = c\<lparr>WorkerCount := orelse v10 (WorkerCount c)\<rparr>"
  "set_opt v11 (\<lambda>x c. c\<lparr>FlowIdleTimeout := x\<rparr>) c = c\<lparr>FlowIdleTimeout := orelse v11 (FlowIdleTimeout c)\<rparr>"
  "set_opt v12 (\<lambda>x c. c\<lparr>GCInterval := x\<rparr>) c = c\<lparr>GCInterval := orelse v12 (GCInterval c)\<rparr>"
  "set_opt v13 (\<lambda>x c. c\<lparr>ShutdownFailOpenTimeout := x\<rparr>) c = c\<lparr>ShutdownFailOpenTimeout := orelse v13 (ShutdownFailOpenTimeout c)\<rparr>"
  "set_opt v14 (\<lambda>x c. c\<lparr>ShutdownFailOpenMaxPackets := x\<rparr>) c = c\<lparr>ShutdownFailOpenMaxPackets := orelse v14 (ShutdownFailOpenMaxPackets c)\<rparr>"
  "set_opt v15 (\<lambda>x c. c\<lparr>AdapterFlushTimeout := x\<rparr>) c = c\<lparr>AdapterFlushTimeout := orelse v15 (AdapterFlushTimeout c)\<rparr>"
  by (simp_all add: set_opt_def orelse_def split: option.split)

lemma flag_fields:
  "set_if b (\<lambda>c. c\<lparr>SplitMode := x16\<rparr>) c = c\<lparr>SplitMode := flag_or b x16 (SplitMode c)\<rparr>"
  "set_if b (\<lambda>c. c\<lparr>SplitChunk := x17\<rparr>) c = c\<lparr>SplitChunk := flag_or b x17 (SplitChunk c)\<rparr>"
  "set_if b (\<lambda>c. c\<lparr>CollectTimeout := x18\<rparr>) c = c\<lparr>CollectTimeout := flag_or b x18 (CollectTimeout c)\<rparr>"
  "set_if b (\<lambda>c. c\<lparr>MaxBufferBytes := x19\<rparr>) c = c\<lparr>MaxBufferBytes := flag_or b x19 (MaxBufferBytes c)\<rparr>"
  "set_if b (\<lambda>c. c\<lparr>MaxHeldPackets := x20\<rparr>) c = c\<lparr>MaxHeldPackets := flag_or b x20 (MaxHeldPackets c)\<rparr>"
  "set_if b (\<lambda>c. c\<lparr>MaxSegmentPayload := x21\<rparr>) c = c\<lparr>MaxSegmentPayload := flag_or b x21 (MaxSegmentPayload c)\<rparr>"
  "set_if b (\<lambda>c. c\<lparr>MaxFlowsPerWorker := x22\<rparr>) c = c\<lparr>MaxFlowsPerWorker := flag_or b x22 (MaxFlowsPerWorker c)\<rparr>"
  "set_if b (\<lambda>c. c\<lparr>MaxReassemblyBytesPerWorker := x23\<rparr>) c = c\<lparr>MaxReassemblyBytesPerWorker := flag_or b x23 (MaxReassemblyBytesPerWorker c)\<rparr>"
  "set_if b (\<lambda>c. c\<lparr>MaxHeldBytesPerWorker := x24\<rparr>) c = c\<lparr>MaxHeldBytesPerWorker := flag_or b x24 (MaxHeldBytesPerWorker c)\<rparr>"
  "set_if b (\<lambda>c. c\<lparr>WorkerCount := x25\<rparr>) c = c\<lparr>WorkerCount := flag_or b x25 (WorkerCount c)\<rparr>"
  "set_if b (\<lambda>c. c\<lparr>FlowIdleTimeout := x26\<rparr>) c = c\<lparr>FlowIdleTimeout := flag_or b x26 (FlowIdleTimeout c)\<rparr>"
  "set_if b (\<lambda>c. c\<lparr>GCInterval := x27\<rparr>) c = c\<lparr>GCInterval := flag_or b x27 (GCInterval c)\<rparr>"
  "set_if b (\<lambda>c. c\<lparr>ShutdownFailOpenTimeout := x28\<rparr>) c = c\<lparr>ShutdownFailOpenTimeout := flag_or b x28 (ShutdownFailOpenTimeout c)\<rparr>"
  "set_if b (\<lambda>c. c\<lparr>ShutdownFailOpenMaxPackets := x29\<rparr>) c = c\<lparr>ShutdownFailOpenMaxPackets := flag_or b x29 (ShutdownFailOpenMaxPackets c)\<rparr>"
  "set_if b (\<lambda>c. c\<lparr>AdapterFlushTimeout := x30\<rparr>) c = c\<lparr>AdapterFlushTimeout := flag_or b x30 (AdapterFlushTimeout c)\<rparr>"
  by (simp_all add: set_if_def flag_or_def)

lemma opt_win_fields:
  "set_opt v31 (\<lambda>x c. c\<lparr>Filter := x\<rparr>) c = c\<lparr>Filter := orelse v31 (Filter c)\<rparr>"
  "set_opt v32 (\<lambda>x c. c\<lparr>AutoInstallDriver := x\<rparr>) c = c\<lparr>AutoInstallDriver := orelse v32 (AutoInstallDriver c)\<rparr>"
  "set_opt v33 (\<lambda>x c. c\<lparr>AutoDownloadFiles := x\<rparr>) c = c\<lparr>AutoDownloadFiles := orelse v33 (AutoDownloadFiles c)\<rparr>"
  by (simp_all add: set_opt_def orelse_def split: option.split)

lemma opt_trimmed_fields:
  "set_opt v34 (\<lambda>x c. c\<lparr>WinDivertDir := TrimSpace x\<rparr>) c = c\<lparr>WinDivertDir := orelse (map_option TrimSpace v34) (WinDivertDir c)\<rparr>"
  "set_opt v35 (\<lambda>x c. c\<lparr>WinDivertSys := TrimSpace x\<rparr>) c = c\<lparr>WinDivertSys := orelse (map_option TrimSpace v35) (WinDivertSys c)\<rparr>"
  by (simp_all add: set_opt_def orelse_def split: option.split)

lemma opt_queue_fields:
  "set_opt v36 (\<lambda>x c. c\<lparr>AdapterOpts := (AdapterOpts c)\<lparr>QueueLen := x\<rparr>\<rparr>) c = c\<lparr>AdapterOpts := (AdapterOpts c)\<lparr>QueueLen := orelse v36 (QueueLen (AdapterOpts c))\<rparr>\<rparr>"
  "set_opt v37 (\<lambda>x c. c\<lparr>AdapterOpts := (AdapterOpts c)\<lparr>QueueTime := x\<rparr>\<rparr>) c = c\<lparr>AdapterOpts := (AdapterOpts c)\<lparr>QueueTime := orelse v37 (QueueTime (AdapterOpts c))\<rparr>\<rparr>"
  "set_opt v38 (\<lambda>x c. c\<lparr>AdapterOpts := (AdapterOpts c)\<lparr>QueueSize := x\<rparr>\<rparr>) c = c\<lparr>AdapterOpts := (AdapterOpts c)\<lparr>QueueSize := orelse v38 (QueueSize (AdapterOpts c))\<rparr>\<rparr>"
  by (simp_all add: set_opt_def orelse_def split: option.split)

lemma flag_win_fields:
  "set_if b (\<lambda>c. c\<lparr>Filter := x39\<rparr>) c = c\<lparr>Filter := flag_or b x39 (Filter c)\<rparr>"
  "set_if b (\<lambda>c. c\<lparr>WinDivertDir := x40\<rparr>) c = c\<lparr>WinDivertDir := flag_or b x40 (WinDivertDir c)\<rparr>"
  "set_if b (\<lambda>c. c\<lparr>WinDivertSys := x41\<rparr>) c = c\<lparr>WinDivertSys := flag_or b x41 (WinDivertSys c)\<rparr>"
  "set_if b (\<lambda>c. c\<lparr>AutoInstallDriver := x42\<rparr>) c = c\<lparr>AutoInstallDriver := flag_or b x42 (AutoInstallDriver c)\<rparr>"
  "set_if b (\<lambda>c. c\<lparr>AutoUninstallDriver := x43\<rparr>) c = c\<lparr>AutoUninstallDriver := flag_or b x43 (AutoUninstallDriver c)\<rparr>"
  "set_if b (\<lambda>c. c\<lparr>AutoDownloadFiles := x44\<rparr>) c = c\<lparr>AutoDownloadFiles := flag_or b x44 (AutoDownloadFiles c)\<rparr>"
  by (simp_all add: set_if_def flag_or_def)

lemma flag_queue_fields:
  "set_if b (\<lambda>c. c\<lparr>AdapterOpts := (AdapterOpts c)\<lparr>QueueLen := x45\<rparr>\<rparr>) c = c\<lparr>AdapterOpts := (AdapterOpts c)\<lparr>QueueLen := flag_or b x45 (QueueLen (AdapterOpts c))\<rparr>\<rparr>"
  "set_if b (\<lambda>c. c\<lparr>AdapterOpts := (AdapterOpts c)\<lparr>QueueTime := x46\<rparr>\<rparr>) c = c\<lparr>AdapterOpts := (AdapterOpts c)\<lparr>QueueTime := flag_or b x46 (QueueTime (AdapterOpts c))\<rparr>\<rparr>"
  "set_if b (\<lambda>c. c\<lparr>AdapterOpts := (AdapterOpts c)\<lparr>QueueSize := x47\<rparr>\<rparr>) c = c\<lparr>AdapterOpts := (AdapterOpts c)\<lparr>QueueSize := flag_or b x47 (QueueSize (AdapterOpts c))\<rparr>\<rparr>"
  by (simp_all add: set_if_def flag_or_def)

lemmas setting_fields = opt_fields flag_fields opt_win_fields opt_trimmed_fields opt_queue_fields flag_win_fields flag_queue_fields

lemma applyEngineJSON_ok:
  assumes "applyEngineJSON fm j c = Inr c'"
  shows "c' = set_opt (dur fm (jAdapterFlushTimeout j)) (\<lambda>d c. c\<lparr>AdapterFlushTimeout := d\<rparr>)
    (set_opt (jShutdownFailOpenMaxPackets j) (\<lambda>v c. c\<lparr>ShutdownFailOpenMaxPackets := v\<rparr>)
    (set_opt (dur fm (jShutdownFailOpenTimeout j)) (\<lambda>d c. c\<lparr>ShutdownFailOpenTimeout := d\<rparr>)
    (set_opt (jMaxHeldBytesPerWorker j) (\<lambda>v c. c\<lparr>MaxHeldBytesPerWorker := v\<rparr>)
    (set_opt (jMaxReassemblyBytesPerWorker j) (\<lambda>v c. c\<lparr>MaxReassemblyBytesPerWorker := v\<rparr>)
    (set_opt (jMaxFlowsPerWorker j) (\<lambda>v c. c\<lparr>MaxFlowsPerWorker := v\<rparr>)
    (set_opt (dur fm (jGCInterval j)) (\<lambda>d c. c\<lparr>GCInterval := d\<rparr>)
    (set_opt (dur fm (jFlowIdleTimeout j)) (\<lambda>d c. c\<lparr>FlowIdleTimeout := d\<rparr>)
    (set_opt (jWorkers j) (\<lambda>v c. c\<lparr>WorkerCount := v\<rparr>)
    (set_opt (jMaxSegmentPayload j) (\<lambda>v c. c\<lparr>MaxSegmentPayload := v\<rparr>)
    (set_opt (jMaxHeldPackets j) (\<lambda>v c. c\<lparr>MaxHeldPackets := v\<rparr>)
    (set_opt (jMaxBufferBytes j) (\<lambda>v c. c\<lparr>MaxBufferBytes := v\<rparr>)
    (set_opt (dur fm (jCollectTimeout j)) (\<lambda>d c. c\<lparr>CollectTimeout := d\<rparr>)
    (set_opt (jSplitChunk j) (\<lambda>v c. c\<lparr>SplitChunk := v\<rparr>)
    (set_opt (mode (jSplitMode j)) (\<lambda>m c. c\<lparr>SplitMode := m\<rparr>) c))))))))))))))"
  using assms unfolding applyEngineJSON_def
  by (clarsimp simp: sbind_ok set_dur_ok dest!: set_mode_ok)

text \<open>Whether the section is there or not.\<close>

definition no_engine :: engineJSONConfig where
  "no_engine = \<lparr>jSplitMode = None, jSplitChunk = None, jCollectTimeout = None, jMaxBufferBytes = None, jMaxHeldPackets = None,
     jMaxSegmentPayload = None, jWorkers = None, jFlowIdleTimeout = None, jGCInterval = None, jMaxFlowsPerWorker = None,
     jMaxReassemblyBytesPerWorker = None, jMaxHeldBytesPerWorker = None, jShutdownFailOpenTimeout = None,
     jShutdownFailOpenMaxPackets = None, jAdapterFlushTimeout = None\<rparr>"

definition no_win :: winDivertJSONConfig where
  "no_win = \<lparr>jFilter = None, jQueueLen = None, jQueueTimeMs = None, jQueueSizeBytes = None, jWinDivertDir = None,
     jWinDivertSys = None, jAutoInstallDriver = None, jAutoDownloadFiles = None\<rparr>"

definition section_engine :: "windowsJSONConfig \<Rightarrow> engineJSONConfig" where
  "section_engine j = (case jEngine j of None \<Rightarrow> no_engine | Some e \<Rightarrow> e)"

definition section_win :: "windowsJSONConfig \<Rightarrow> winDivertJSONConfig" where
  "section_win j = (case jWinDivert j of None \<Rightarrow> no_win | Some e \<Rightarrow> e)"

lemma engine_section: "f no_engine = None \<Longrightarrow> engine_field j f = f (section_engine j)"
  by (simp add: engine_field_def section_engine_def split: option.splits)

lemma win_section: "f no_win = None \<Longrightarrow> win_field j f = f (section_win j)"
  by (simp add: win_field_def section_win_def split: option.splits)

lemma given_None [simp]: "given None = None" "dur fm None = None" "mode None = None"
  by (simp_all add: given_def dur_def mode_def)

lemma apply_no_engine: "applyEngineJSON fm no_engine c = Inr c"
  by (simp add: applyEngineJSON_def no_engine_def set_mode_def set_dur_def)

lemma apply_no_win: "applyWinDivertJSON no_win wc = wc"
  by (simp add: applyWinDivertJSON_def no_win_def)

lemma apply_sections:
  assumes "applyWindowsJSONConfig fm (c, wc) j = Inr (c', wc')"
  shows "applyEngineJSON fm (section_engine j) c = Inr c' \<and> wc' = applyWinDivertJSON (section_win j) wc"
  using assms
  by (auto simp: applyWindowsJSONConfig_def sbind_ok section_engine_def section_win_def apply_no_engine apply_no_win
      split: option.splits)

lemma engine_precedence:
  assumes "applyEngineJSON fm (section_engine j) c = Inr c1" "override_mode fs a c1 = Inr c2"
  shows "override_engine fs a c2 = fst (from_file fm j (c, wc) fs a)"
proof -
  have 2: "c2 = set_if (fs ''split-mode'') (\<lambda>c. c\<lparr>SplitMode := fst (parseSplitMode (fSplitMode a))\<rparr>) c1"
    using assms(2) by (auto simp: override_mode_def set_if_def split: if_splits prod.splits option.splits)
  note 1 = applyEngineJSON_ok [OF assms(1)]
  show ?thesis
    by (simp add: 2 1 setting_fields override_engine_def from_file_def pick_eq engine_section no_engine_def)
qed

lemma win_precedence: "override_win fs a (applyWinDivertJSON (section_win j) wc) = snd (from_file fm j (c, wc) fs a)"
  by (simp add: setting_fields override_win_def applyWinDivertJSON_def from_file_def pick_eq win_section no_win_def orelse_None)

text \<open>A file without sections says nothing.\<close>

definition no_file :: windowsJSONConfig where
  "no_file = \<lparr>jEngine = None, jWinDivert = None\<rparr>"

lemma apply_no_file: "applyWindowsJSONConfig fm d no_file = Inr d"
  by (cases d) (simp add: applyWindowsJSONConfig_def no_file_def)

definition as_service :: "bool \<Rightarrow> config \<times> windowsRunConfig \<Rightarrow> config \<times> windowsRunConfig" where
  "as_service sv r = (if sv then (fst r, (snd r)\<lparr>AutoUninstallDriver := False\<rparr>) else r)"

lemma settle_apply:
  assumes "applyWindowsJSONConfig fm d j = Inr r" "settle fs a sv r = Inr (c, wc)"
  shows "(c, wc) = as_service sv (from_file fm j d fs a) \<and> usable c \<and> TrimSpace (Filter wc) \<noteq> []"
proof -
  obtain c0 wc0 c1 wc1 where d: "d = (c0, wc0)" "r = (c1, wc1)" by (cases d; cases r)
  obtain c2 where c2: "override_mode fs a c1 = Inr c2" "c = override_engine fs a c2" "usable c"
      "wc = (if sv then (override_win fs a wc1)\<lparr>AutoUninstallDriver := False\<rparr> else override_win fs a wc1)"
      "TrimSpace (Filter wc) \<noteq> []"
    using assms(2)
    by (auto simp: d settle_def sbind_ok Let_def validateWindowsRunConfig_def validated_usable split: option.splits if_splits)
  show ?thesis
    using apply_sections [of fm c0 wc0 j c1 wc1] assms(1) c2 engine_precedence [of fm j c0 c1 fs a c2 wc0] win_precedence [of fs a j wc0 fm c0]
    by (auto simp: d as_service_def prod_eq_iff)
qed

text \<open>What a run of \<^const>\<open>file_values\<close> has read.\<close>

definition file_read :: "json_lib \<Rightarrow> whost \<Rightarrow> string \<Rightarrow> wlog \<Rightarrow> windowsJSONConfig \<Rightarrow> bool" where
  "file_read js w path l' j \<longleftrightarrow> (\<exists>l k. l' = l @ ReadFile path # k \<and> failure w l (ReadFile path) = None
     \<and> unmarshal js (outcome w l (ReadFile path)) = Inr j)"

definition first_service_run :: "json_lib \<Rightarrow> whost \<Rightarrow> string \<Rightarrow> wlog \<Rightarrow> bool" where
  "first_service_run js w path l' \<longleftrightarrow> (\<exists>l k e l1. l' = l @ ReadFile path # k
     \<and> readWindowsJSONConfig js w path l = (Inl e, l1) \<and> werr_is e NotExist)"

lemma extends_wdo: "extends l (snd (wdo w op l))"
  by simp

lemma extends_wthen: "extends l (snd r) \<Longrightarrow> (\<And>l'. extends l' (snd (f l'))) \<Longrightarrow> extends l (snd (wthen r f))"
  by (cases r; cases "fst r") (auto intro: extends_trans)

lemma extends_wwrap: "extends l (snd r) \<Longrightarrow> extends l (snd (wwrap pre r))"
  by simp

lemma extends_defer: "extends l (snd r) \<Longrightarrow> extends l (snd (with_defer ops r))"
  by (cases r) (auto simp: extends_def)

lemma extends_icacls: "extends l (snd (icacls_step w label p exe args l))"
  by (simp add: icacls_step_def wdo_def split: option.splits)

lemma extends_harden: "extends l (snd (harden w label g p l))"
  by (auto simp: harden_def extends_icacls split: sum.splits intro!: extends_wthen)

lemmas extends_intros = extends_wthen extends_wwrap extends_defer extends_wdo extends_harden extends_refl

lemma extends_harden_file: "extends l (snd (hardenWindowsFileACL w p l))"
  by (simp add: hardenWindowsFileACL_def Let_def extends_harden)

lemma extends_write: "extends l (snd (writeWindowsJSONConfigIfMissing js w p cfg l))"
  unfolding writeWindowsJSONConfigIfMissing_def
proof (rule extends_wthen [OF extends_wdo])
  fix l'
  show "extends l' (snd (case marshalIndent js cfg of Inl e \<Rightarrow> (Some e, l')
     | Inr b \<Rightarrow> (case wdo w (CreateNew p) l' of
         (Some e, l) \<Rightarrow> (if werr_is e Exist then None else Some e, l)
       | (None, l) \<Rightarrow> with_defer [CloseOf p] (wthen (wdo w (WriteTo p (b @ [CHR 0x0A])) l) (wdo w (CloseOf p))))))"
    proof (cases "marshalIndent js cfg")
      case (Inr b)
      have "extends l' (snd (with_defer [CloseOf p]
          (wthen (wdo w (WriteTo p (b @ [CHR 0x0A])) (l' @ [CreateNew p])) (wdo w (CloseOf p)))))"
        by (rule extends_trans [OF extends_snoc [of l' "[CreateNew p]"]]) (intro extends_intros)
      then show ?thesis by (simp add: Inr wdo_def split: option.split)
    qed simp
qed

lemma extends_first_run: "extends l (snd (first_run js w root p d l))"
  unfolding first_run_def by (auto intro!: extends_intros extends_write extends_harden_file split: if_splits)

lemma effective_settings:
  assumes "effectiveWindowsConfig js fm cpus w a fs sv l = (Inr (c, wc), l')" and "config_path w a sv l = (path, dflt)"
  shows "\<exists>j. (c, wc) = as_service sv (from_file fm j (windowsDefaults cpus) fs a)
    \<and> (path = [] \<and> j = no_file \<or> file_read js w path l' j \<or> sv \<and> dflt \<and> first_service_run js w path l' \<and> j = no_file)
    \<and> usable c \<and> TrimSpace (Filter wc) \<noteq> []"
proof -
  let ?root = "programDataRoot w l" and ?d = "windowsDefaults cpus"
  obtain l1 where 1: "secure_state w sv ?root path l = (None, l1)"
    using assms by (auto simp: effectiveWindowsConfig_def Let_def split: prod.splits option.splits)
  obtain r where r: "file_values js fm w sv dflt ?root path ?d l1 = (Inr r, l')" "settle fs a sv r = Inr (c, wc)"
    using assms 1 by (auto simp: effectiveWindowsConfig_def Let_def split: prod.splits option.splits sum.splits)
  have "\<exists>j. applyWindowsJSONConfig fm ?d j = Inr r
      \<and> (path = [] \<and> j = no_file \<or> file_read js w path l' j \<or> sv \<and> dflt \<and> first_service_run js w path l' \<and> j = no_file)"
  proof (cases "path = []")
    case True
    then show ?thesis using r(1) apply_no_file [of fm ?d] by (auto simp: file_values_def)
  next
    case False
    obtain q l2 where q: "readWindowsJSONConfig js w path l1 = (q, l2)" by force
    then have l2: "l2 = l1 @ [ReadFile path]" by (auto simp: readWindowsJSONConfig_def wdo_def split: option.splits)
    show ?thesis
    proof (cases q)
      case (Inr j)
      then have "file_read js w path l2 j"
        using q by (auto simp: readWindowsJSONConfig_def wdo_def file_read_def split: option.splits)
      then show ?thesis using r(1) False q Inr by (auto simp: file_values_def split: sum.splits)
    next
      case (Inl e)
      then have e: "werr_is e NotExist \<and> sv \<and> dflt" and f: "first_run js w ?root path ?d l2 = (None, l')" and "r = ?d"
        using r(1) False q by (auto simp: file_values_def split: if_splits option.splits prod.splits)
      have ex: "extends l2 l'" using extends_first_run [of l2 js w ?root path ?d] by (simp add: f)
      have "first_service_run js w path l'"
        using q Inl e ex unfolding first_service_run_def l2 extends_def by auto
      then show ?thesis using e \<open>r = ?d\<close> apply_no_file by blast
    qed
  qed
  then show ?thesis using settle_apply r(2) by blast
qed

text \<open>C32. Where the Windows settings come from.  When the effective configuration is computed
  without an error there are contents of the file such that every setting is the one given on
  the command line, else the file's, else the default; as a service the driver is never
  uninstalled.  The contents are what was read from the file of \<^verbatim>\<open>--config\<close>; they are empty
  only without such a file, or on the first run as a service, when the default file does not
  exist.  In every case the engine's settings pass all its checks and the filter is not blank.\<close>

theorem settings_precedence:
  assumes "effectiveWindowsConfig js fm cpus w a fs sv l = (Inr (c, wc), l')" and "config_path w a sv l = (path, dflt)"
  shows "\<exists>j. (c, wc) = as_service sv (from_file fm j (windowsDefaults cpus) fs a)
    \<and> (path = [] \<and> j = no_file \<or> file_read js w path l' j \<or> sv \<and> dflt \<and> first_service_run js w path l' \<and> j = no_file)
    \<and> usable c \<and> TrimSpace (Filter wc) \<noteq> []"
  using assms by (rule effective_settings)

text \<open>A machine with a file that sets the chunk and turns the installation off.\<close>

definition small_file :: windowsJSONConfig where
  "small_file = \<lparr>jEngine = Some (no_engine\<lparr>jSplitChunk := Some 7\<rparr>),
     jWinDivert = Some (no_win\<lparr>jAutoInstallDriver := Some False\<rparr>)\<rparr>"

definition small_json :: json_lib where
  "small_json = \<lparr>unmarshal = (\<lambda>_. Inr small_file), marshalIndent = (\<lambda>_. Inr [])\<rparr>"

definition plain_args :: windowsCLIArgs where
  "plain_args = \<lparr>fSplitMode = ''immediate'', fSplitChunk = 3, fCollectTimeout = 0, fMaxBuffer = 0, fMaxHeld = 0,
     fMaxSegPayload = 0, fWorkers = 2, fFlowTimeout = 0, fGcInterval = 0, fMaxFlows = 0, fMaxReassembly = 0, fMaxHeldBytes = 0,
     fShutdownTimeout = 0, fShutdownMaxPkts = 0, fAdapterFlushTimeout = 0, aFilter = [], aQueueLen = 0, aQueueTime = 0,
     aQueueSize = 0, aWinDivertDir = [], aWinDivertSys = [], aAutoInstall = True, aAutoUninstall = True, aAutoDownload = True,
     aConfigPath = ''C:/c.json''\<rparr>"

lemma small_effective:
  "\<exists>c wc l'. effectiveWindowsConfig small_json (\<lambda>f u s. f * u div s) 8 good_machine plain_args (\<lambda>f. f = ''workers'') sv l = (Inr (c, wc), l')"
proof -
  have p: "config_path good_machine plain_args sv l = (''C:/c.json'', False)" "programDataRoot good_machine l = ''C:'' @ [backslash] @ ''ProgramData/gov-pass''"
    by (simp_all add: config_path_def plain_args_def TrimSpace_def is_space_def programDataRoot_def defaultProgramDataDir_def good_machine_def)
  have "\<not> isUnderDir good_machine ''C:/c.json'' (''C:'' @ [backslash] @ ''ProgramData/gov-pass'')" by code_simp
  then have u: "\<not> isUnderDir good_machine ''C:/c.json'' (programDataRoot good_machine l)" unfolding p(2) .
  have t: "TrimSpace defaultWinDivertFilter \<noteq> []" by code_simp
  have g: "failure good_machine = (\<lambda>_ _. None)" by (simp add: good_machine_def)
  show ?thesis
    by (simp add: effectiveWindowsConfig_def Let_def p(1) u secure_state_def file_values_def readWindowsJSONConfig_def wdo_def g
        small_json_def applyWindowsJSONConfig_def small_file_def applyEngineJSON_def no_engine_def set_mode_def set_dur_def
        applyWinDivertJSON_def no_win_def windowsDefaults_def settle_def override_mode_def override_engine_def override_win_def
        set_if_def validateEngineConfig_def engine_checks_def first_failure_def validateWindowsRunConfig_def t DefaultConfig_def
        Millisecond_def Second_def plain_args_def [THEN arg_cong, of fWorkers])
qed

lemma small_fields:
  assumes "(c, wc) = as_service sv (from_file (\<lambda>f u s. f * u div s) small_file (windowsDefaults 8) (\<lambda>f. f = ''workers'') plain_args)"
  shows "WorkerCount c = 2 \<and> SplitChunk c = 7 \<and> MaxHeldPackets c = 32 \<and> \<not> AutoInstallDriver wc \<and> AutoDownloadFiles wc
    \<and> WinDivertDir wc = [] \<and> Filter wc = defaultWinDivertFilter"
  using assms by (cases sv) (simp_all add: as_service_def from_file_def windowsDefaults_def DefaultConfig_def small_file_def pick_def
      engine_field_def win_field_def no_engine_def no_win_def plain_args_def)

lemma settings_precedence_witness:
  "\<exists>c wc l'. effectiveWindowsConfig small_json (\<lambda>f u s. f * u div s) 8 good_machine plain_args (\<lambda>f. f = ''workers'') False [] = (Inr (c, wc), l')
    \<and> WorkerCount c = 2 \<and> SplitChunk c = 7 \<and> MaxHeldPackets c = 32 \<and> \<not> AutoInstallDriver wc \<and> AutoDownloadFiles wc"
proof -
  let ?e = "effectiveWindowsConfig small_json (\<lambda>f u s. f * u div s) 8 good_machine plain_args (\<lambda>f. f = ''workers'') False []"
  have p: "config_path good_machine plain_args False [] = (''C:/c.json'', False)" by code_simp
  obtain c wc l' where e: "?e = (Inr (c, wc), l')" using small_effective by blast
  obtain j where j: "(c, wc) = as_service False (from_file (\<lambda>f u s. f * u div s) j (windowsDefaults 8) (\<lambda>f. f = ''workers'') plain_args)"
      "file_read small_json good_machine ''C:/c.json'' l' j"
    using settings_precedence [OF e p] by auto
  then have "j = small_file" by (auto simp: file_read_def small_json_def)
  then show ?thesis using e small_fields j(1) by blast
qed

end
