(* ===== verification/WinService.thy ===== *)
theory WinService
  imports WinConfig WinDriver Engine
begin

text \<open>
  The Windows program in the foreground and as a service: \<^verbatim>\<open>runWindows\<close>,
  \<^verbatim>\<open>runWindowsService\<close> and \<^verbatim>\<open>run\<close> of \<^verbatim>\<open>cmd/splitter/main_windows.go\<close>, and
  \<^verbatim>\<open>cmd/splitter/service_windows.go\<close>.  The service is a state machine: the handler of the
  service manager's requests, the loop that reloads the configuration, and the engine, whose
  goroutines it runs beside it, take steps in any order.
\<close>

section \<open>What the program is given\<close>

record winprog =
  pHost :: whost
  pDivert :: wd_os
  pJson :: json_lib
  pFloat :: "nat \<Rightarrow> nat \<Rightarrow> nat \<Rightarrow> nat"
  pCpus :: int
  pSysFirst :: bool
  pAdapter :: adapter_env
  pRun :: "config \<Rightarrow> windivert \<Rightarrow> go_error option"

datatype run_error = HostError werr | EngineError string go_error

fun canceled_error :: "run_error \<Rightarrow> bool" where
  "canceled_error (HostError e) = werr_is e Canceled"
| "canceled_error (EngineError pre e) = errors_is e ContextCanceled"

section \<open>The driver and the adapter\<close>

definition exe_dir :: "whost \<Rightarrow> string" where
  "exe_dir w = (case exeFile w of Inl e \<Rightarrow> [] | Inr exe \<Rightarrow> dirPath w exe)"

definition driver_config :: "windowsRunConfig \<Rightarrow> string \<Rightarrow> bool \<Rightarrow> driverConfig" where
  "driver_config wc driverDir autoStop = \<lparr>Dir = driverDir, SysName = WinDivertSys wc, ServiceName = WinDivertSvcName wc,
     AutoInstall = AutoInstallDriver wc, AutoUninstall = AutoUninstallDriver wc, AutoStop = autoStop\<rparr>"

definition set_path :: "whost \<Rightarrow> string \<Rightarrow> wlog \<Rightarrow> wstatus" where
  "set_path w dir l = (if dir \<noteq> [] then wwrap ''set PATH failed: '' (PrependPath w dir l) else (None, l))"

definition prepare_driver :: "winprog \<Rightarrow> bool \<Rightarrow> windowsRunConfig \<Rightarrow> wlog \<Rightarrow> (werr + windowsRunConfig \<times> cleanup option) \<times> wlog" where
  "prepare_driver p autoStop wc l = (
     case ensureWinDivertFiles (pSysFirst p) (pHost p) wc (exe_dir (pHost p)) l of
       ((wc, dir, Some e), l) \<Rightarrow> (Inl e, l)
     | ((wc, dir, None), l) \<Rightarrow> (case set_path (pHost p) dir l of
         (Some e, l) \<Rightarrow> (Inl e, l)
       | (None, l) \<Rightarrow> (case Ensure (pHost p) (driver_config wc dir autoStop) l of
           (Inl e, l) \<Rightarrow> (Inl (wrapped ''driver ensure failed: '' e), l)
         | (Inr cl, l) \<Rightarrow> (Inr (wc, cl), l))))"

text \<open>The deferred cleanup, whose error is only logged.\<close>

definition clean_up :: "whost \<Rightarrow> cleanup option \<Rightarrow> wlog \<Rightarrow> wlog" where
  "clean_up w co l = (case co of None \<Rightarrow> l | Some cl \<Rightarrow> snd (run_cleanup w cl l))"

definition open_adapter :: "winprog \<Rightarrow> windowsRunConfig \<Rightarrow> run_error + windivert" where
  "open_adapter p wc = (case NewWinDivert (pDivert p) (Filter wc) (AdapterOpts wc) [] of
     Inl (e, _) \<Rightarrow> Inl (EngineError ''WinDivert open failed: '' e) | Inr ad \<Rightarrow> Inr ad)"

definition stopped_error :: "go_error option \<Rightarrow> run_error option" where
  "stopped_error r = (case r of None \<Rightarrow> None
     | Some e \<Rightarrow> if errors_is e ContextCanceled then None else Some (EngineError ''engine stopped: '' e))"

definition runWindows :: "winprog \<Rightarrow> config \<Rightarrow> windowsRunConfig \<Rightarrow> wlog \<Rightarrow> run_error option \<times> wlog" where
  "runWindows p c wc l = (case prepare_driver p True wc l of
     (Inl e, l) \<Rightarrow> (Some (HostError e), l)
   | (Inr (wc, cl), l) \<Rightarrow> (case open_adapter p wc of
       Inl e \<Rightarrow> (Some e, clean_up (pHost p) cl l)
     | Inr ad \<Rightarrow> (stopped_error (pRun p c ad), clean_up (pHost p) cl l)))"

section \<open>The loop of the service\<close>

record svc_loop =
  curCfg :: config
  curWc :: windowsRunConfig
  svcAd :: windivert
  svcRun :: running
  svcCleanup :: "cleanup option"

definition update_queue :: "wd_os \<Rightarrow> (wd_options \<Rightarrow> u64) \<Rightarrow> (u64 \<Rightarrow> wd_options \<Rightarrow> wd_options) \<Rightarrow> wd_options
    \<Rightarrow> windivert \<times> wd_options \<Rightarrow> windivert \<times> wd_options" where
  "update_queue env get put new r = (case r of (ad, cur) \<Rightarrow>
     if get new = get cur \<or> get new = 0 then (ad, cur) else
     case UpdateOptions env (put (get new) \<lparr>QueueLen = 0, QueueTime = 0, QueueSize = 0\<rparr>) ad of
       (Some e, ad) \<Rightarrow> (ad, cur) | (None, ad) \<Rightarrow> (ad, put (get new) cur))"

definition update_queues :: "wd_os \<Rightarrow> wd_options \<Rightarrow> windivert \<times> wd_options \<Rightarrow> windivert \<times> wd_options" where
  "update_queues env new r =
     update_queue env QueueSize (\<lambda>v opts. opts\<lparr>QueueSize := v\<rparr>) new
     (update_queue env QueueTime (\<lambda>v opts. opts\<lparr>QueueTime := v\<rparr>) new
     (update_queue env QueueLen (\<lambda>v opts. opts\<lparr>QueueLen := v\<rparr>) new r))"

text \<open>The settings that only a restart can change are kept.\<close>

definition kept_cfg :: "config \<Rightarrow> config \<Rightarrow> config" where
  "kept_cfg cur new = (
     let c = (if WorkerCount new \<noteq> WorkerCount cur then new\<lparr>WorkerCount := WorkerCount cur\<rparr> else new)
     in if WorkerQueueSize c \<noteq> WorkerQueueSize cur then c\<lparr>WorkerQueueSize := WorkerQueueSize cur\<rparr> else c)"

definition reload_service :: "winprog \<Rightarrow> windowsCLIArgs \<Rightarrow> (string \<Rightarrow> bool) \<Rightarrow> svc_loop \<Rightarrow> wlog \<Rightarrow> svc_loop \<times> wlog" where
  "reload_service p a fs s l = (
     case effectiveWindowsConfig (pJson p) (pFloat p) (pCpus p) (pHost p) a fs True l of
       (Inl e, l) \<Rightarrow> (s, l)
     | (Inr (newCfg, newWc), l) \<Rightarrow>
       (case update_queues (pDivert p) (AdapterOpts newWc) (svcAd s, AdapterOpts (curWc s)) of (ad, opts) \<Rightarrow>
         let s = s\<lparr>svcAd := ad, curWc := (curWc s)\<lparr>AdapterOpts := opts\<rparr>\<rparr>; c = kept_cfg (curCfg s) newCfg
         in case Reload c (eng (svcRun s)) of
              (Some err, e) \<Rightarrow> (s, l)
            | (None, e) \<Rightarrow> (s\<lparr>svcRun := (svcRun s)\<lparr>eng := e\<rparr>, curCfg := c\<rparr>, l)))"

definition start_service :: "winprog \<Rightarrow> windowsCLIArgs \<Rightarrow> (string \<Rightarrow> bool) \<Rightarrow> wlog \<Rightarrow> (run_error + svc_loop) \<times> wlog" where
  "start_service p a fs l = (
     case effectiveWindowsConfig (pJson p) (pFloat p) (pCpus p) (pHost p) a fs True l of
       (Inl e, l) \<Rightarrow> (Inl (HostError e), l)
     | (Inr (c, wc), l) \<Rightarrow> (case prepare_driver p False wc l of
         (Inl e, l) \<Rightarrow> (Inl (HostError e), l)
       | (Inr (wc, cl), l) \<Rightarrow> (case open_adapter p wc of
           Inl e \<Rightarrow> (Inl e, clean_up (pHost p) cl l)
         | Inr ad \<Rightarrow> (Inr \<lparr>curCfg = c, curWc = wc, svcAd = ad, svcRun = Run_start (Engine_New c), svcCleanup = cl\<rparr>, l))))"

section \<open>The handler of the service manager\<close>

datatype svc_state = StartPending | SvcRunning | StopPending | SvcStopped | OtherState u32

text \<open>What is sent to the manager: a report, or the answer to an interrogation, which repeats the
  status that came with it.\<close>

datatype svc_update = Report svc_state | Answer svc_state

datatype svc_cmd = Interrogate svc_state | ParamChange | SvcStop | SvcShutdown | OtherCmd u32

datatype runner = NotStarted | Serving svc_loop | Leaving svc_loop | Ended "run_error option"

datatype handler = Listening | AwaitRunner | Exited nat

record service =
  reported :: "svc_update list"
  reloadCh :: bool
  stopAsked :: bool
  runner :: runner
  handler :: handler
  hostLog :: wlog

text \<open>After the first two reports, with the goroutine of the run not yet begun.\<close>

definition service_init :: "wlog \<Rightarrow> service" where
  "service_init l = \<lparr>reported = [Report StartPending, Report SvcRunning], reloadCh = False, stopAsked = False, runner = NotStarted,
     handler = Listening, hostLog = l\<rparr>"

definition report :: "svc_update \<Rightarrow> service \<Rightarrow> service" where
  "report st s = s\<lparr>reported := reported s @ [st]\<rparr>"

definition request :: "svc_cmd \<Rightarrow> service \<Rightarrow> service" where
  "request c s = (case c of
     Interrogate st \<Rightarrow> report (Answer st) s
   | ParamChange \<Rightarrow> s\<lparr>reloadCh := True\<rparr>
   | SvcStop \<Rightarrow> (report (Report StopPending) s)\<lparr>stopAsked := True, handler := AwaitRunner\<rparr>
   | SvcShutdown \<Rightarrow> (report (Report StopPending) s)\<lparr>stopAsked := True, handler := AwaitRunner\<rparr>
   | OtherCmd n \<Rightarrow> s)"

definition exit_code :: "run_error option \<Rightarrow> nat" where
  "exit_code r = (case r of None \<Rightarrow> 0 | Some e \<Rightarrow> if canceled_error e then 0 else 1)"

definition leave_handler :: "run_error option \<Rightarrow> service \<Rightarrow> service" where
  "leave_handler r s = (report (Report SvcStopped) s)\<lparr>stopAsked := True, handler := Exited (exit_code r)\<rparr>"

fun loop_of :: "runner \<Rightarrow> svc_loop option" where
  "loop_of (Serving u) = Some u"
| "loop_of (Leaving u) = Some u"
| "loop_of _ = None"

fun set_loop :: "svc_loop \<Rightarrow> runner \<Rightarrow> runner" where
  "set_loop u (Serving _) = Serving u"
| "set_loop u (Leaving _) = Leaving u"
| "set_loop u r = r"

text \<open>The engine's context ends when the handler has cancelled it; reloads are made by the loop.\<close>

definition engine_may :: "service \<Rightarrow> act \<Rightarrow> bool" where
  "engine_may s act = (case act of DoReload c \<Rightarrow> False | EndContext e \<Rightarrow> stopAsked s \<and> e = ContextCanceled | _ \<Rightarrow> True)"

text \<open>One step of the handler, of the loop of the run, or of the engine.\<close>

inductive svc_step :: "winprog \<Rightarrow> windowsCLIArgs \<Rightarrow> (string \<Rightarrow> bool) \<Rightarrow> service \<Rightarrow> service \<Rightarrow> bool"
  for p a fs where
  Handle: "handler s = Listening \<Longrightarrow> svc_step p a fs s (request c s)"
| Collect: "handler s = Listening \<or> handler s = AwaitRunner \<Longrightarrow> runner s = Ended r \<Longrightarrow> svc_step p a fs s (leave_handler r s)"
| StartFails: "runner s = NotStarted \<Longrightarrow> start_service p a fs (hostLog s) = (Inl e, l)
    \<Longrightarrow> svc_step p a fs s (s\<lparr>runner := Ended (Some e), hostLog := l\<rparr>)"
| Starts: "runner s = NotStarted \<Longrightarrow> start_service p a fs (hostLog s) = (Inr u, l)
    \<Longrightarrow> svc_step p a fs s (s\<lparr>runner := Serving u, hostLog := l\<rparr>)"
| Reloads: "runner s = Serving u \<Longrightarrow> reloadCh s \<Longrightarrow> reload_service p a fs u (hostLog s) = (u', l)
    \<Longrightarrow> svc_step p a fs s (s\<lparr>reloadCh := False, runner := Serving u', hostLog := l\<rparr>)"
| SeesStop: "runner s = Serving u \<Longrightarrow> stopAsked s \<Longrightarrow> svc_step p a fs s (s\<lparr>runner := Leaving u\<rparr>)"
| EngineGoes: "loop_of (runner s) = Some u \<Longrightarrow> engine_may s act \<Longrightarrow> act_step (pAdapter p) act (svcRun u) = Some r
    \<Longrightarrow> svc_step p a fs s (s\<lparr>runner := set_loop (u\<lparr>svcRun := r\<rparr>) (runner s)\<rparr>)"
| Returns: "loop_of (runner s) = Some u \<Longrightarrow> mainGo (svcRun u) = Finished r
    \<Longrightarrow> svc_step p a fs s (s\<lparr>runner := Ended (stopped_error r), hostLog := clean_up (pHost p) (svcCleanup u) (hostLog s)\<rparr>)"

inductive svc_reach :: "winprog \<Rightarrow> windowsCLIArgs \<Rightarrow> (string \<Rightarrow> bool) \<Rightarrow> service \<Rightarrow> service \<Rightarrow> bool"
  for p a fs s0 where
  Init: "svc_reach p a fs s0 s0"
| Step: "svc_reach p a fs s0 s \<Longrightarrow> svc_step p a fs s s' \<Longrightarrow> svc_reach p a fs s0 s'"

inductive_cases svc_stepE: "svc_step p a fs s s'"

section \<open>The command line and the log file\<close>

definition defaultServiceLogPath :: "whost \<Rightarrow> wlog \<Rightarrow> string" where
  "defaultServiceLogPath w l = (
     let base = getenv w l ''ProgramData'';
         base = (if base = [] then ''C:'' @ [backslash] @ ''ProgramData'' else base)
     in joinPath w (joinPath w base ''gov-pass'') ''splitter.log'')"

definition setupServiceLogging :: "whost \<Rightarrow> string \<Rightarrow> wlog \<Rightarrow> (werr + string) \<times> wlog" where
  "setupServiceLogging w path0 l = (
     let path = (if path0 = [] then defaultServiceLogPath w l else path0); root = programDataRoot w l
     in case wthen (if isUnderDir w path root then wwrap ''secure ProgramData dir failed: '' (ensureSecureWindowsDir w root l)
                    else (None, l)) (\<lambda>l.
          wthen (wwrap ''create log dir failed: '' (wdo w (MkdirAll (dirPath w path)) l)) (\<lambda>l.
          wthen (wwrap ''open log file failed: '' (wdo w (OpenAppend path) l)) (\<lambda>l.
            if isUnderDir w path root then
              (case hardenWindowsFileACL w path l of
                 (Some e, l) \<Rightarrow> (Some (wrapped ''secure log file failed: '' e), quietly w (CloseOf path) l)
               | (None, l) \<Rightarrow> (None, l))
            else (None, l)))) of
          (Some e, l) \<Rightarrow> (Inl e, l) | (None, l) \<Rightarrow> (Inr path, l))"

text \<open>\<^term>\<open>interactive\<close> is what \<^verbatim>\<open>svc.IsAnInteractiveSession\<close> returns and \<^term>\<open>serve\<close>
  the run of the handler by the package \<^verbatim>\<open>svc\<close> or its \<^verbatim>\<open>debug\<close> variant.\<close>

definition runService :: "whost \<Rightarrow> string \<Rightarrow> string \<Rightarrow> werr + bool \<Rightarrow> (bool \<Rightarrow> wlog \<Rightarrow> wstatus) \<Rightarrow> wlog \<Rightarrow> wstatus" where
  "runService w name logPath interactive serve l = (if name = [] then (Some (Msg ''service-name is empty''), l) else
     case setupServiceLogging w logPath l of
       (Inl e, l) \<Rightarrow> (Some e, l)
     | (Inr path, l) \<Rightarrow> with_defer [CloseOf path] (case interactive of
         Inl e \<Rightarrow> (Some (wrapped ''svc interactive session check failed: '' e), l)
       | Inr b \<Rightarrow> serve b l))"

record win_flags = windowsCLIArgs +
  wService :: bool
  wServiceName :: string
  wServiceLog :: string

definition cli_args :: "win_flags \<Rightarrow> windowsCLIArgs" where
  "cli_args f = (windowsCLIArgs.truncate f)\<lparr>aWinDivertDir := TrimSpace (aWinDivertDir f),
     aWinDivertSys := TrimSpace (aWinDivertSys f), aConfigPath := TrimSpace (aConfigPath f)\<rparr>"

text \<open>\<^term>\<open>byManager\<close> is the result of \<^verbatim>\<open>svc.IsWindowsService\<close>.\<close>

definition isWindowsServiceProcess :: "werr + bool \<Rightarrow> bool" where
  "isWindowsServiceProcess byManager = (case byManager of Inl e \<Rightarrow> False | Inr b \<Rightarrow> b)"

definition windows_run :: "winprog \<Rightarrow> win_flags \<Rightarrow> (string \<Rightarrow> bool) \<Rightarrow> werr + bool \<Rightarrow> werr + bool \<Rightarrow> (bool \<Rightarrow> wlog \<Rightarrow> wstatus)
    \<Rightarrow> wlog \<Rightarrow> run_error option \<times> wlog" where
  "windows_run p f fs byManager interactive serve l = (
     if wService f \<or> isWindowsServiceProcess byManager then
       (case runService (pHost p) (wServiceName f) (wServiceLog f) interactive serve l of (e, l) \<Rightarrow> (map_option HostError e, l))
     else (case effectiveWindowsConfig (pJson p) (pFloat p) (pCpus p) (pHost p) (cli_args f) fs False l of
         (Inl e, l) \<Rightarrow> (Some (HostError e), l)
       | (Inr (c, wc), l) \<Rightarrow> runWindows p c wc l))"

end
