(* ===== verification/WinServiceProps.thy ===== *)
theory WinServiceProps
  imports WinService WinConfigProps EngineProps
begin

text \<open>
  Properties of the Windows service: a reload is never refused by the engine and reaches every
  worker; the exit code and the reports of the service; the driver is left alone.
\<close>

section \<open>What the goroutines of the engine leave alone\<close>

text \<open>The capacity of a worker's queue and its configuration.\<close>

definition worker_setup :: "worker \<Rightarrow> nat \<times> config option" where
  "worker_setup w = (inCap w, cfg w)"

definition engine_setup :: "engine \<Rightarrow> config \<times> (nat \<times> config option) list" where
  "engine_setup e = (ecfg e, map worker_setup (eworkers e))"

lemma engine_setup_put [simp]:
  "worker_setup w = worker_setup (eworkers e ! i) \<Longrightarrow> engine_setup (put_worker i w e) = engine_setup e"
  by (cases "i < length (eworkers e)") (simp_all add: engine_setup_def put_worker_def map_update list_update_same_conv list_update_beyond)

lemma worker_setup_framed: "framed k w w' \<Longrightarrow> worker_setup w' = worker_setup w"
  and worker_setup_shrunk: "shrunk w w' \<Longrightarrow> worker_setup w' = worker_setup w"
  by (simp_all add: worker_setup_def framed_def shrunk_def)

lemma worker_setup_fields [simp]:
  "worker_setup (w\<lparr>inq := q\<rparr>) = worker_setup w" "worker_setup (w\<lparr>touchq := t\<rparr>) = worker_setup w"
  "worker_setup (touchFlow k w) = worker_setup w" "worker_setup (close_worker w) = worker_setup w"
  "worker_setup (save k st w) = worker_setup w" "worker_setup (w\<lparr>touchClosed := b\<rparr>) = worker_setup w"
  by (simp_all add: worker_setup_def touchFlow_def close_worker_def save_def)

lemma run_step_setup:
  assumes "env_ok env" "run_step env ch w = Running w' \<or> run_step env ch w = Returned e w'"
  shows "worker_setup w' = worker_setup w"
proof (cases ch)
  case (TakeIn c0 c1 c2 now)
  show ?thesis
  proof (cases "inq w")
    case (Cons p ps)
    have "w' = snd (handlePacket env c0 c1 c2 now p (w\<lparr>inq := ps\<rparr>))"
      using assms(2) Cons TakeIn by (auto split: prod.splits option.splits)
    then show ?thesis
      using worker_setup_framed [OF handlePacket_framed [OF assms(1), of p "w\<lparr>inq := ps\<rparr>" c0 c1 c2 now]] by simp
  qed (use assms(2) TakeIn in \<open>auto split: if_splits\<close>)
next
  case (TakeTouch now)
  then show ?thesis using assms(2) by (auto split: list.splits option.splits if_splits)
next
  case (TakeTimer co now order)
  then have "w' = snd (gc env co now order w)" using assms(2) by (auto split: prod.splits option.splits)
  then show ?thesis using worker_setup_shrunk [OF gc_shrunk] by simp
qed (use assms in simp)

lemma reinject_setup: "worker_setup (sw (snd (reinject env ctx mx p s))) = worker_setup (sw s)"
  by (auto simp: reinject_def ctx_check_def send_def Let_def worker_setup_def split: option.split prod.split)

lemma flush_held_setup: "worker_setup (sw (flush_held env ctx mx ps s)) = worker_setup (sw s)"
proof (induction ps arbitrary: s)
  case (Cons p ps)
  obtain r s' where r: "reinject env ctx mx p s = (r, s')" by force
  then have "worker_setup (sw s') = worker_setup (sw s)" using reinject_setup [of env ctx mx p s] by simp
  then show ?case using Cons.IH by (auto simp: r split: option.split)
qed simp

lemma drain_setup: "worker_setup (sw (snd (snd (drain env ctx mx q s)))) = worker_setup (sw s)"
proof (induction q arbitrary: s)
  case Nil
  then show ?case by (simp add: drain.simps [of env ctx mx "[]"] ctx_check_def split: option.split)
next
  case (Cons p ps)
  obtain r s' where r: "reinject env ctx mx p (snd (ctx_check ctx s)) = (r, s')" by force
  then have "worker_setup (sw s') = worker_setup (sw s)"
    using reinject_setup [of env ctx mx p "snd (ctx_check ctx s)"] by (simp add: ctx_check_def)
  then show ?case
    using Cons.IH r by (auto simp: drain.simps [of env ctx mx "p # ps"] ctx_check_def split: option.split)
qed

lemma shutdown_setup: "worker_setup (snd (shutdownFailOpen env fctx co order w)) = worker_setup w"
proof -
  define s where "s = Range order (\<lambda>s. flows (sw s)) (flush_visit env fctx (flush_limit co))
    \<lparr>sw = w, flushed = 0, ticks = 0, firstErr = None, stopErr = None\<rparr>"
  have "worker_setup (sw s) = worker_setup w"
    unfolding s_def
    by (rule Range_induct [where P = "\<lambda>s. worker_setup (sw s) = worker_setup w"]) (auto simp: flush_visit_def flush_held_setup)
  moreover have "worker_setup (snd (shutdownFailOpen env fctx co order w)) = worker_setup (sw s)"
    using drain_setup [of env fctx "flush_limit co" "inq w" s]
    by (auto simp: shutdownFailOpen_def Let_def s_def split: option.split prod.split)
  ultimately show ?thesis by simp
qed

lemma engine_setup_fields [simp]:
  "engine_setup (e\<lparr>esent := l\<rparr>) = engine_setup e" "engine_setup (close_all e) = engine_setup e"
  by (simp_all add: engine_setup_def close_all_def o_def)

definition loop_engine :: "loop \<Rightarrow> engine \<Rightarrow> bool" where
  "loop_engine r e \<longleftrightarrow> (case r of Looping e' \<Rightarrow> e' = e | Stopped er e' \<Rightarrow> e' = e | Blocked \<Rightarrow> False)"

lemma loop_engine_simps [simp]:
  "loop_engine (Looping e') e \<longleftrightarrow> e' = e" "loop_engine (Stopped er e') e \<longleftrightarrow> e' = e" "\<not> loop_engine Blocked e"
  by (simp_all add: loop_engine_def)

lemma pass_setup: "loop_engine (pass env p e) e' \<Longrightarrow> engine_setup e' = engine_setup e"
  by (auto simp: pass_def Let_def split: option.splits)

lemma enqueue_setup: "enqueue ctx0 d p w = Some (r, w') \<Longrightarrow> worker_setup w' = worker_setup w"
  by (auto simp: enqueue_def split: option.splits if_splits)

lemma hand_over_setup: "loop_engine (hand_over env ctx0 d p i e) e' \<Longrightarrow> engine_setup e' = engine_setup e"
  by (auto simp: hand_over_def split: if_splits option.splits dest!: enqueue_setup pass_setup)

lemma recv_step_setup: "loop_engine (recv_step env rcv ctx0 d e) e' \<Longrightarrow> engine_setup e' = engine_setup e"
  by (auto simp: recv_step_def Let_def split: received.splits option.splits if_splits prod.splits dest!: pass_setup hand_over_setup)

lemma eng_fields [simp]: "eng (cancel_ctx s) = eng s" "eng (offer_err er s) = eng s"
  by (simp_all add: cancel_ctx_def offer_err_def)

lemma act_step_setup:
  assumes "env_ok env" "act_step env a s = Some s'" "\<forall>c. a \<noteq> DoReload c"
  shows "engine_setup (eng s') = engine_setup (eng s)"
proof (cases a)
  case (RecvRound rcv early taken)
  then have "loop_engine (recv_step env rcv (if early then None else ctxErr s) (if taken then ctxErr s else None) (eng s)) (eng s')"
    using assms(2) by (auto simp: recv_round_def split: if_splits loop.splits)
  then show ?thesis by (rule recv_step_setup)
next
  case (WorkerRound i ch)
  then show ?thesis
    using assms(2) run_step_setup [OF assms(1), of ch "eworkers (eng s) ! i"]
    by (auto simp: worker_round_def Let_def split: if_splits progress.splits)
next
  case (WorkerFlush i fctx co order)
  then show ?thesis
    using assms(2) shutdown_setup [of env fctx co order "eworkers (eng s) ! i"]
    by (auto simp: worker_flush_def Let_def split: if_splits goroutine.splits prod.splits option.splits)
qed (use assms in \<open>auto simp: main_select_def split: if_splits main_state.splits option.splits recv_state.splits\<close>)

section \<open>The configuration of the service\<close>

text \<open>What a configuration of the service always has.\<close>

lemma from_file_fixed:
  "WorkerQueueSize (fst (as_service sv (from_file fm j (windowsDefaults n) fs a))) = 1024"
  "WinDivertSvcName (snd (as_service sv (from_file fm j (windowsDefaults n) fs a))) = ''WinDivert''"
  "\<not> AutoUninstallDriver (snd (as_service True (from_file fm j (windowsDefaults n) fs a)))"
  by (simp_all add: as_service_def from_file_def windowsDefaults_def DefaultConfig_def)

lemma service_settings:
  assumes "effectiveWindowsConfig js fm cpus w a fs sv l = (Inr (c, wc), l')"
  shows "usable c \<and> WorkerQueueSize c = 1024 \<and> WinDivertSvcName wc = ''WinDivert'' \<and> (sv \<longrightarrow> \<not> AutoUninstallDriver wc)"
proof -
  obtain path dflt where p: "config_path w a sv l = (path, dflt)" by force
  obtain j where j: "(c, wc) = as_service sv (from_file fm j (windowsDefaults cpus) fs a)" "usable c"
    using effective_settings [OF assms p] by blast
  have f: "c = fst (as_service sv (from_file fm j (windowsDefaults cpus) fs a))" "wc = snd (as_service sv (from_file fm j (windowsDefaults cpus) fs a))"
    unfolding j(1) [symmetric] by simp_all
  have "sv \<longrightarrow> \<not> AutoUninstallDriver wc"
    using from_file_fixed(3) [of fm j cpus fs a] f(2) by (cases sv) simp_all
  then show ?thesis using from_file_fixed(1,2) [of sv fm j cpus fs a] j(2) unfolding f [symmetric] by blast
qed

text \<open>Every worker has the current configuration and the queue of the first one.\<close>

definition setup_of :: "config \<Rightarrow> config \<times> (nat \<times> config option) list" where
  "setup_of c = (c, replicate (nat (WorkerCount c)) (nat (WorkerQueueSize c), Some c))"

lemma engine_new_setup: "usable c \<Longrightarrow> WorkerQueueSize c = 1024 \<Longrightarrow> engine_setup (Engine_New c) = setup_of c"
  by (simp add: engine_setup_def Engine_New_def NewSharder_def Workers_def newWorker_def worker_setup_def setup_of_def usable_def
      Let_def map_replicate_const o_def)

lemma Reload_setup:
  assumes "engine_setup e = setup_of c0" "WorkerCount c = WorkerCount c0" "WorkerQueueSize c = WorkerQueueSize c0"
    "usable c0" "WorkerQueueSize c0 = 1024"
  shows "\<exists>e'. Reload c e = (None, e') \<and> engine_setup e' = setup_of c"
proof -
  have m: "map worker_setup (eworkers e) = replicate (nat (WorkerCount c0)) (nat 1024, Some c0)"
    using assms(1,5) by (simp add: engine_setup_def setup_of_def)
  have n: "int (length (eworkers e)) = WorkerCount c0"
    using arg_cong [OF m, of length] assms(4) by (simp add: usable_def)
  have w: "inCap w = 1024" if "w \<in> set (eworkers e)" for w
  proof -
    have "worker_setup w \<in> set (replicate (nat (WorkerCount c0)) (nat 1024, Some c0))"
      using that unfolding m [symmetric] by simp
    then show ?thesis by (simp add: worker_setup_def)
  qed
  have "find (\<lambda>w. int (inCap w) \<noteq> WorkerQueueSize c) (eworkers e) = None"
    using w assms(3,5) by (simp add: find_None_iff)
  moreover have "map worker_setup (map (setConfig c) (eworkers e)) = replicate (nat (WorkerCount c)) (nat (WorkerQueueSize c), Some c)"
    using w n assms(2,3,5)
    by (intro replicate_eqI) (auto simp: worker_setup_def setConfig_def)
  ultimately show ?thesis
    using n assms(2) by (auto simp: Reload_def Let_def engine_setup_def setup_of_def split: option.split)
qed

definition harmless :: "cleanup option \<Rightarrow> bool" where
  "harmless co \<longleftrightarrow> (\<forall>cl. co = Some cl \<longrightarrow> \<not> cUninstall cl \<and> \<not> cStop cl)"

definition loop_inv :: "svc_loop \<Rightarrow> bool" where
  "loop_inv u \<longleftrightarrow> usable (curCfg u) \<and> WorkerQueueSize (curCfg u) = 1024 \<and> engine_setup (eng (svcRun u)) = setup_of (curCfg u)
     \<and> harmless (svcCleanup u)"

lemma kept_cfg_eq: "kept_cfg cur new = new\<lparr>WorkerCount := WorkerCount cur, WorkerQueueSize := WorkerQueueSize cur\<rparr>"
  by (simp add: kept_cfg_def Let_def)

text \<open>A reload takes over the new settings, apart from the number of workers and their queues.\<close>

lemma reload_inv:
  assumes "loop_inv u" "reload_service p a fs u l = (u', l')"
  shows "loop_inv u' \<and> (case effectiveWindowsConfig (pJson p) (pFloat p) (pCpus p) (pHost p) a fs True l of
      (Inl e, _) \<Rightarrow> u' = u
    | (Inr (c, wc), _) \<Rightarrow> curCfg u' = c\<lparr>WorkerCount := WorkerCount (curCfg u), WorkerQueueSize := WorkerQueueSize (curCfg u)\<rparr>)"
proof -
  obtain r l1 where E: "effectiveWindowsConfig (pJson p) (pFloat p) (pCpus p) (pHost p) a fs True l = (r, l1)" by force
  show ?thesis
  proof (cases r)
    case (Inr cw)
    obtain c wc where cw: "cw = (c, wc)" by force
    have c: "usable c \<and> WorkerQueueSize c = 1024" using service_settings E Inr cw by blast
    let ?c = "kept_cfg (curCfg u) c"
    obtain e' where e': "Reload ?c (eng (svcRun u)) = (None, e')" "engine_setup e' = setup_of ?c"
      using Reload_setup [of "eng (svcRun u)" "curCfg u" ?c] assms(1) by (auto simp: loop_inv_def kept_cfg_eq)
    obtain ad opts where q: "update_queues (pDivert p) (AdapterOpts wc) (svcAd u, AdapterOpts (curWc u)) = (ad, opts)" by force
    have "u' = u\<lparr>svcAd := ad, curWc := (curWc u)\<lparr>AdapterOpts := opts\<rparr>, svcRun := (svcRun u)\<lparr>eng := e'\<rparr>, curCfg := ?c\<rparr>"
      using assms(2) e'(1) by (simp add: reload_service_def E Inr cw q Let_def)
    moreover have "usable ?c" using c assms(1) by (simp add: kept_cfg_eq usable_def loop_inv_def)
    ultimately show ?thesis
      using assms(1) e'(2) by (simp add: loop_inv_def E Inr cw kept_cfg_eq)
  qed (use assms in \<open>auto simp: reload_service_def E\<close>)
qed

section \<open>Runs of the service\<close>

lemma ensure_files_wc:
  assumes "ensureWinDivertFiles sf w wc exeDir l = ((wc', dir, r), l')"
  shows "\<exists>d. wc' = wc\<lparr>WinDivertDir := d\<rparr>"
proof -
  have "wc' = wc \<or> (\<exists>d. wc' = wc\<lparr>WinDivertDir := d\<rparr>)"
    using assms by (auto simp: ensureWinDivertFiles_def fall_back_def Let_def split: if_splits option.splits prod.splits bool.splits)
  then show ?thesis by (auto intro: exI [of _ "WinDivertDir wc"])
qed

lemma prepare_driver_harmless:
  assumes "prepare_driver p False wc l = (Inr (wc', cl), l')" "\<not> AutoUninstallDriver wc"
  shows "harmless cl \<and> (\<exists>d. wc' = wc\<lparr>WinDivertDir := d\<rparr>)"
proof -
  obtain wc1 dir r l1 where e: "ensureWinDivertFiles (pSysFirst p) (pHost p) wc (exe_dir (pHost p)) l = ((wc1, dir, r), l1)"
    by (metis prod.collapse)
  then obtain d where d: "wc1 = wc\<lparr>WinDivertDir := d\<rparr>" using ensure_files_wc by blast
  obtain x l2 where x: "set_path (pHost p) dir l1 = (x, l2)" by force
  obtain y l3 where y: "Ensure (pHost p) (driver_config wc1 dir False) l2 = (y, l3)" by force
  have "y = Inr cl \<and> wc' = wc1"
    using assms(1) by (simp add: prepare_driver_def e x y split: option.splits sum.splits)
  then have x: "Ensure (pHost p) (driver_config wc1 dir False) l2 = (Inr cl, l3)" "wc' = wc1" using y by simp_all
  then have "\<forall>k. cl = Some k \<longrightarrow> (\<exists>j. owns (driver_config wc1 dir False) j k)" using Ensure_log by blast
  then show ?thesis using assms(2) d x(2) by (auto simp: harmless_def owns_def driver_config_def)
qed

lemma start_inv:
  assumes "start_service p a fs l = (Inr u, l')"
  shows "loop_inv u"
proof -
  obtain c wc l1 where c: "effectiveWindowsConfig (pJson p) (pFloat p) (pCpus p) (pHost p) a fs True l = (Inr (c, wc), l1)"
    using assms by (auto simp: start_service_def split: sum.splits prod.splits)
  obtain wc2 cl l2 where d: "prepare_driver p False wc l1 = (Inr (wc2, cl), l2)"
    using assms by (auto simp: start_service_def c split: sum.splits prod.splits)
  have u: "curCfg u = c" "svcRun u = Run_start (Engine_New c)" "svcCleanup u = cl"
    using assms by (auto simp: start_service_def c d split: sum.splits)
  show ?thesis
    using service_settings [OF c] prepare_driver_harmless [OF d] engine_new_setup [of c] u
    by (auto simp: loop_inv_def Run_start_def)
qed

definition serving_inv :: "service \<Rightarrow> bool" where
  "serving_inv s \<longleftrightarrow> (\<forall>u. loop_of (runner s) = Some u \<longrightarrow> loop_inv u)"

lemma runner_fields [simp]:
  "runner (request c s) = runner s" "runner (leave_handler r s) = runner s" "runner (report st s) = runner s"
  by (simp_all add: request_def leave_handler_def report_def split: svc_cmd.split)

lemma loop_of_set [simp]: "loop_of (set_loop u r) = (case loop_of r of None \<Rightarrow> None | Some _ \<Rightarrow> Some u)"
  by (cases r) simp_all

lemma svc_step_inv:
  assumes "svc_step p a fs s s'" "env_ok (pAdapter p)" "serving_inv s"
  shows "serving_inv s'"
  using assms(1,3)
proof (cases rule: svc_step.cases)
  case (EngineGoes u act r)
  then have "\<forall>c. act \<noteq> DoReload c" by (auto simp: engine_may_def)
  then have "engine_setup (eng r) = engine_setup (eng (svcRun u))"
    using act_step_setup [OF assms(2)] EngineGoes by blast
  then show ?thesis using EngineGoes assms(3) by (auto simp: serving_inv_def loop_inv_def)
next
  case (Reloads u u' l)
  then show ?thesis using reload_inv assms(3) by (auto simp: serving_inv_def)
next
  case (Starts u l)
  then show ?thesis using start_inv by (auto simp: serving_inv_def)
qed (auto simp: serving_inv_def)

lemma svc_reach_inv:
  "svc_reach p a fs s0 s \<Longrightarrow> env_ok (pAdapter p) \<Longrightarrow> serving_inv s0 \<Longrightarrow> serving_inv s"
  by (induction rule: svc_reach.induct) (auto dest: svc_step_inv)

lemma setup_workers:
  assumes "engine_setup e = setup_of c"
  shows "ecfg e = c \<and> (\<forall>w\<in>set (eworkers e). cfg w = Some c) \<and> length (eworkers e) = nat (WorkerCount c)"
proof -
  have m: "map worker_setup (eworkers e) = replicate (nat (WorkerCount c)) (nat (WorkerQueueSize c), Some c)" "ecfg e = c"
    using assms by (simp_all add: engine_setup_def setup_of_def)
  have "worker_setup w \<in> set (replicate (nat (WorkerCount c)) (nat (WorkerQueueSize c), Some c))" if "w \<in> set (eworkers e)" for w
    using that unfolding m(1) [symmetric] by simp
  then show ?thesis using m(2) arg_cong [OF m(1), of length] by (auto simp: worker_setup_def)
qed

text \<open>C33. Reloading the service.  In every state that the service reaches, however the requests,
  the loop, the engine's goroutines and earlier reloads interleave, the engine and all of its
  workers run with the loop's current configuration, which passes all checks.  A reload then is
  never refused by the engine: if the new configuration is invalid nothing changes, and
  otherwise the engine and every worker have it afterwards, except that the number of workers
  and the size of their queues stay.\<close>

theorem service_reload_applies:
  assumes "env_ok (pAdapter p)" "svc_reach p a fs (service_init l0) s" "loop_of (runner s) = Some u"
    and "reload_service p a fs u l = (u', l')"
  shows "usable (curCfg u) \<and> ecfg (eng (svcRun u)) = curCfg u \<and> (\<forall>w\<in>set (eworkers (eng (svcRun u))). cfg w = Some (curCfg u))
    \<and> (case effectiveWindowsConfig (pJson p) (pFloat p) (pCpus p) (pHost p) a fs True l of
        (Inl e, _) \<Rightarrow> u' = u
      | (Inr (c, wc), _) \<Rightarrow> curCfg u' = c\<lparr>WorkerCount := WorkerCount (curCfg u), WorkerQueueSize := WorkerQueueSize (curCfg u)\<rparr>)
    \<and> ecfg (eng (svcRun u')) = curCfg u' \<and> (\<forall>w\<in>set (eworkers (eng (svcRun u'))). cfg w = Some (curCfg u'))
    \<and> length (eworkers (eng (svcRun u'))) = length (eworkers (eng (svcRun u)))"
proof -
  have "serving_inv (service_init l0)" by (simp add: serving_inv_def service_init_def)
  then have "serving_inv s" by (rule svc_reach_inv [OF assms(2,1)])
  then have u: "loop_inv u" using assms(3) by (simp add: serving_inv_def)
  note r = reload_inv [OF u assms(4)]
  have same: "WorkerCount (curCfg u') = WorkerCount (curCfg u)"
  proof (cases "effectiveWindowsConfig (pJson p) (pFloat p) (pCpus p) (pHost p) a fs True l")
    case (Pair x y)
    then show ?thesis using conjunct2 [OF r] by (cases x) (simp_all split: prod.splits)
  qed
  have "ecfg (eng (svcRun v)) = curCfg v \<and> (\<forall>w\<in>set (eworkers (eng (svcRun v))). cfg w = Some (curCfg v))
      \<and> length (eworkers (eng (svcRun v))) = nat (WorkerCount (curCfg v)) \<and> usable (curCfg v)" if "loop_inv v" for v
    using setup_workers that unfolding loop_inv_def by blast
  note v = this [OF u] this [OF conjunct1 [OF r]]
  have "length (eworkers (eng (svcRun u'))) = length (eworkers (eng (svcRun u)))" using v same by presburger
  then show ?thesis using v r by (elim conjE) (intro conjI; assumption)
qed

section \<open>The life of the service\<close>

definition begun :: "svc_state list \<Rightarrow> svc_update list" where
  "begun qs = [Report StartPending, Report SvcRunning] @ map Answer qs"

definition ended :: "svc_state list \<Rightarrow> bool \<Rightarrow> svc_update list" where
  "ended qs stop = begun qs @ (if stop then [Report StopPending] else []) @ [Report SvcStopped]"

definition life_inv :: "service \<Rightarrow> bool" where
  "life_inv s \<longleftrightarrow> (\<exists>qs. case handler s of
     Listening \<Rightarrow> reported s = begun qs \<and> \<not> stopAsked s
   | AwaitRunner \<Rightarrow> reported s = begun qs @ [Report StopPending] \<and> stopAsked s
   | Exited n \<Rightarrow> stopAsked s \<and> (\<exists>r stop. runner s = Ended r \<and> n = exit_code r \<and> reported s = ended qs stop))"

lemma begun_answer: "begun qs @ [Answer q] = begun (qs @ [q])"
  by (simp add: begun_def)

lemma life_request:
  assumes "life_inv s" "handler s = Listening"
  shows "life_inv (request c s)"
  using assms by (cases c) (auto simp: life_inv_def request_def report_def begun_answer)

lemma life_leave:
  assumes "life_inv s" "handler s = Listening \<or> handler s = AwaitRunner" "runner s = Ended r"
  shows "life_inv (leave_handler r s)"
proof -
  obtain qs stop where "reported s = begun qs @ (if stop then [Report StopPending] else [])"
    using assms(1,2) by (auto simp: life_inv_def split: if_splits)
      (metis append_Nil2, metis)
  then have "reported (leave_handler r s) = ended qs stop" by (simp add: leave_handler_def report_def ended_def)
  then show ?thesis using assms(3) by (auto simp: life_inv_def leave_handler_def report_def)
qed

lemma life_runner:
  assumes "life_inv s" "\<forall>e. runner s \<noteq> Ended e"
  shows "life_inv (s\<lparr>runner := r, hostLog := l\<rparr>)" "life_inv (s\<lparr>runner := r\<rparr>)" "life_inv (s\<lparr>reloadCh := b, runner := r, hostLog := l\<rparr>)"
  using assms by (auto simp: life_inv_def split: handler.splits)

lemma life_step: "svc_step p a fs s s' \<Longrightarrow> life_inv s \<Longrightarrow> life_inv s'"
  by (induction rule: svc_step.induct) (auto intro!: life_request life_leave life_runner)

text \<open>The errors that stand for the cancellation: the cancellation itself, as the host or the engine
  reports it, an error that wraps one, and several joined of which one is one.\<close>

inductive cancellation :: "run_error \<Rightarrow> bool" where
  Host: "cancellation (HostError (OsErr Canceled))"
| Wrapping: "cancellation (HostError e) \<Longrightarrow> cancellation (HostError (Wrapped pre e post))"
| Context: "cancellation (EngineError pre ContextCanceled)"
| Joined: "e \<in> set es \<Longrightarrow> cancellation (EngineError pre e) \<Longrightarrow> cancellation (EngineError pre (ErrJoin es))"

inductive_simps cancellation_simps [simp]:
  "cancellation (HostError (Msg m))" "cancellation (HostError (OsErr x))" "cancellation (HostError (BadDuration m))"
  "cancellation (HostError (Wrapped pre e post))" "cancellation (EngineError pre (ErrJoin es))"

inductive_cases engine_cancellation: "cancellation (EngineError pre e)"

lemma host_cancellation: "cancellation (HostError e) = werr_is e Canceled"
  by (induction e) auto

lemma context_cancellation: "cancellation (EngineError pre e) = errors_is e ContextCanceled"
  by (induction e) (auto simp: list_ex_iff elim: engine_cancellation intro: cancellation.Context)

lemma canceled_cancellation: "canceled_error e = cancellation e"
  by (cases e) (simp_all add: host_cancellation context_cancellation)

lemma exit_code_cases: "exit_code r \<in> {0, 1}" "exit_code r = 1 \<longleftrightarrow> (\<exists>e. r = Some e \<and> \<not> cancellation e)"
  by (auto simp: exit_code_def canceled_cancellation split: option.split)

text \<open>C34. The life of the service.  Whatever the service manager asks for and however its handler, the
  run and the engine interleave, the service reports that it starts and runs, then only answers
  questions, at most once that it is stopping, and last that it has stopped; it has cancelled
  the run when it exits; its exit code is 0 or 1; and it is 1 exactly if the run ended with an
  error that does not stand for the cancellation: neither is it one, nor does it wrap one.\<close>

theorem service_lifecycle:
  assumes "svc_reach p a fs (service_init l0) s" "handler s = Exited n"
  shows "stopAsked s \<and> (\<exists>r qs stop. runner s = Ended r \<and> n \<in> {0, 1} \<and> (n = 1 \<longleftrightarrow> (\<exists>e. r = Some e \<and> \<not> cancellation e))
    \<and> reported s = [Report StartPending, Report SvcRunning] @ map Answer qs @ (if stop then [Report StopPending] else [])
        @ [Report SvcStopped])"
proof -
  have "life_inv (service_init l0)" by (auto simp: life_inv_def service_init_def begun_def)
  with assms(1) have "life_inv s" by (induction rule: svc_reach.induct) (auto dest: life_step)
  then obtain r qs stop where s: "stopAsked s" "runner s = Ended r" "n = exit_code r" "reported s = ended qs stop"
    using assms(2) by (auto simp: life_inv_def)
  show ?thesis using s exit_code_cases [of r] unfolding ended_def begun_def append_assoc by blast
qed

section \<open>The driver is left alone\<close>

text \<open>Operations that neither stop nor delete the driver's service, and functions that make only such.\<close>

definition calm :: "wop \<Rightarrow> bool" where
  "calm op \<longleftrightarrow> op \<noteq> sc [''stop'', ''WinDivert''] \<and> op \<noteq> sc [''delete'', ''WinDivert'']"

definition calmly :: "wlog \<Rightarrow> 'a \<times> wlog \<Rightarrow> bool" where
  "calmly l r \<longleftrightarrow> (\<exists>k. snd r = l @ k \<and> list_all calm k)"

lemma calm_simps [simp]:
  "calm (MkdirAll d)" "calm (Stat d)" "calm (ReadFile d)" "calm (CreateNew d)" "calm (WriteTo d b)" "calm (CloseOf d)"
  "calm (RemoveFile d)" "calm (RenameFile d b)" "calm (CreateTemp d b)" "calm (HttpGet d)" "calm CloseBody"
  "calm (ReceiveInto d)" "calm (OpenZip d)" "calm (CloseZip d)" "calm (OpenEntry d)" "calm (CloseEntry d)"
  "calm (CopyEntry d b)" "calm (SetEnv d b)" "calm (Command exe (x # ''/reset'' # xs))" "calm (Command exe (x # y # z # xs))"
  "calm (sc [''query'', n])" "calm (sc [''qc'', n])" "calm (sc [''start'', n])" "calm (sc (create_args n q))" "calm (sc (config_args n q))"
  by (simp_all add: calm_def sc_def create_args_def config_args_def)

lemma calmly_refl [simp]: "calmly l (x, l)"
  by (simp add: calmly_def)

lemma calmly_add: "list_all calm k \<Longrightarrow> calmly l (x, l @ k)"
  by (simp add: calmly_def)

lemma calmly_after: "calm op \<Longrightarrow> calm op' \<Longrightarrow> calmly l (wdo w op (l @ [op']))"
  by (simp add: calmly_def)

lemma calmly_trans: "calmly l (x, l1) \<Longrightarrow> calmly l1 r \<Longrightarrow> calmly l r"
  unfolding calmly_def by auto

lemma calmly_bind: "calmly l r \<Longrightarrow> (\<And>x l1. calmly l1 (f x l1)) \<Longrightarrow> calmly l (case r of (x, l1) \<Rightarrow> f x l1)"
  by (cases r) (auto intro: calmly_trans)

lemma calmly_wdo: "calm op \<Longrightarrow> calmly l (wdo w op l)"
  by (simp add: calmly_def)

lemma calmly_wthen: "calmly l r \<Longrightarrow> (\<And>l1. calmly l1 (f l1)) \<Longrightarrow> calmly l (wthen r f)"
  unfolding wthen_def by (rule calmly_bind) (auto split: option.split)

lemma calmly_wwrap: "calmly l r \<Longrightarrow> calmly l (wwrap pre r)"
  by (simp add: calmly_def)

lemma calmly_defer: "list_all calm ops \<Longrightarrow> calmly l r \<Longrightarrow> calmly l (with_defer ops r)"
  by (cases r) (auto simp: calmly_def)

lemma calmly_if: "(b \<Longrightarrow> calmly l r) \<Longrightarrow> (\<not> b \<Longrightarrow> calmly l s) \<Longrightarrow> calmly l (if b then r else s)"
  by simp

lemma calmly_option: "(x = None \<Longrightarrow> calmly l r) \<Longrightarrow> (\<And>y. x = Some y \<Longrightarrow> calmly l (f y)) \<Longrightarrow> calmly l (case x of None \<Rightarrow> r | Some y \<Rightarrow> f y)"
  by (cases x) simp_all

lemma calmly_sum: "(\<And>e. x = Inl e \<Longrightarrow> calmly l (f e)) \<Longrightarrow> (\<And>y. x = Inr y \<Longrightarrow> calmly l (g y)) \<Longrightarrow> calmly l (case x of Inl e \<Rightarrow> f e | Inr y \<Rightarrow> g y)"
  by (cases x) simp_all

lemma calmly_bool: "(b \<Longrightarrow> calmly l r) \<Longrightarrow> (\<not> b \<Longrightarrow> calmly l s) \<Longrightarrow> calmly l (case b of True \<Rightarrow> r | False \<Rightarrow> s)"
  by (cases b) simp_all

lemma calmly_pair: "(\<And>a b. x = (a, b) \<Longrightarrow> calmly l (f a b)) \<Longrightarrow> calmly l (case x of (a, b) \<Rightarrow> f a b)"
  by (cases x) simp

lemmas calmly_intros = calmly_refl calmly_wdo calmly_wthen calmly_wwrap calmly_defer calmly_if calmly_bind calmly_option
  calmly_sum calmly_bool calmly_pair

lemma calmly_present: "calmly l (present w q l)"
  unfolding present_def by (intro calmly_intros) simp

lemma calmly_has_files: "calmly l (HasWinDivertFiles w d n l)"
  unfolding HasWinDivertFiles_def Let_def by (intro calmly_present calmly_intros)

lemma calmly_extract: "calmly l (extractZipFile w e d l)"
  unfolding extractZipFile_def Let_def wdo_simps
  by (intro calmly_refl calmly_if calmly_wthen calmly_defer calmly_wdo calmly_after) simp_all

lemma calmly_extract_all: "calmly l (extract_all w d ns found l)"
proof (induction ns arbitrary: found l)
  case (Cons n ns)
  show ?case
    by (cases found; simp only: extract_all.simps)
      (intro calmly_if calmly_bind calmly_option calmly_extract calmly_refl Cons.IH)
qed simp

lemma calmly_download: "calmly l (DownloadWinDivertX64 sf w d l)"
  unfolding DownloadWinDivertX64_def Let_def receive_def unpack_def
  by (intro calmly_refl calmly_if calmly_wthen calmly_wwrap calmly_defer calmly_wdo calmly_bind [OF calmly_extract_all] calmly_sum)
    (simp_all add: calmly_pair)

lemma calmly_icacls: "calm (Command exe args) \<Longrightarrow> calmly l (icacls_step w label q exe args l)"
  unfolding icacls_step_def by (intro calmly_bind calmly_option calmly_refl calmly_wdo)

lemma calmly_harden: "calmly l (harden w label g q l)"
  unfolding harden_def by (intro calmly_sum calmly_wthen calmly_icacls calmly_refl) simp_all

lemma calmly_secure: "calmly l (ensureSecureWindowsDir w d l)" "calmly l (hardenWindowsFileACL w q l)"
  unfolding ensureSecureWindowsDir_def hardenWindowsFileACL_def hardenWindowsDirACL_def Let_def
  by (intro calmly_if calmly_wthen calmly_wdo calmly_harden calmly_refl; simp)+

lemma calmly_ensure_files: "calmly l (ensureWinDivertFiles sf w wc d l)"
  unfolding ensureWinDivertFiles_def fall_back_def Let_def
  by (intro calmly_if calmly_bind [OF calmly_has_files] calmly_bind [OF calmly_download] calmly_bind [OF calmly_wwrap]
      calmly_bool calmly_option calmly_secure calmly_refl)

lemma calmly_set_path: "calmly l (set_path w d l)"
  unfolding set_path_def PrependPath_def Let_def
  by (intro calmly_if calmly_wwrap calmly_option calmly_wthen calmly_wdo calmly_refl) simp_all

lemma calmly_first_present: "calmly l (first_present w ps l)"
proof (induction ps arbitrary: l)
  case (Cons q ps)
  show ?case unfolding first_present.simps by (intro calmly_bind [OF calmly_present] calmly_bool calmly_refl Cons.IH)
qed simp

lemma calmly_query: "calmly l (queryService w n l)" "calmly l (queryServiceBinPath w n l)"
  using queryService_log [of w n l] queryServiceBinPath_log [of w n l]
  by (cases "queryService w n l"; cases "queryServiceBinPath w n l"; simp add: calmly_def)+

lemma calmly_Ensure: "calmly l (Ensure w c l)"
  unfolding Ensure_def install_def repoint_def start_if_def resolveDir_def resolveSysPath_def createService_def configService_def
    startService_def sc_only_def Let_def
  by (intro calmly_if calmly_bind [OF calmly_query(1)] calmly_bind [OF calmly_query(2)] calmly_bind [OF calmly_present]
      calmly_bind [OF calmly_first_present] calmly_bind calmly_sum calmly_option calmly_bool calmly_pair calmly_wdo calmly_refl) simp_all

lemma calmly_prepare: "calmly l (prepare_driver p b wc l)"
  unfolding prepare_driver_def
  by (intro calmly_bind [OF calmly_ensure_files] calmly_pair calmly_option calmly_bind [OF calmly_set_path]
      calmly_bind [OF calmly_Ensure] calmly_sum calmly_refl)

lemma calmly_write: "calmly l (writeWindowsJSONConfigIfMissing js w q j l)"
  unfolding writeWindowsJSONConfigIfMissing_def
  by (intro calmly_wthen calmly_sum calmly_bind [OF calmly_wdo] calmly_option calmly_defer calmly_wdo calmly_refl) simp_all

lemma calmly_effective: "calmly l (effectiveWindowsConfig js fm cpus w a fs sv l)"
proof -
  have read: "calmly l (readWindowsJSONConfig js w q l)" for q l
    unfolding readWindowsJSONConfig_def by (intro calmly_bind calmly_option calmly_wdo calmly_refl) simp
  have first: "calmly l (first_run js w root q d l)" for root q d l
    unfolding first_run_def by (intro calmly_wthen calmly_wwrap calmly_write calmly_if calmly_secure calmly_refl)
  have content: "calmly l (file_values js fm w sv b root q d l)" for b root q d l
    unfolding file_values_def
    by (intro calmly_if calmly_bind [OF read] calmly_bind [OF first] calmly_sum calmly_option calmly_refl)
  have safe: "calmly l (secure_state w sv root q l)" for root q l
    unfolding secure_state_def
    by (intro calmly_if calmly_wthen calmly_wwrap calmly_secure calmly_bind [OF calmly_present] calmly_bool calmly_refl)
  show ?thesis
    unfolding effectiveWindowsConfig_def Let_def
    by (intro calmly_pair calmly_bind [OF safe] calmly_bind [OF content] calmly_option calmly_sum calmly_refl)
qed

lemma harmless_cleanup: "harmless co \<Longrightarrow> clean_up w co l = l"
  by (auto simp: clean_up_def harmless_def run_cleanup_def split: option.split)

lemma calmly_start: "calmly l (start_service p a fs l)"
proof -
  obtain r l1 where e: "effectiveWindowsConfig (pJson p) (pFloat p) (pCpus p) (pHost p) a fs True l = (r, l1)" by force
  have 1: "calmly l (x, l1)" for x :: "run_error + svc_loop"
    using calmly_effective [of l "pJson p" "pFloat p" "pCpus p" "pHost p" a fs True] by (simp add: e calmly_def)
  show ?thesis
  proof (cases r)
    case (Inr cw)
    obtain c wc where cw: "cw = (c, wc)" by force
    obtain q l2 where q: "prepare_driver p False wc l1 = (q, l2)" by force
    have "calmly l1 (x, l2)" for x :: "run_error + svc_loop"
      using calmly_prepare [of l1 p False wc] by (simp add: q calmly_def)
    then have 2: "calmly l (x, l2)" for x :: "run_error + svc_loop" using 1 calmly_trans by metis
    have "\<not> AutoUninstallDriver wc" using service_settings [of "pJson p"] e Inr cw by blast
    then have "harmless cl" if "q = Inr (wc', cl)" for wc' cl
      using prepare_driver_harmless q that by blast
    then show ?thesis
      using 2 by (cases q) (auto simp: start_service_def e Inr cw q harmless_cleanup split: sum.split)
  qed (simp add: start_service_def e 1)
qed

lemma calmly_reload: "calmly l (reload_service p a fs u l)"
  unfolding reload_service_def Let_def
  by (intro calmly_bind [OF calmly_effective] calmly_sum calmly_pair calmly_option calmly_refl)

lemma reload_cleanup: "reload_service p a fs u l = (u', l') \<Longrightarrow> svcCleanup u' = svcCleanup u"
  by (auto simp: reload_service_def Let_def split: sum.splits prod.splits option.splits)

lemma start_harmless: "start_service p a fs l = (Inr u, l') \<Longrightarrow> harmless (svcCleanup u)"
  using start_inv by (simp add: loop_inv_def)

definition calm_inv :: "wlog \<Rightarrow> service \<Rightarrow> bool" where
  "calm_inv l0 s \<longleftrightarrow> calmly l0 ((), hostLog s) \<and> (\<forall>u. loop_of (runner s) = Some u \<longrightarrow> harmless (svcCleanup u))"

lemma hostLog_fields [simp]:
  "hostLog (request c s) = hostLog s" "hostLog (leave_handler r s) = hostLog s"
  by (simp_all add: request_def leave_handler_def report_def split: svc_cmd.split)

lemma calm_step:
  assumes "svc_step p a fs s s'" "calm_inv l0 s"
  shows "calm_inv l0 s'"
proof -
  have more: "calmly l0 ((), l)" if "calmly (hostLog s) (x, l)" for x :: 'x and l
    using assms(2) that calmly_trans [of l0 "()" "hostLog s" "((), l)"] by (simp add: calm_inv_def calmly_def)
  show ?thesis
    using assms
  proof (cases rule: svc_step.cases)
    case (StartFails e l)
    then show ?thesis using more calmly_start [of "hostLog s" p a fs] by (simp add: calm_inv_def)
  next
    case (Starts u l)
    then show ?thesis
      using more calmly_start [of "hostLog s" p a fs] start_harmless [of p a fs "hostLog s" u l] by (simp add: calm_inv_def)
  next
    case (Reloads u u' l)
    then show ?thesis
      using more calmly_reload [of "hostLog s" p a fs u] reload_cleanup [of p a fs u "hostLog s" u' l] assms(2)
      by (simp add: calm_inv_def)
  next
    case (Returns u r)
    then show ?thesis using assms(2) harmless_cleanup [of "svcCleanup u"] by (simp add: calm_inv_def)
  qed (use assms(2) in \<open>auto simp: calm_inv_def\<close>)
qed

text \<open>C35. The service leaves the driver alone: in every run of the service, with every file and
  command line, none of the operations on the machine stops or deletes the driver's service;
  other programs may be using it.\<close>

theorem service_leaves_driver:
  assumes "svc_reach p a fs (service_init l0) s"
  shows "\<exists>k. hostLog s = l0 @ k \<and> sc [''stop'', ''WinDivert''] \<notin> set k \<and> sc [''delete'', ''WinDivert''] \<notin> set k"
proof -
  have "calm_inv l0 (service_init l0)" by (simp add: calm_inv_def service_init_def)
  with assms have "calm_inv l0 s" by (induction rule: svc_reach.induct) (auto dest: calm_step)
  then show ?thesis by (auto simp: calm_inv_def calmly_def calm_def list_all_iff)
qed

section \<open>A run of the service\<close>

definition quiet_divert :: wd_os where
  "quiet_divert = \<lparr>wd_result = (\<lambda>_ _. None), wd_open = (\<lambda>_ _. (1, EINVAL)), wd_summed = (\<lambda>_ d. d)\<rparr>"

definition good_prog :: winprog where
  "good_prog = \<lparr>pHost = good_machine, pDivert = quiet_divert, pJson = small_json, pFloat = (\<lambda>f u s. f * u div s), pCpus = 8,
     pSysFirst = True, pAdapter = ok_env,
     pRun = (\<lambda>_ _. None)\<rparr>"

lemma good_effective:
  assumes "effectiveWindowsConfig small_json (\<lambda>f u s. f * u div s) 8 good_machine plain_args (\<lambda>f. f = ''workers'') sv l = (Inr (c, wc), l')"
  shows "(c, wc) = as_service sv (from_file (\<lambda>f u s. f * u div s) small_file (windowsDefaults 8) (\<lambda>f. f = ''workers'') plain_args)"
proof -
  have p: "config_path good_machine plain_args sv l = (''C:/c.json'', False)"
    by (simp add: config_path_def plain_args_def TrimSpace_def is_space_def)
  obtain j where "(c, wc) = as_service sv (from_file (\<lambda>f u s. f * u div s) j (windowsDefaults 8) (\<lambda>f. f = ''workers'') plain_args)"
      "file_read small_json good_machine ''C:/c.json'' l' j"
    using effective_settings [OF assms p] by auto
  moreover from this(2) have "j = small_file" by (auto simp: file_read_def small_json_def)
  ultimately show ?thesis by simp
qed

lemma good_open: "CHR 0x00 \<notin> set filt \<Longrightarrow> \<exists>ad. NewWinDivert quiet_divert filt opts l = Inr ad"
  by (simp add: NewWinDivert_def quiet_divert_def applyOptions_def fresh_wd_def set_positive_def wd_setParam_def wd_do_def Let_def)

lemma good_start:
  "\<exists>u l. start_service good_prog plain_args (\<lambda>f. f = ''workers'') [] = (Inr u, l)"
proof -
  obtain c wc l where e: "effectiveWindowsConfig small_json (\<lambda>f u s. f * u div s) 8 good_machine plain_args (\<lambda>f. f = ''workers'') True [] = (Inr (c, wc), l)"
    using small_effective by blast
  note v = small_fields [OF good_effective [OF e]]
  have g: "failure good_machine = (\<lambda>_ _. None)" "exe_dir good_machine = ''C:/g''" "absPath good_machine = Some"
    by (simp_all add: good_machine_def exe_dir_def)
  have t: "TrimSpace ''C:/g'' = ''C:/g''" "TrimSpace [] = []" by code_simp+
  have h: "\<exists>l'. HasWinDivertFiles good_machine ''C:/g'' n l = (True, l')" for n
    by (simp add: HasWinDivertFiles_def Let_def t present_def wdo_def g)
  then obtain l1 where h: "HasWinDivertFiles good_machine ''C:/g'' (WinDivertSys wc) l = (True, l1)" by blast
  have "ensureWinDivertFiles True good_machine wc ''C:/g'' l = ((wc, ''C:/g'', None), l1)"
    using v by (simp add: ensureWinDivertFiles_def t Let_def h)
  moreover have "fst (set_path good_machine ''C:/g'' l1) = None"
    by (simp add: set_path_def PrependPath_def g wdo_def Let_def)
  then obtain l2 where "set_path good_machine ''C:/g'' l1 = (None, l2)" by (metis prod.collapse)
  ultimately have d: "prepare_driver good_prog False wc l = (Inr (wc, None), l2)"
    using v by (simp add: prepare_driver_def good_prog_def g Ensure_def driver_config_def)
  have "CHR 0x00 \<notin> set (Filter wc)" using v by (simp add: defaultWinDivertFilter_def)
  then obtain ad where "NewWinDivert quiet_divert (Filter wc) (AdapterOpts wc) [] = Inr ad" using good_open by blast
  then have "open_adapter good_prog wc = Inr ad" by (simp add: open_adapter_def good_prog_def)
  then show ?thesis using e d by (simp add: start_service_def good_prog_def)
qed

lemma service_reload_applies_witness:
  "\<exists>s u u' l'. svc_reach good_prog plain_args (\<lambda>f. f = ''workers'') (service_init []) s \<and> reloadCh s \<and> runner s = Serving u
    \<and> reload_service good_prog plain_args (\<lambda>f. f = ''workers'') u (hostLog s) = (u', l')
    \<and> usable (curCfg u) \<and> SplitChunk (curCfg u') = 7 \<and> list_all (\<lambda>w. cfg w = Some (curCfg u')) (eworkers (eng (svcRun u')))"
proof -
  let ?a = plain_args and ?f = "\<lambda>f. f = ''workers''"
  obtain u l where u: "start_service good_prog ?a ?f [] = (Inr u, l)" using good_start by blast
  let ?s = "(service_init [])\<lparr>runner := Serving u, hostLog := l\<rparr>"
  have r: "svc_reach good_prog ?a ?f (service_init []) (request ParamChange ?s)"
  proof (rule svc_reach.Step)
    show "svc_reach good_prog ?a ?f (service_init []) ?s"
      by (rule svc_reach.Step [OF svc_reach.Init]) (rule svc_step.Starts; simp add: service_init_def u)
  qed (rule svc_step.Handle, simp add: service_init_def)
  have s: "runner (request ParamChange ?s) = Serving u" "reloadCh (request ParamChange ?s)" "hostLog (request ParamChange ?s) = l"
    by (simp_all add: request_def)
  obtain u' l' where u': "reload_service good_prog ?a ?f u l = (u', l')" by force
  obtain c wc l2 where e: "effectiveWindowsConfig small_json (\<lambda>f u s. f * u div s) 8 good_machine ?a ?f True l = (Inr (c, wc), l2)"
    using small_effective by blast
  note v = small_fields [OF good_effective [OF e]]
  have "env_ok (pAdapter good_prog)" by (simp add: good_prog_def)
  from service_reload_applies [OF this r _ u'] e s(1)
  have "usable (curCfg u) \<and> curCfg u' = c\<lparr>WorkerCount := WorkerCount (curCfg u), WorkerQueueSize := WorkerQueueSize (curCfg u)\<rparr>
      \<and> list_all (\<lambda>w. cfg w = Some (curCfg u')) (eworkers (eng (svcRun u')))"
    by (simp add: good_prog_def list_all_iff)
  moreover from this have "SplitChunk (curCfg u') = 7" using v by simp
  moreover have "reload_service good_prog ?a ?f u (hostLog (request ParamChange ?s)) = (u', l')" using u' s(3) by simp
  ultimately show ?thesis using r s(1,2) by blast
qed

lemma bad_start: "\<exists>e l. start_service (good_prog\<lparr>pHost := locked_machine\<lparr>failure := \<lambda>_ _. Some (OsErr Permission)\<rparr>\<rparr>)
    plain_args (\<lambda>f. f = ''workers'') [] = (Inl (HostError (wrapped e (OsErr Permission))), l)"
proof -
  let ?w = "locked_machine\<lparr>failure := \<lambda>_ _. Some (OsErr Permission)\<rparr>"
  have p: "config_path ?w plain_args True [] = (''C:/c.json'', False)"
    by (simp add: config_path_def plain_args_def TrimSpace_def is_space_def)
  have u: "\<not> isUnderDir ?w ''C:/c.json'' (programDataRoot ?w [])"
    by (simp add: programDataRoot_def defaultProgramDataDir_def locked_machine_def good_machine_def isUnderDir_def full_path_def
        HasSuffix_def HasPrefix_def ToLower_def lower_char_def backslash_def)
  show ?thesis
    by (simp add: start_service_def effectiveWindowsConfig_def p u Let_def secure_state_def file_values_def readWindowsJSONConfig_def
        wdo_def good_prog_def wrapped_def)
qed

text \<open>A file that cannot be read, and a stop asked for before the run is collected.\<close>

lemma service_lifecycle_witness:
  "\<exists>s :: service. handler s = Exited 1 \<and> stopAsked s \<and> (\<exists>e. runner s = Ended (Some e) \<and> \<not> cancellation e)
    \<and> reported s = [Report StartPending, Report SvcRunning, Answer SvcRunning, Report StopPending, Report SvcStopped]"
proof -
  let ?p = "good_prog\<lparr>pHost := locked_machine\<lparr>failure := \<lambda>_ _. Some (OsErr Permission)\<rparr>\<rparr>"
    and ?f = "\<lambda>f. f = ''workers''"
  obtain e l where b: "start_service ?p plain_args ?f [] = (Inl (HostError (wrapped e (OsErr Permission))), l)" using bad_start by blast
  let ?r = "Some (HostError (wrapped e (OsErr Permission)))"
  define s1 where "s1 = (service_init [])\<lparr>runner := Ended ?r, hostLog := l\<rparr>"
  have 1: "svc_reach ?p plain_args ?f (service_init []) s1"
    unfolding s1_def by (rule svc_reach.Step [OF svc_reach.Init]) (rule svc_step.StartFails; simp add: service_init_def b)
  have 2: "svc_reach ?p plain_args ?f (service_init []) (request SvcStop (request (Interrogate SvcRunning) s1))"
    by (rule svc_reach.Step [OF svc_reach.Step [OF 1]]; rule svc_step.Handle; simp add: s1_def service_init_def request_def report_def)
  let ?s = "leave_handler ?r (request SvcStop (request (Interrogate SvcRunning) s1))"
  have 3: "svc_reach ?p plain_args ?f (service_init []) ?s"
    by (rule svc_reach.Step [OF 2], rule svc_step.Collect) (simp_all add: s1_def request_def report_def)
  have x: "exit_code ?r = 1" by (simp add: exit_code_def wrapped_def)
  have h: "handler ?s = Exited 1" by (simp add: leave_handler_def report_def x)
  have "reported ?s = [Report StartPending, Report SvcRunning, Answer SvcRunning, Report StopPending, Report SvcStopped]"
    by (simp add: leave_handler_def request_def report_def s1_def service_init_def)
  moreover have "runner ?s = Ended ?r" by (simp add: s1_def)
  ultimately show ?thesis using service_lifecycle [OF 3 h] h by fastforce
qed

lemma service_leaves_driver_witness:
  "\<exists>s k. svc_reach good_prog plain_args (\<lambda>f. f = ''workers'') (service_init [SetEnv [] []]) s \<and> handler s = AwaitRunner
    \<and> hostLog s = [SetEnv [] []] @ k \<and> sc [''stop'', ''WinDivert''] \<notin> set k"
proof -
  let ?s = "request SvcStop (service_init [SetEnv [] []])"
  have r: "svc_reach good_prog plain_args (\<lambda>f. f = ''workers'') (service_init [SetEnv [] []]) ?s"
    by (rule svc_reach.Step [OF svc_reach.Init], rule svc_step.Handle) (simp add: service_init_def)
  have "handler ?s = AwaitRunner" by (simp add: request_def)
  then show ?thesis using service_leaves_driver [OF r] r by blast
qed

end
