(* ===== verification/Icon.thy ===== *)
theory Icon
  imports GoPrelude
begin

text \<open>
  The tray's icons (\<^verbatim>\<open>cmd/gov-pass-tray/icon.go\<close>): PNG images in an ICO container.  The
  drawing of the circle, in floating point, and the PNG encoder of the standard library are
  arguments; writing to a \<^verbatim>\<open>bytes.Buffer\<close> does not fail.
\<close>

section \<open>Writing\<close>

definition le16 :: "nat \<Rightarrow> bytes" where
  "le16 n = (let w = word_of_nat n :: u16 in [ucast w, ucast (drop_bit 8 w)])"

definition le32 :: "nat \<Rightarrow> bytes" where
  "le32 n = (let w = word_of_nat n :: u32 in [ucast w, ucast (drop_bit 8 w), ucast (drop_bit 16 w), ucast (drop_bit 24 w)])"

record pngEntry =
  pw :: int
  ph :: int
  png :: bytes

text \<open>\<^verbatim>\<open>uint8(e.w)\<close>, 0 from 256 on.\<close>

definition side :: "int \<Rightarrow> byte" where
  "side n = (if n \<ge> 256 then 0 else word_of_int n)"

fun ico_dir :: "nat \<Rightarrow> pngEntry list \<Rightarrow> string + bytes" where
  "ico_dir offset [] = Inr []"
| "ico_dir offset (e # es) = (
     if pw e \<le> 0 \<or> ph e \<le> 0 then Inl ''invalid png dimensions''
     else if png e = [] then Inl ''empty png''
     else case ico_dir (offset + length (png e)) es of
       Inl err \<Rightarrow> Inl err
     | Inr rest \<Rightarrow> Inr ([side (pw e), side (ph e), 0, 0] @ le16 1 @ le16 32 @ le32 (length (png e)) @ le32 offset @ rest))"

definition buildIcoFromPNGs :: "pngEntry list \<Rightarrow> string + bytes" where
  "buildIcoFromPNGs es = (if es = [] then Inl ''no png entries'' else
     case ico_dir (6 + 16 * length es) es of
       Inl err \<Rightarrow> Inl err
     | Inr dir \<Rightarrow> Inr (le16 0 @ le16 1 @ le16 (length es) @ dir @ concat (map png es)))"

text \<open>The sizes without repetition, in order.\<close>

definition ico_sizes :: "int \<Rightarrow> int list" where
  "ico_sizes sz = (let uniq = remdups (filter (\<lambda>s. 0 < s) [16, sz]) in sort (if uniq = [] then [16] else uniq))"

fun circle_entries :: "(int \<Rightarrow> 'c \<Rightarrow> string + bytes) \<Rightarrow> 'c \<Rightarrow> int list \<Rightarrow> string + pngEntry list" where
  "circle_entries buildPNGCircle c [] = Inr []"
| "circle_entries buildPNGCircle c (s # ss) = (case buildPNGCircle s c of Inl err \<Rightarrow> Inl err
   | Inr pb \<Rightarrow> (case circle_entries buildPNGCircle c ss of Inl err \<Rightarrow> Inl err
     | Inr es \<Rightarrow> Inr (\<lparr>pw = s, ph = s, png = pb\<rparr> # es)))"

definition buildIcoCircle :: "(int \<Rightarrow> 'c \<Rightarrow> string + bytes) \<Rightarrow> int \<Rightarrow> 'c \<Rightarrow> string + bytes" where
  "buildIcoCircle buildPNGCircle sz c = (if sz \<le> 0 then Inl ''size must be > 0'' else
     case circle_entries buildPNGCircle c (ico_sizes sz) of Inl err \<Rightarrow> Inl err | Inr es \<Rightarrow> buildIcoFromPNGs es)"

definition buildIcoTransparent :: "(int \<Rightarrow> string + bytes) \<Rightarrow> int \<Rightarrow> string + bytes" where
  "buildIcoTransparent buildPNGTransparent sz = (case buildPNGTransparent sz of Inl err \<Rightarrow> Inl err
   | Inr pb \<Rightarrow> buildIcoFromPNGs [\<lparr>pw = sz, ph = sz, png = pb\<rparr>])"

definition png1 :: bytes where
  "png1 = [
     0x89, 0x50, 0x4e, 0x47, 0x0d, 0x0a, 0x1a, 0x0a,
     0x00, 0x00, 0x00, 0x0d, 0x49, 0x48, 0x44, 0x52,
     0x00, 0x00, 0x00, 0x01, 0x00, 0x00, 0x00, 0x01,
     0x08, 0x06, 0x00, 0x00, 0x00, 0x1f, 0x15, 0xc4,
     0x89, 0x00, 0x00, 0x00, 0x0a, 0x49, 0x44, 0x41,
     0x54, 0x78, 0x9c, 0x63, 0x00, 0x01, 0x00, 0x00,
     0x05, 0x00, 0x01, 0x0d, 0x0a, 0x2d, 0xb4, 0x00,
     0x00, 0x00, 0x00, 0x49, 0x45, 0x4e, 0x44, 0xae,
     0x42, 0x60, 0x82]"

definition mustBuildEmptyIco :: "(int \<Rightarrow> string + bytes) \<Rightarrow> bytes" where
  "mustBuildEmptyIco buildPNGTransparent = (case buildIcoTransparent buildPNGTransparent 16 of Inr ico \<Rightarrow> ico
   | Inl err \<Rightarrow> (case buildIcoFromPNGs [\<lparr>pw = 1, ph = 1, png = png1\<rparr>] of Inr ico \<Rightarrow> ico | Inl _ \<Rightarrow> []))"

definition mustBuildIcoCircle :: "(int \<Rightarrow> 'c \<Rightarrow> string + bytes) \<Rightarrow> (int \<Rightarrow> string + bytes) \<Rightarrow> int \<Rightarrow> 'c \<Rightarrow> bytes" where
  "mustBuildIcoCircle buildPNGCircle buildPNGTransparent sz c = (case buildIcoCircle buildPNGCircle sz c of
     Inl err \<Rightarrow> mustBuildEmptyIco buildPNGTransparent | Inr ico \<Rightarrow> ico)"

section \<open>Reading\<close>

text \<open>A reader of the container, by its format: the side 0 stands for 256, an image is found by
  its offset and length.\<close>

definition get_le16 :: "bytes \<Rightarrow> nat \<Rightarrow> nat" where
  "get_le16 d i = unat (d ! i) + 256 * unat (d ! (i + 1))"

definition get_le32 :: "bytes \<Rightarrow> nat \<Rightarrow> nat" where
  "get_le32 d i = get_le16 d i + 65536 * get_le16 d (i + 2)"

definition get_side :: "byte \<Rightarrow> int" where
  "get_side b = (if b = 0 then 256 else uint b)"

definition read_entry :: "bytes \<Rightarrow> nat \<Rightarrow> pngEntry option" where
  "read_entry d i = (let n = get_le32 d (i + 8); offset = get_le32 d (i + 12) in
     if offset + n \<le> length d then Some \<lparr>pw = get_side (d ! i), ph = get_side (d ! (i + 1)), png = take n (drop offset d)\<rparr>
     else None)"

definition read_ico :: "bytes \<Rightarrow> pngEntry list option" where
  "read_ico d = (if length d < 6 \<or> get_le16 d 0 \<noteq> 0 \<or> get_le16 d 2 \<noteq> 1 \<or> length d < 6 + 16 * get_le16 d 4 then None
     else those (map (\<lambda>k. read_entry d (6 + 16 * k)) [0..<get_le16 d 4]))"

section \<open>Properties\<close>

definition fits :: "pngEntry list \<Rightarrow> bool" where
  "fits es \<longleftrightarrow> es \<noteq> [] \<and> length es < 2 ^ 16 \<and> list_all (\<lambda>e. 0 < pw e \<and> pw e \<le> 256 \<and> 0 < ph e \<and> ph e \<le> 256 \<and> png e \<noteq> []) es
     \<and> 6 + 16 * length es + (\<Sum>e\<leftarrow>es. length (png e)) < 2 ^ 32"

lemma get_side_side: "0 < n \<Longrightarrow> n \<le> 256 \<Longrightarrow> get_side (side n) = n"
  by (auto simp: get_side_def side_def uint_word_of_int word_of_int_eq_0_iff take_bit_eq_mod dest: zdvd_imp_le)

lemma le_lengths [simp]: "length (le16 n) = 2" "length (le32 n) = 4"
  by (simp_all add: le16_def le32_def Let_def)

lemma unat_byte: "unat (ucast (w :: 'a :: len word) :: byte) = unat w mod 256"
  by (simp add: unsigned_ucast_eq take_bit_eq_mod)

lemma digits2: "n mod 256 + 256 * (n div 256 mod 256) = (n :: nat) mod 65536"
  using mod_mult2_eq [of n 256 256] by simp

lemma unat_digit: "unat (drop_bit k (w :: 'a :: len word)) = unat w div 2 ^ k"
  by (subst unat_drop_bit_eq) (rule drop_bit_eq_div)

lemma unat_le16: "n < 2 ^ 16 \<Longrightarrow> unat (word_of_nat n :: u16) = n"
  and unat_le32: "n < 2 ^ 32 \<Longrightarrow> unat (word_of_nat n :: u32) = n"
  by (simp_all add: unat_of_nat take_bit_nat_eq_self)

lemma nth_after: "length a = i \<Longrightarrow> (a @ b) ! i = b ! 0" "length a = i \<Longrightarrow> (a @ b) ! Suc i = b ! 1"
  "length a = i \<Longrightarrow> (a @ b) ! (i + k) = b ! k"
  by (auto simp: nth_append)

lemma get_le16_at: "length a = i \<Longrightarrow> n < 2 ^ 16 \<Longrightarrow> get_le16 (a @ le16 n @ b) i = n"
  using unat_le16 [of n] digits2 [of n]
  by (simp add: get_le16_def le16_def Let_def nth_after unat_byte unat_digit)

lemma digits4: "n mod 256 + 256 * (n div 256 mod 256) + (65536 * (n div 65536 mod 256) + 16777216 * (n div 16777216 mod 256))
    = (n :: nat) mod 4294967296"
  using digits2 [of n] digits2 [of "n div 65536"] mod_mult2_eq [of n 65536 65536] div_mult2_eq [of n 65536 256] by simp

lemma get_le32_at: "length a = i \<Longrightarrow> n < 2 ^ 32 \<Longrightarrow> get_le32 (a @ le32 n @ b) i = n"
  using unat_le32 [of n] digits4 [of n]
  by (simp add: get_le32_def get_le16_def le32_def Let_def nth_append unat_byte unat_digit)

text \<open>One entry of the directory.\<close>

definition dir_entry :: "pngEntry \<Rightarrow> nat \<Rightarrow> bytes" where
  "dir_entry e offset = [side (pw e), side (ph e), 0, 0] @ le16 1 @ le16 32 @ le32 (length (png e)) @ le32 offset"

lemma dir_entry_length [simp]: "length (dir_entry e offset) = 16"
  by (simp add: dir_entry_def)

lemma read_dir_entry:
  assumes "d = a @ dir_entry e offset @ b" "length a = i" "length (png e) < 2 ^ 32" "offset < 2 ^ 32"
    and "0 < pw e" "pw e \<le> 256" "0 < ph e" "ph e \<le> 256" "offset + length (png e) \<le> length d"
    and "take (length (png e)) (drop offset d) = png e"
  shows "read_entry d i = Some e"
proof -
  let ?a = "a @ [side (pw e), side (ph e), 0, 0] @ le16 1 @ le16 32"
  have "get_le32 d (i + 8) = length (png e)"
    using get_le32_at [of ?a "i + 8" "length (png e)" "le32 offset @ b"] assms(1-3) by (simp add: dir_entry_def)
  moreover have "get_le32 d (i + 12) = offset"
    using get_le32_at [of "?a @ le32 (length (png e))" "i + 12" offset b] assms(1,2,4) by (simp add: dir_entry_def)
  moreover have "d ! i = side (pw e)" "d ! (i + 1) = side (ph e)"
    using assms(1,2) by (simp_all add: dir_entry_def nth_append)
  ultimately show ?thesis using assms(5-) by (simp add: read_entry_def Let_def get_side_side)
qed

lemma ico_dir_Cons:
  "ico_dir offset (e # es) = Inr dir \<longleftrightarrow> 0 < pw e \<and> 0 < ph e \<and> png e \<noteq> [] \<and>
     (\<exists>rest. ico_dir (offset + length (png e)) es = Inr rest \<and> dir = dir_entry e offset @ rest)"
  by (cases "ico_dir (offset + length (png e)) es") (auto simp: dir_entry_def not_le)

lemma ico_dir_read:
  assumes "ico_dir offset es = Inr dir" "list_all (\<lambda>e. pw e \<le> 256 \<and> ph e \<le> 256) es"
    and "d = a @ dir @ b" "length a = i" "offset + (\<Sum>e\<leftarrow>es. length (png e)) < 2 ^ 32"
    and "drop offset d = concat (map png es)" "offset \<le> length d"
  shows "map (\<lambda>k. read_entry d (i + 16 * k)) [0..<length es] = map Some es"
  using assms
proof (induction es arbitrary: offset dir a i)
  case (Cons e es)
  then obtain rest where r: "ico_dir (offset + length (png e)) es = Inr rest" "dir = dir_entry e offset @ rest"
      "0 < pw e" "0 < ph e"
    using ico_dir_Cons by blast
  have d: "drop offset d = png e @ concat (map png es)" using Cons.prems by simp
  have l: "length d = offset + length (png e) + length (concat (map png es))"
    using Cons.prems(7) arg_cong [OF d, where f = length] by simp
  have d2: "drop (offset + length (png e)) d = concat (map png es)"
    using arg_cong [OF d, where f = "drop (length (png e))"] by (simp add: add.commute)
  have "read_entry d i = Some e"
    using Cons.prems r l d by (intro read_dir_entry [of d a e offset "rest @ b" i]) auto
  moreover have "map (\<lambda>k. read_entry d (i + 16 + 16 * k)) [0..<length es] = map Some es"
    using Cons.prems r l d2 by (intro Cons.IH [of "offset + length (png e)" rest "a @ dir_entry e offset" "i + 16"]) auto
  moreover have "[0..<length (e # es)] = 0 # map Suc [0..<length es]" by (simp add: upt_conv_Cons map_Suc_upt del: upt_Suc)
  ultimately show ?case by (simp add: o_def add.assoc del: upt_Suc)
qed simp

lemma ico_dir_total:
  "list_all (\<lambda>e. 0 < pw e \<and> 0 < ph e \<and> png e \<noteq> []) es \<Longrightarrow> \<exists>dir. ico_dir offset es = Inr dir"
proof (induction es arbitrary: offset)
  case (Cons e es)
  then show ?case using Cons.IH [of "offset + length (png e)"] by (simp add: ico_dir_Cons del: ico_dir.simps)
qed simp

lemma ico_dir_length: "ico_dir offset es = Inr dir \<Longrightarrow> length dir = 16 * length es"
proof (induction es arbitrary: offset dir)
  case (Cons e es)
  then show ?case by (auto simp: ico_dir_Cons simp del: ico_dir.simps)
qed simp

lemma those_map_Some: "those (map Some xs) = Some xs"
  by (induction xs) simp_all

text \<open>C40. Icons read back: for at least one and fewer than 65536 images whose sides are between 1 and
  256 and whose container has less than 4 GiB, the container is built, and a reader of the
  format that finds each image by the offset and length in its directory entry gets back
  exactly the images with their sides, in order.\<close>

theorem ico_roundtrip:
  assumes "fits es"
  shows "\<exists>d. buildIcoFromPNGs es = Inr d \<and> read_ico d = Some es \<and> length d = 6 + 16 * length es + (\<Sum>e\<leftarrow>es. length (png e))"
proof -
  let ?o = "6 + 16 * length es" and ?a = "le16 0 @ le16 1 @ le16 (length es)"
  obtain dir where dir: "ico_dir ?o es = Inr dir"
    using assms ico_dir_total [of es ?o] by (fastforce simp: fits_def list_all_iff)
  define d where "d = ?a @ dir @ concat (map png es)"
  have len: "length dir = 16 * length es" by (rule ico_dir_length [OF dir])
  have sides: "list_all (\<lambda>e. pw e \<le> 256 \<and> ph e \<le> 256) es" using assms by (auto simp: fits_def list_all_iff)
  have "map (\<lambda>k. read_entry d (6 + 16 * k)) [0..<length es] = map Some es"
    using ico_dir_read [OF dir sides, of d ?a "concat (map png es)" 6] assms len by (simp add: d_def fits_def)
  moreover have "get_le16 d 0 = 0" "get_le16 d 2 = 1" "get_le16 d 4 = length es"
    using get_le16_at [of "[]" 0 0] get_le16_at [of "le16 0" 2 1] get_le16_at [of "le16 0 @ le16 1" 4 "length es"] assms
    by (simp_all add: d_def fits_def)
  moreover have "length d = ?o + (\<Sum>e\<leftarrow>es. length (png e))" by (simp add: d_def len length_concat o_def)
  ultimately have "read_ico d = Some es" by (simp add: read_ico_def those_map_Some)
  moreover have "buildIcoFromPNGs es = Inr d" using assms dir by (simp add: buildIcoFromPNGs_def fits_def d_def)
  ultimately show ?thesis using \<open>length d = _\<close> by blast
qed

lemma ico_roundtrip_witness:
  "\<exists>d. buildIcoFromPNGs [\<lparr>pw = 1, ph = 256, png = png1\<rparr>] = Inr d \<and> read_ico d = Some [\<lparr>pw = 1, ph = 256, png = png1\<rparr>]"
  using ico_roundtrip [of "[\<lparr>pw = 1, ph = 256, png = png1\<rparr>]"] by (simp add: fits_def png1_def) blast

end
