(* ===== verification/Tray.thy ===== *)
theory Tray
  imports Icon GoStrings
begin

text \<open>
  What the tray programs show, on Linux and on Windows: the icon, the tooltip, and the titles
  and the enabled state of the menu items.  The menu library is left out; its setters are
  updates of the record.
\<close>

datatype tray_icon = IconOn | IconOff | IconErr

record display =
  trayIcon :: tray_icon
  tooltip :: string
  statusTitle :: string
  toggleTitle :: string
  restartOn :: bool

type_synonym rgba = "byte \<times> byte \<times> byte \<times> byte"

definition iconBytes :: "(int \<Rightarrow> rgba \<Rightarrow> string + bytes) \<Rightarrow> (int \<Rightarrow> string + bytes) \<Rightarrow> tray_icon \<Rightarrow> bytes" where
  "iconBytes circle transparent i = mustBuildIcoCircle circle transparent 32 (case i of
     IconOn \<Rightarrow> (0x34, 0xc7, 0x59, 0xff) | IconOff \<Rightarrow> (0x8e, 0x8e, 0x93, 0xff) | IconErr \<Rightarrow> (0xff, 0x3b, 0x30, 0xff))"

text \<open>Characters outside ASCII, in UTF-8.\<close>

definition ellipsis :: string where "ellipsis = [CHR 0xE2, CHR 0x80, CHR 0xA6]"
definition dash :: string where "dash = [CHR 0xE2, CHR 0x80, CHR 0x94]"
definition black_circle :: string where "black_circle = [CHR 0xE2, CHR 0x97, CHR 0x8F]"
definition white_circle :: string where "white_circle = [CHR 0xE2, CHR 0x97, CHR 0x8B]"
definition dotted_circle :: string where "dotted_circle = [CHR 0xE2, CHR 0x97, CHR 0x8C]"

definition tip :: "string \<Rightarrow> string" where
  "tip s = ''gov-pass '' @ dash @ '' '' @ s"

definition show_error :: "'a display_scheme \<Rightarrow> 'a display_scheme" where
  "show_error d = d\<lparr>trayIcon := IconErr, tooltip := tip ''Status Unknown'', statusTitle := ''Status: Unknown'',
     toggleTitle := ''Start Service'' @ ellipsis, restartOn := False\<rparr>"

definition show_active :: "'a display_scheme \<Rightarrow> 'a display_scheme" where
  "show_active d = d\<lparr>trayIcon := IconOn, tooltip := tip ''Active'', statusTitle := black_circle @ '' Status: Active'',
     toggleTitle := ''Deactivate Protection'' @ ellipsis, restartOn := True\<rparr>"

definition show_stopped :: "'a display_scheme \<Rightarrow> 'a display_scheme" where
  "show_stopped d = d\<lparr>trayIcon := IconOff, tooltip := tip ''Stopped'', statusTitle := white_circle @ '' Status: Inactive'',
     toggleTitle := ''Activate Protection'' @ ellipsis, restartOn := True\<rparr>"

definition first_display :: display where
  "first_display = \<lparr>trayIcon = IconOff, tooltip = ''gov-pass'', statusTitle = ''Status: Checking'' @ ellipsis,
     toggleTitle = ''Activate Protection'' @ ellipsis, restartOn = True\<rparr>"

lemma show_icon [simp]: "trayIcon (show_error d) = IconErr" "trayIcon (show_active d) = IconOn" "trayIcon (show_stopped d) = IconOff"
  by (simp_all add: show_error_def show_active_def show_stopped_def)

lemma show_idem [simp]: "show_error (show_error d) = show_error d" "show_active (show_active d) = show_active d"
  "show_stopped (show_stopped d) = show_stopped d"
  by (simp_all add: show_error_def show_active_def show_stopped_def)

end
