(* ===== verification/TrayLinux.thy ===== *)
theory TrayLinux
  imports Tray Commands
begin

text \<open>
  The tray of Linux (\<^verbatim>\<open>cmd/gov-pass-tray/main_linux.go\<close>): one-shot actions, and the menu
  with its poll of the service every 1.5 seconds.  Ticks and clicks are a list of events; the
  property is that after every tick the display is that of the last answer of systemd.
\<close>

definition defaultServiceName :: string where
  "defaultServiceName = ''gov-pass''"

text \<open>\<^verbatim>\<open>exec.Command(...)\<close> with the outputs of the program, and its combined output.\<close>

definition elevatedSystemctl :: "world \<Rightarrow> string \<Rightarrow> string \<Rightarrow> history \<Rightarrow> status" where
  "elevatedSystemctl w act name h = (let c = (''pkexec'', [''systemctl'', act, name]) in (snd (exec w h [] c), h @ [c]))"

definition isServiceActive :: "world \<Rightarrow> string \<Rightarrow> history \<Rightarrow> (string + bool) \<times> history" where
  "isServiceActive w name h = (let c = (''systemctl'', [''is-active'', name]) in case exec w h [] c of (out, err) \<Rightarrow>
     let state = TrimSpace out in
     (if state = ''active'' then Inr True
      else if state = ''inactive'' \<or> state = ''failed'' \<or> state = ''dead'' then Inr False
      else case err of Some e \<Rightarrow> Inl (''systemctl is-active '' @ name @ '': '' @ e @ '' ('' @ state @ '')'') | None \<Rightarrow> Inr False,
      h @ [c]))"

text \<open>The result is the error, what was printed, and the commands run.\<close>

definition runAction :: "world \<Rightarrow> string \<Rightarrow> string \<Rightarrow> history \<Rightarrow> (string option \<times> string) \<times> history" where
  "runAction w name action0 h = (let action = ToLower (TrimSpace action0) in
     if action \<notin> set [''start'', ''stop'', ''restart'', ''toggle'', ''status''] then ((Some (''unknown action: '' @ action), []), h)
     else if action = ''status'' then (case isServiceActive w name h of
         (Inl e, h) \<Rightarrow> ((Some e, []), h)
       | (Inr active, h) \<Rightarrow> ((None, (if active then ''active'' else ''inactive'') @ [CHR 0x0A]), h))
     else if action = ''toggle'' then (case isServiceActive w name h of
         (Inl e, h) \<Rightarrow> ((Some e, []), h)
       | (Inr active, h) \<Rightarrow> (case elevatedSystemctl w (if active then ''stop'' else ''start'') name h of (e, h) \<Rightarrow> ((e, []), h)))
     else (case elevatedSystemctl w action name h of (e, h) \<Rightarrow> ((e, []), h)))"

text \<open>The program, from its two flags: the exit code of an action with what it wrote to the standard
  output and to the standard error, or the menu for a service.\<close>

datatype tray_start = Done nat string string | Menu string

definition tray_main :: "world \<Rightarrow> string \<Rightarrow> string \<Rightarrow> history \<Rightarrow> tray_start \<times> history" where
  "tray_main w serviceName action h = (
     let name = (if TrimSpace serviceName = [] then defaultServiceName else TrimSpace serviceName);
         act = ToLower (TrimSpace action)
     in if act \<noteq> [] then (case runAction w name act h of
            ((Some err, out), h) \<Rightarrow> (Done 1 out (''error: '' @ err @ [CHR 0x0A]), h)
          | ((None, out), h) \<Rightarrow> (Done 0 out [], h))
        else (Menu name, h))"

section \<open>The menu\<close>

definition toggleService :: "world \<Rightarrow> string \<Rightarrow> history \<Rightarrow> history" where
  "toggleService w name h = (case isServiceActive w name h of
     (Inr True, h) \<Rightarrow> snd (elevatedSystemctl w ''stop'' name h)
   | (_, h) \<Rightarrow> snd (elevatedSystemctl w ''start'' name h))"

definition restartService :: "world \<Rightarrow> string \<Rightarrow> history \<Rightarrow> history" where
  "restartService w name h = snd (elevatedSystemctl w ''restart'' name h)"

text \<open>The variables of \<^verbatim>\<open>pollStatus\<close>, and the display.\<close>

record tray =
  lastActive :: "bool option"
  lastErr :: bool
  shownNow :: display

definition poll_tick :: "string + bool \<Rightarrow> tray \<Rightarrow> tray" where
  "poll_tick r t = (case r of
     Inl err \<Rightarrow> if \<not> lastErr t then t\<lparr>shownNow := show_error (shownNow t), lastErr := True, lastActive := None\<rparr> else t
   | Inr active \<Rightarrow> let t = t\<lparr>lastErr := False\<rparr> in
       if lastActive t = None \<or> lastActive t \<noteq> Some active then
         t\<lparr>lastActive := Some active, shownNow := (if active then show_active else show_stopped) (shownNow t)\<rparr>
       else t)"

datatype tray_event = Tick | ToggleClick | RestartClick

definition tray_step :: "world \<Rightarrow> string \<Rightarrow> tray_event \<Rightarrow> tray \<times> history \<Rightarrow> tray \<times> history" where
  "tray_step w name ev s = (case s of (t, h) \<Rightarrow> (case ev of
     Tick \<Rightarrow> (case isServiceActive w name h of (r, h) \<Rightarrow> (poll_tick r t, h))
   | ToggleClick \<Rightarrow> (t, toggleService w name h)
   | RestartClick \<Rightarrow> (t, restartService w name h)))"

definition tray_run :: "world \<Rightarrow> string \<Rightarrow> tray_event list \<Rightarrow> tray \<times> history \<Rightarrow> tray \<times> history" where
  "tray_run w name evs s = foldl (\<lambda>s ev. tray_step w name ev s) s evs"

definition tray_init :: tray where
  "tray_init = \<lparr>lastActive = None, lastErr = False, shownNow = first_display\<rparr>"

section \<open>Properties\<close>

text \<open>What an answer is to look like.\<close>

definition answer_shown :: "string + bool \<Rightarrow> display \<Rightarrow> bool" where
  "answer_shown r d \<longleftrightarrow> d = (case r of Inl e \<Rightarrow> show_error d | Inr True \<Rightarrow> show_active d | Inr False \<Rightarrow> show_stopped d)"

text \<open>The variables remember what is shown.\<close>

definition tray_inv :: "tray \<Rightarrow> bool" where
  "tray_inv t \<longleftrightarrow> (lastErr t \<longrightarrow> lastActive t = None \<and> answer_shown (Inl []) (shownNow t))
     \<and> (\<forall>a. lastActive t = Some a \<longrightarrow> answer_shown (Inr a) (shownNow t))"

lemma answer_shown_error: "answer_shown (Inl e) d \<longleftrightarrow> answer_shown (Inl []) d"
  by (simp add: answer_shown_def)

lemma poll_tick_inv:
  assumes "tray_inv t"
  shows "tray_inv (poll_tick r t) \<and> answer_shown r (shownNow (poll_tick r t))"
proof (cases r)
  case (Inl e)
  then show ?thesis using assms answer_shown_error [of e "shownNow t"]
    by (auto simp: tray_inv_def poll_tick_def answer_shown_def)
next
  case (Inr active)
  then show ?thesis using assms
    by (auto simp: tray_inv_def poll_tick_def answer_shown_def Let_def split: bool.splits)
qed

lemma tray_step_inv: "tray_inv (fst s) \<Longrightarrow> tray_inv (fst (tray_step w name ev s))"
  by (auto simp: tray_step_def poll_tick_inv split: prod.splits tray_event.splits)

lemma tray_run_snoc: "tray_run w name (evs @ [ev]) s = tray_step w name ev (tray_run w name evs s)"
  by (simp add: tray_run_def)

lemma tray_run_inv: "tray_inv (fst s) \<Longrightarrow> tray_inv (fst (tray_run w name evs s))"
proof (induction evs rule: rev_induct)
  case Nil
  then show ?case by (simp add: tray_run_def)
qed (simp add: tray_run_snoc tray_step_inv)

lemma tray_init_inv: "tray_inv tray_init"
  by (simp add: tray_inv_def tray_init_def)

text \<open>C39. The tray of Linux shows the truth: after any ticks of the poll and clicks on the menu, in any
  order and whatever systemd answered, one more tick leaves the display (icon, tooltip, titles
  and whether Restart is enabled) as that tick's answer is to be shown: error, active or
  stopped.\<close>

theorem linux_tray_shows_state:
  "let (t, h) = tray_run w name evs (tray_init, h0) in
   answer_shown (fst (isServiceActive w name h)) (shownNow (fst (tray_run w name (evs @ [Tick]) (tray_init, h0))))"
  using tray_run_inv [of "(tray_init, h0)" w name evs] poll_tick_inv tray_init_inv
  by (auto simp: tray_run_snoc tray_step_def split: prod.splits)

text \<open>Actions only run systemctl, elevated except to look, and an unknown action runs nothing.\<close>

definition systemctl_only :: "string \<Rightarrow> command \<Rightarrow> bool" where
  "systemctl_only name c \<longleftrightarrow> c \<in> set ((''systemctl'', [''is-active'', name])
     # map (\<lambda>act. (''pkexec'', [''systemctl'', act, name])) [''start'', ''stop'', ''restart''])"

lemma isServiceActive_history: "snd (isServiceActive w name h) = h @ [(''systemctl'', [''is-active'', name])]"
  by (simp add: isServiceActive_def Let_def split: prod.split)

lemma elevatedSystemctl_history: "snd (elevatedSystemctl w act name h) = h @ [(''pkexec'', [''systemctl'', act, name])]"
  by (simp add: elevatedSystemctl_def Let_def)

lemma runAction_commands: "\<exists>k. snd (runAction w name action h) = h @ k \<and> list_all (systemctl_only name) k \<and> length k \<le> 2"
  by (auto simp: runAction_def Let_def systemctl_only_def split: prod.splits sum.splits
      dest!: arg_cong [of "isServiceActive _ _ _" _ snd] arg_cong [of "elevatedSystemctl _ _ _ _" _ snd]
      simp: isServiceActive_history elevatedSystemctl_history)

end
