(* ===== verification/WinScm.thy ===== *)
theory WinScm
  imports WinHost
begin

text \<open>
  The states of a Windows service (package \<^verbatim>\<open>svc\<close>) and waiting for one of them
  (\<^verbatim>\<open>waitForServiceState\<close> of the tray): a loop that queries every 250 ms until a deadline.
  It returns if the clock keeps up with the sleeps, and how long it can go on is bounded.
\<close>

definition svcStopped :: nat where "svcStopped = 1"
definition svcStartPending :: nat where "svcStartPending = 2"
definition svcStopPending :: nat where "svcStopPending = 3"
definition svcRunning :: nat where "svcRunning = 4"

definition stateString :: "nat \<Rightarrow> string" where
  "stateString st = (if st = svcRunning then ''running'' else if st = svcStopped then ''stopped''
     else if st = svcStartPending then ''start-pending'' else if st = svcStopPending then ''stop-pending''
     else ''state-'' @ show_nat st)"

text \<open>The loop, from the test of the deadline; \<open>None\<close> is that it does not end.\<close>

partial_function (option) wait_loop :: "whost \<Rightarrow> nat \<Rightarrow> int \<Rightarrow> wlog \<Rightarrow> wstatus option" where
  "wait_loop w want deadline l = (if clock w l < deadline then
     (case wdo w ScmQuery l of
        (Some e, l) \<Rightarrow> Some (Some e, l)
      | (None, l) \<Rightarrow> if serviceState w l = want then Some (None, l) else wait_loop w want deadline (quietly w (Sleep 250) l))
     else Some (Some (Msg (''timeout waiting for service state: '' @ stateString want)), l))"

definition waitForServiceState :: "whost \<Rightarrow> nat \<Rightarrow> int \<Rightarrow> wlog \<Rightarrow> wstatus option" where
  "waitForServiceState w want timeout l = wait_loop w want (clock w l + timeout) l"

section \<open>Returning\<close>

text \<open>A clock that never goes back and counts the sleeps.\<close>

definition slept :: "wop \<Rightarrow> int" where
  "slept op = (case op of Sleep n \<Rightarrow> n | _ \<Rightarrow> 0)"

definition steady :: "whost \<Rightarrow> bool" where
  "steady w \<longleftrightarrow> (\<forall>l op. clock w l + slept op \<le> clock w (l @ [op]))"

lemma steady_round:
  assumes "steady w"
  shows "clock w l + 250 \<le> clock w (l @ [ScmQuery, Sleep 250])"
proof -
  have "clock w l \<le> clock w (l @ [ScmQuery])" "clock w (l @ [ScmQuery]) + 250 \<le> clock w ((l @ [ScmQuery]) @ [Sleep 250])"
    using assms unfolding steady_def slept_def by (metis (mono_tags) add_0_right wop.simps) (metis (mono_tags) assms steady_def slept_def wop.simps)
  then show ?thesis by simp
qed

text \<open>What a call that returned has done: rounds of a query and a sleep, and a last query.\<close>

definition rounds :: "nat \<Rightarrow> wlog" where
  "rounds n = concat (replicate n [ScmQuery, Sleep 250])"

lemma rounds_simps [simp]: "rounds 0 = []" "rounds (Suc n) = [ScmQuery, Sleep 250] @ rounds n"
  by (simp_all add: rounds_def)

lemma wait_loop_cases:
  "\<not> clock w l < deadline \<Longrightarrow> wait_loop w want deadline l = Some (Some (Msg (''timeout waiting for service state: '' @ stateString want)), l)"
  "clock w l < deadline \<Longrightarrow> failure w l ScmQuery = Some err \<Longrightarrow> wait_loop w want deadline l = Some (Some err, l @ [ScmQuery])"
  "clock w l < deadline \<Longrightarrow> failure w l ScmQuery = None \<Longrightarrow> serviceState w (l @ [ScmQuery]) = want
    \<Longrightarrow> wait_loop w want deadline l = Some (None, l @ [ScmQuery])"
  "clock w l < deadline \<Longrightarrow> failure w l ScmQuery = None \<Longrightarrow> serviceState w (l @ [ScmQuery]) \<noteq> want
    \<Longrightarrow> wait_loop w want deadline l = wait_loop w want deadline (l @ [ScmQuery, Sleep 250])"
  by (simp_all add: wait_loop.simps [of w want deadline l] wdo_def)

lemma wait_loop_returns:
  assumes "steady w" "deadline - clock w l \<le> 250 * int n"
  shows "\<exists>e k l'. k \<le> n \<and> wait_loop w want deadline l = Some (e, l')
    \<and> (l' = l @ rounds k \<or> l' = l @ rounds k @ [ScmQuery])
    \<and> (e = None \<longrightarrow> l' = l @ rounds k @ [ScmQuery] \<and> serviceState w l' = want)"
  using assms(2)
proof (induction n arbitrary: l)
  case 0
  then show ?case by (simp add: wait_loop_cases)
next
  case (Suc n)
  show ?case
  proof (cases "clock w l < deadline \<and> failure w l ScmQuery = None \<and> serviceState w (l @ [ScmQuery]) \<noteq> want")
    case False
    then consider "\<not> clock w l < deadline" | e where "clock w l < deadline" "failure w l ScmQuery = Some e"
      | "clock w l < deadline" "failure w l ScmQuery = None" "serviceState w (l @ [ScmQuery]) = want" by fastforce
    then obtain e l' where "wait_loop w want deadline l = Some (e, l')" "l' = l \<or> l' = l @ [ScmQuery]"
      "e = None \<longrightarrow> l' = l @ [ScmQuery] \<and> serviceState w l' = want"
      by cases (use wait_loop_cases in blast)+
    then show ?thesis by (intro exI [of _ e] exI [of _ 0] exI [of _ l']) auto
  next
    case True
    then have step: "wait_loop w want deadline l = wait_loop w want deadline (l @ [ScmQuery, Sleep 250])"
      by (simp add: wait_loop_cases)
    have "deadline - clock w (l @ [ScmQuery, Sleep 250]) \<le> 250 * int n"
      using steady_round [OF assms(1), of l] Suc.prems by simp
    from Suc.IH [OF this] obtain e k l' where "k \<le> n" "wait_loop w want deadline (l @ [ScmQuery, Sleep 250]) = Some (e, l')"
      "l' = l @ rounds (Suc k) \<or> l' = l @ rounds (Suc k) @ [ScmQuery]"
      "e = None \<longrightarrow> l' = l @ rounds (Suc k) @ [ScmQuery] \<and> serviceState w l' = want" by auto
    then show ?thesis using step by (intro exI [of _ e] exI [of _ "Suc k"] exI [of _ l']) auto
  qed
qed

end
