(* ===== verification/CommandLine.thy ===== *)
theory CommandLine
  imports GoStrings
begin

text \<open>
  The quoting of arguments for a Windows command line (\<^verbatim>\<open>quoteArg\<close>, \<^verbatim>\<open>quoteArgs\<close> of
  the tray), with the decoding of UTF-8 that Go's \<^verbatim>\<open>range\<close> over a string does, and the
  splitting of a command line by Go's runtime (\<^verbatim>\<open>commandLineToArgv\<close> of the package
  \<^verbatim>\<open>os\<close>), which the started program applies.  The property is the round trip.
\<close>

section \<open>Runes\<close>

definition in_range :: "nat \<Rightarrow> nat \<Rightarrow> string \<Rightarrow> nat \<Rightarrow> bool" where
  "in_range lo hi s i \<longleftrightarrow> i < length s \<and> lo \<le> (of_char (s ! i) :: nat) \<and> (of_char (s ! i) :: nat) \<le> hi"

text \<open>The number of bytes of the first rune, \<open>None\<close> where the bytes are not UTF-8.\<close>

definition rune_width :: "char \<Rightarrow> string \<Rightarrow> nat option" where
  "rune_width c s = (let a = of_char c :: nat; ok = (\<lambda>lo hi. in_range lo hi s 0); tail = in_range 0x80 0xBF s in
     if a < 0x80 then Some 1
     else if 0xC2 \<le> a \<and> a \<le> 0xDF \<and> ok 0x80 0xBF then Some 2
     else if 0xE0 \<le> a \<and> a \<le> 0xEF \<and> ok (if a = 0xE0 then 0xA0 else 0x80) (if a = 0xED then 0x9F else 0xBF) \<and> tail 1 then Some 3
     else if 0xF0 \<le> a \<and> a \<le> 0xF4 \<and> ok (if a = 0xF0 then 0x90 else 0x80) (if a = 0xF4 then 0x8F else 0xBF) \<and> tail 1 \<and> tail 2 then Some 4
     else None)"

definition replacement :: string where
  "replacement = [CHR 0xEF, CHR 0xBF, CHR 0xBD]"

text \<open>The runes of a string as \<^verbatim>\<open>WriteRune\<close> writes them.\<close>

function runes :: "string \<Rightarrow> string list" where
  "runes [] = []"
| "runes (c # s) = (case rune_width c s of
     Some n \<Rightarrow> (c # take (n - 1) s) # runes (drop (n - 1) s)
   | None \<Rightarrow> replacement # runes s)"
  by pat_completeness auto
termination by (relation "measure length") simp_all

text \<open>A byte that is not UTF-8 becomes three, so only UTF-8 is written back as it was.\<close>

definition valid_utf8 :: "string \<Rightarrow> bool" where
  "valid_utf8 s \<longleftrightarrow> concat (runes s) = s"

section \<open>Quoting\<close>

definition bslash :: char where "bslash = CHR 0x5C"
definition dquote :: char where "dquote = CHR 0x22"

text \<open>The loop of \<^verbatim>\<open>quoteArg\<close> from a count of backslashes on, with the closing quote.\<close>

fun quote_runes :: "nat \<Rightarrow> string list \<Rightarrow> string" where
  "quote_runes n [] = replicate (2 * n) bslash @ [dquote]"
| "quote_runes n (r # rs) = (
     if r = [bslash] then quote_runes (n + 1) rs
     else if r = [dquote] then replicate (2 * n + 1) bslash @ [dquote] @ quote_runes 0 rs
     else replicate n bslash @ r @ quote_runes 0 rs)"

definition quoteArg :: "string \<Rightarrow> string" where
  "quoteArg s = (if s = [] then [dquote, dquote]
     else if \<not> list_ex (\<lambda>c. c = CHR '' '' \<or> c = CHR 0x09 \<or> c = dquote) s then s
     else dquote # quote_runes 0 (runes s))"

definition quoteArgs :: "string list \<Rightarrow> string" where
  "quoteArgs args = Join (map quoteArg args) '' ''"

section \<open>Splitting a command line\<close>

definition blank :: "char \<Rightarrow> bool" where
  "blank c \<longleftrightarrow> c = CHR '' '' \<or> c = CHR 0x09"

text \<open>The next argument and the rest: the argument read so far, whether a quote is open, and the
  backslashes just read.  Two quotes in an open one stand for one.\<close>

function readNextArg :: "string \<Rightarrow> bool \<Rightarrow> nat \<Rightarrow> string \<Rightarrow> string \<times> string" where
  "readNextArg b inquote n [] = (b @ replicate n bslash, [])"
| "readNextArg b inquote n (c # cmd) = (
     if blank c \<and> \<not> inquote then (b @ replicate n bslash, cmd)
     else if c = dquote then
       (if n mod 2 = 0 then
          (if inquote \<and> cmd \<noteq> [] \<and> hd cmd = dquote then readNextArg (b @ replicate (n div 2) bslash @ [c]) (\<not> inquote) 0 (tl cmd)
           else readNextArg (b @ replicate (n div 2) bslash) (\<not> inquote) 0 cmd)
        else readNextArg (b @ replicate (n div 2) bslash @ [c]) inquote 0 cmd)
     else if c = bslash then readNextArg b inquote (n + 1) cmd
     else readNextArg (b @ replicate n bslash @ [c]) inquote 0 cmd)"
  by pat_completeness auto
termination by (relation "measure (\<lambda>(b, q, n, cmd). length cmd)") auto

declare readNextArg.simps(2) [simp del]

lemma readNextArg_shorter: "length (snd (readNextArg b q n cmd)) \<le> length cmd - 1"
proof (induction b q n cmd rule: readNextArg.induct)
  case (2 b q n c cmd)
  have "length (snd x) \<le> length cmd" if "length (snd x) \<le> length cmd - 1 \<or> length (snd x) \<le> length (tl cmd) - 1" for x :: "string \<times> string"
    using that by auto
  then show ?case using "2.IH" by (simp add: readNextArg.simps(2)) 
qed simp

lemma readNextArg_tail: "length (snd (readNextArg b q n (c # cmd))) \<le> length cmd"
  using readNextArg_shorter [of b q n "c # cmd"] by simp

function commandLineToArgv :: "string \<Rightarrow> string list" where
  "commandLineToArgv [] = []"
| "commandLineToArgv (c # cmd) = (if blank c then commandLineToArgv cmd
     else (case readNextArg [] False 0 (c # cmd) of (arg, rest) \<Rightarrow> arg # commandLineToArgv rest))"
  by pat_completeness auto
termination
proof (relation "measure length", goal_cases)
  case 3
  then show ?case by (simp add: prod_eq_iff less_Suc_eq_le readNextArg_tail)
qed simp_all

section \<open>The round trip\<close>

text \<open>Quoting by bytes, to which quoting by runes amounts.\<close>

fun quote_bytes :: "nat \<Rightarrow> string \<Rightarrow> string" where
  "quote_bytes n [] = replicate (2 * n) bslash @ [dquote]"
| "quote_bytes n (c # s) = (
     if c = bslash then quote_bytes (n + 1) s
     else if c = dquote then replicate (2 * n + 1) bslash @ [dquote] @ quote_bytes 0 s
     else replicate n bslash @ [c] @ quote_bytes 0 s)"

definition plain :: "string \<Rightarrow> bool" where
  "plain r \<longleftrightarrow> r \<noteq> [] \<and> list_all (\<lambda>c. c \<noteq> bslash \<and> c \<noteq> dquote) r"

lemma bslash_dquote [simp]: "bslash \<noteq> dquote" "dquote \<noteq> bslash" "\<not> blank bslash" "\<not> blank dquote"
  by (simp_all add: bslash_def dquote_def blank_def)

lemma quote_bytes_plain: "plain r \<Longrightarrow> quote_bytes n (r @ s) = replicate n bslash @ r @ quote_bytes 0 s"
proof (induction r arbitrary: n)
  case (Cons c r)
  then show ?case by (cases "r = []") (simp_all add: plain_def)
qed (simp add: plain_def)

definition high :: "char \<Rightarrow> bool" where
  "high c \<longleftrightarrow> 128 \<le> (of_char c :: nat)"

lemma high_plain: "high c \<Longrightarrow> list_all high r \<Longrightarrow> plain (c # r)"
  by (auto simp: plain_def high_def bslash_def dquote_def list_all_iff)

lemma take_high:
  "in_range lo hi s 0 \<Longrightarrow> 128 \<le> lo \<Longrightarrow> list_all high (take (Suc 0) s)"
  "in_range lo hi s 0 \<Longrightarrow> 128 \<le> lo \<Longrightarrow> in_range 0x80 0xBF s 1 \<Longrightarrow> list_all high (take 2 s)"
  "in_range lo hi s 0 \<Longrightarrow> 128 \<le> lo \<Longrightarrow> in_range 0x80 0xBF s 1 \<Longrightarrow> in_range 0x80 0xBF s 2 \<Longrightarrow> list_all high (take 3 s)"
  by (auto simp: in_range_def high_def list_all_length nth_append less_Suc_eq numeral_eq_Suc)

lemma rune_shape:
  assumes "rune_width c s = Some n"
  shows "n = 1 \<or> high c \<and> list_all high (take (n - 1) s)"
  using assms take_high
  by (auto simp: rune_width_def Let_def high_def split: if_splits)

lemma runes_shape: "list_all (\<lambda>r. r = [bslash] \<or> r = [dquote] \<or> plain r) (runes s)"
proof (induction s rule: runes.induct)
  case (2 c s)
  have "plain replacement" by (simp add: plain_def replacement_def bslash_def dquote_def)
  moreover have "c # take (n - 1) s = [bslash] \<or> c # take (n - 1) s = [dquote] \<or> plain (c # take (n - 1) s)"
    if "rune_width c s = Some n" for n
    using rune_shape [OF that] high_plain by (fastforce simp: plain_def)
  ultimately show ?case using 2 by (simp split: option.split)
qed simp

lemma quote_runes_bytes:
  "list_all (\<lambda>r. r = [bslash] \<or> r = [dquote] \<or> plain r) rs \<Longrightarrow> quote_runes n rs = quote_bytes n (concat rs)"
proof (induction rs arbitrary: n)
  case (Cons r rs)
  then consider "r = [bslash]" | "r = [dquote]" | "plain r" by auto
  then show ?case
  proof cases
    case 3
    then have "r \<noteq> [bslash]" "r \<noteq> [dquote]" by (auto simp: plain_def)
    then show ?thesis using Cons 3 by (simp add: quote_bytes_plain)
  qed (use Cons in simp_all)
qed simp

text \<open>Reading back, up to the end or a blank.\<close>

definition ends :: "string \<Rightarrow> bool" where
  "ends rest \<longleftrightarrow> rest = [] \<or> blank (hd rest)"

lemma read_bslashes: "readNextArg b q n (replicate k bslash @ rest) = readNextArg b q (n + k) rest"
  by (induction k arbitrary: n) (simp_all add: readNextArg.simps(2))

lemma read_end: "ends rest \<Longrightarrow> readNextArg b False n rest = (b @ replicate n bslash, tl rest)"
  by (cases rest) (simp_all add: ends_def readNextArg.simps(2))

lemma ends_hd: "ends rest \<Longrightarrow> \<not> (rest \<noteq> [] \<and> hd rest = dquote)"
  by (auto simp: ends_def)

lemma read_quoted: "ends rest \<Longrightarrow> readNextArg b True 0 (quote_bytes n s @ rest) = (b @ replicate n bslash @ s, tl rest)"
proof (induction s arbitrary: b n)
  case Nil
  then show ?case using ends_hd [of rest]
    by (auto simp: read_bslashes readNextArg.simps(2) read_end)
next
  case (Cons c s)
  consider "c = bslash" | "c = dquote" | "c \<noteq> bslash" "c \<noteq> dquote" by blast
  then show ?case
  proof cases
    case 1
    then show ?thesis using Cons by (simp add: replicate_app_Cons_same del: replicate_Suc) (simp add: replicate_app_Cons_same [symmetric])
  next
    case 2
    then show ?thesis using Cons by (simp add: read_bslashes readNextArg.simps(2) del: replicate_Suc)
  next
    case 3
    then show ?thesis using Cons by (simp add: read_bslashes readNextArg.simps(2))
  qed
qed

lemma read_plain:
  "list_all (\<lambda>c. \<not> blank c \<and> c \<noteq> dquote) s \<Longrightarrow> ends rest
    \<Longrightarrow> readNextArg b False n (s @ rest) = (b @ replicate n bslash @ s, tl rest)"
proof (induction s arbitrary: b n)
  case Nil
  then show ?case by (simp add: read_end)
next
  case (Cons c s)
  then show ?case by (cases "c = bslash") (simp_all add: readNextArg.simps(2) replicate_app_Cons_same)
qed

lemma quoteArg_read:
  assumes "valid_utf8 s" "ends rest"
  shows "commandLineToArgv (quoteArg s @ rest) = s # commandLineToArgv (tl rest)"
proof -
  consider "s = []" | "s \<noteq> []" "list_all (\<lambda>c. \<not> blank c \<and> c \<noteq> dquote) s"
    | "quoteArg s = dquote # quote_bytes 0 s"
  proof (cases "list_ex (\<lambda>c. c = CHR '' '' \<or> c = CHR 0x09 \<or> c = dquote) s")
    case True
    then have "quoteArg s = dquote # quote_bytes 0 s"
      using assms(1) by (auto simp: quoteArg_def quote_runes_bytes [OF runes_shape] valid_utf8_def)
    then show ?thesis using that by blast
  next
    case False
    then show ?thesis using that by (cases "s = []") (auto simp: list_ex_iff list_all_iff blank_def)
  qed
  then have "readNextArg [] False 0 (quoteArg s @ rest) = (s, tl rest) \<and> quoteArg s \<noteq> [] \<and> \<not> blank (hd (quoteArg s))"
  proof cases
    case 1
    then show ?thesis using read_quoted [OF assms(2), of "[]" 0 "[]"] by (simp add: quoteArg_def readNextArg.simps(2))
  next
    case 2
    then have "quoteArg s = s" by (auto simp: quoteArg_def list_ex_iff list_all_iff blank_def)
    then show ?thesis using 2 read_plain [OF 2(2) assms(2), of "[]" 0] by (cases s) auto
  next
    case 3
    then show ?thesis using read_quoted [OF assms(2), of "[]" 0 s] by (simp add: readNextArg.simps(2))
  qed
  then show ?thesis by (cases "quoteArg s") auto
qed

lemma commandLine_quoteArgs: "list_all valid_utf8 args \<Longrightarrow> commandLineToArgv (quoteArgs args) = args"
proof (induction args)
  case (Cons a args)
  then show ?case
    by (cases args) (use quoteArg_read [of a "[]"] quoteArg_read [of a "'' '' @ quoteArgs args"] in
        \<open>simp_all add: quoteArgs_def ends_def blank_def\<close>)
qed (simp add: quoteArgs_def)

end
