(* ===== verification/TrayWindows.thy ===== *)
theory TrayWindows
  imports Tray WinScm WinDriver CommandLine
begin

text \<open>
  The tray of Windows (\<^verbatim>\<open>cmd/gov-pass-tray/main_windows.go\<close>): one-shot actions, which start
  themselves again with elevated rights where they need them, control of the service with a
  wait for its new state, the entry for starting at login, and the menu with its poll of the
  service.  An operation that waits returns \<open>None\<close> if it does not end.
\<close>

section \<open>The service\<close>

text \<open>The conversion of a string for the system fails at a null byte; where the code drops that
  error it passes a null pointer, here the empty string.\<close>

definition utf16 :: "string \<Rightarrow> werr + string" where
  "utf16 s = (if CHR 0x00 \<in> set s then Inl (Msg ''invalid argument'') else Inr s)"

definition utf16_or_nil :: "string \<Rightarrow> string" where
  "utf16_or_nil s = (case utf16 s of Inl e \<Rightarrow> [] | Inr t \<Rightarrow> t)"

definition queryServiceState :: "whost \<Rightarrow> string \<Rightarrow> wlog \<Rightarrow> (werr + nat) \<times> wlog" where
  "queryServiceState w name0 l = (let name = TrimSpace name0 in
     if name = [] then (Inl (Msg ''service name is empty''), l) else
     case wdo w ScmConnect l of
       (Some e, l) \<Rightarrow> (Inl e, l)
     | (None, l) \<Rightarrow> with_defer [ScmDisconnect] (case utf16 name of
         Inl e \<Rightarrow> (Inl e, l)
       | Inr name \<Rightarrow> (case wdo w (ScmOpen name) l of
           (Some e, l) \<Rightarrow> (Inl e, l)
         | (None, l) \<Rightarrow> with_defer [ScmClose] (case wdo w ScmQuery l of
             (Some e, l) \<Rightarrow> (Inl e, l)
           | (None, l) \<Rightarrow> (Inr (serviceState w l), l)))))"

text \<open>The body of \<^verbatim>\<open>controlService\<close> on the open service.\<close>

definition control_action :: "whost \<Rightarrow> string \<Rightarrow> wlog \<Rightarrow> wstatus option" where
  "control_action w action l = (
     if action = ''start'' then (case wdo w ScmStart l of
         (Some e, l) \<Rightarrow> Some (Some e, l) | (None, l) \<Rightarrow> waitForServiceState w svcRunning 30000 l)
     else if action = ''stop'' then (case wdo w ScmStop l of
         (Some e, l) \<Rightarrow> Some (Some e, l) | (None, l) \<Rightarrow> waitForServiceState w svcStopped 30000 l)
     else if action = ''restart'' then (case waitForServiceState w svcStopped 30000 (quietly w ScmStop l) of
         None \<Rightarrow> None
       | Some (_, l) \<Rightarrow> (case wdo w ScmStart l of
           (Some e, l) \<Rightarrow> Some (Some e, l) | (None, l) \<Rightarrow> waitForServiceState w svcRunning 30000 l))
     else if action = ''reload'' then Some (wdo w ScmParamChange l)
     else Some (Some (Msg (''unknown service action: '' @ action)), l))"

definition controlService :: "whost \<Rightarrow> string \<Rightarrow> string \<Rightarrow> wlog \<Rightarrow> wstatus option" where
  "controlService w name action l = (case wdo w ScmConnect l of
     (Some e, l) \<Rightarrow> Some (Some e, l)
   | (None, l) \<Rightarrow> map_option (with_defer [ScmDisconnect]) (case wdo w (ScmOpen name) l of
       (Some e, l) \<Rightarrow> Some (Some e, l)
     | (None, l) \<Rightarrow> map_option (with_defer [ScmClose]) (control_action w action l)))"

section \<open>Elevation\<close>

definition elevateSelf :: "whost \<Rightarrow> string \<Rightarrow> string \<Rightarrow> wlog \<Rightarrow> wstatus" where
  "elevateSelf w serviceName action l = (case exeFile w of
     Inl e \<Rightarrow> (Some e, l)
   | Inr exe0 \<Rightarrow> let exe = TrimSpace exe0 in
       if exe = [] then (Some (Msg ''executable path is empty''), l)
       else wdo w (RunElevated (utf16_or_nil exe)
         (utf16_or_nil (quoteArgs [''--service-name'', serviceName, ''--action'', action]))) l)"

definition runAction_windows :: "whost \<Rightarrow> string \<Rightarrow> string \<Rightarrow> wlog \<Rightarrow> wstatus option" where
  "runAction_windows w name action0 l = (let action = ToLower (TrimSpace action0) in
     if action \<notin> set [''start'', ''stop'', ''restart'', ''reload'', ''toggle'', ''status''] then
       Some (Some (Msg (''unknown action: '' @ action)), l)
     else if \<not> elevated w \<and> action \<noteq> ''status'' then Some (elevateSelf w name action l)
     else if action = ''status'' then (case queryServiceState w name l of
         (Inl e, l) \<Rightarrow> Some (Some e, l) | (Inr _, l) \<Rightarrow> Some (None, l))
     else if action = ''toggle'' then (case queryServiceState w name l of
         (Inl e, l) \<Rightarrow> Some (Some e, l)
       | (Inr st, l) \<Rightarrow> controlService w name (if st = svcRunning then ''stop'' else ''start'') l)
     else controlService w name action l)"

definition windowsServiceName :: string where
  "windowsServiceName = ''gov-pass''"

text \<open>The program, from its two flags: the exit code of an action, or the menu for a service.\<close>

datatype win_start = Exits nat | ShowsMenu string

definition tray_main_windows :: "whost \<Rightarrow> string \<Rightarrow> string \<Rightarrow> wlog \<Rightarrow> (win_start \<times> wlog) option" where
  "tray_main_windows w serviceName action l = (
     let name = (if TrimSpace serviceName = [] then windowsServiceName else TrimSpace serviceName);
         act = ToLower (TrimSpace action)
     in if act \<noteq> [] then map_option (\<lambda>(e, l). (Exits (if e = None then 0 else 1), l)) (runAction_windows w name act l)
        else Some (ShowsMenu name, l))"

section \<open>Starting at login\<close>

definition runKeyPath :: string where
  "runKeyPath = ''Software'' @ [backslash] @ ''Microsoft'' @ [backslash] @ ''Windows'' @ [backslash] @ ''CurrentVersion'' @ [backslash] @ ''Run''"

definition runValueKey :: string where
  "runValueKey = ''gov-pass-tray''"

definition absent_is_no :: "werr \<Rightarrow> werr + bool" where
  "absent_is_no e = (if werr_is e NotExist then Inr False else Inl e)"

definition runAtLoginEnabled :: "whost \<Rightarrow> wlog \<Rightarrow> (werr + bool) \<times> wlog" where
  "runAtLoginEnabled w l = (case wdo w (RegOpen ''HKCU'' runKeyPath) l of
     (Some e, l) \<Rightarrow> (absent_is_no e, l)
   | (None, l) \<Rightarrow> with_defer [RegClose] (case wdo w (RegGet runValueKey) l of
       (Some e, l) \<Rightarrow> (absent_is_no e, l) | (None, l) \<Rightarrow> (Inr True, l)))"

definition setRunAtLogin :: "whost \<Rightarrow> bool \<Rightarrow> wlog \<Rightarrow> wstatus" where
  "setRunAtLogin w enabled l = (case wdo w (RegCreate ''HKCU'' runKeyPath) l of
     (Some e, l) \<Rightarrow> (Some e, l)
   | (None, l) \<Rightarrow> with_defer [RegClose] (
       if \<not> enabled then (case wdo w (RegDelete runValueKey) l of
         (Some e, l) \<Rightarrow> (if werr_is e NotExist then None else Some e, l) | (None, l) \<Rightarrow> (None, l))
       else (case exeFile w of
         Inl e \<Rightarrow> (Some e, l)
       | Inr exe0 \<Rightarrow> let exe = TrimSpace exe0 in
           if exe = [] then (Some (Msg ''executable path is empty''), l)
           else wdo w (RegSet runValueKey (quoteArg exe)) l)))"

text \<open>With the state of the menu item's check mark afterwards; an error in reading counts as no.\<close>

definition login_enabled :: "werr + bool \<Rightarrow> bool" where
  "login_enabled r = (case r of Inl e \<Rightarrow> False | Inr b \<Rightarrow> b)"

definition toggleRunAtLogin :: "whost \<Rightarrow> wlog \<Rightarrow> bool \<times> wlog" where
  "toggleRunAtLogin w l = (case runAtLoginEnabled w l of (r, l) \<Rightarrow>
     let en = login_enabled r in
     case setRunAtLogin w (\<not> en) l of (Some e, l) \<Rightarrow> (en, l) | (None, l) \<Rightarrow> (\<not> en, l))"

section \<open>The menu\<close>

definition elevateToggle :: "whost \<Rightarrow> string \<Rightarrow> wlog \<Rightarrow> wlog" where
  "elevateToggle w name l = (case queryServiceState w name l of (r, l) \<Rightarrow>
     snd (elevateSelf w name (if r = Inr svcRunning then ''stop'' else ''start'') l))"

definition dashboard_status :: "werr + nat \<Rightarrow> string" where
  "dashboard_status r = (case r of Inl e \<Rightarrow> ''Unknown''
     | Inr st \<Rightarrow> if st = svcRunning then ''ACTIVE (Running)'' else if st = svcStopped then ''INACTIVE (Stopped)''
         else let s = stateString st in if s \<noteq> [] then ToUpper (take 1 s) @ drop 1 s else s)"

text \<open>\<^term>\<open>answer\<close> is the button that the message box returns for its text; 6 is Yes.\<close>

definition dashboard_text :: "string \<Rightarrow> string" where
  "dashboard_text st = ''gov-pass Splitter'' @ [CHR 0x0A, CHR 0x0A] @ ''Status: '' @ st @ [CHR 0x0A, CHR 0x0A]
     @ ''Would you like to toggle the protection state?''"

definition showDashboard :: "whost \<Rightarrow> (wlog \<Rightarrow> string \<Rightarrow> int) \<Rightarrow> string \<Rightarrow> wlog \<Rightarrow> wlog" where
  "showDashboard w answer name l = (case queryServiceState w name l of (r, l) \<Rightarrow>
     if answer l (dashboard_text (dashboard_status r)) = 6 then elevateToggle w name l else l)"

record win_display = display +
  toggleOn :: bool
  reloadOn :: bool
  loginCheck :: bool

text \<open>The variables of \<^verbatim>\<open>pollStatus\<close>, and the display.\<close>

record win_tray =
  lastState :: nat
  haveLast :: bool
  lastFailed :: bool
  winShown :: win_display

definition show_pending :: "string \<Rightarrow> win_display \<Rightarrow> win_display" where
  "show_pending what d = d\<lparr>trayIcon := IconOff, tooltip := tip what, statusTitle := dotted_circle @ '' Status: '' @ what @ ellipsis,
     toggleOn := False, reloadOn := False, restartOn := False\<rparr>"

definition show_other :: "nat \<Rightarrow> win_display \<Rightarrow> win_display" where
  "show_other st d = d\<lparr>trayIcon := IconOff, tooltip := tip ''Unknown'', statusTitle := ''Status: '' @ stateString st,
     toggleOn := True, reloadOn := False, restartOn := True\<rparr>"

definition show_state :: "nat \<Rightarrow> win_display \<Rightarrow> win_display" where
  "show_state st d = (let d =
     (if st = svcRunning then (show_active d)\<lparr>reloadOn := True\<rparr>
      else if st = svcStopped then (show_stopped d)\<lparr>reloadOn := False\<rparr>
      else if st = svcStartPending then show_pending ''Starting'' d
      else if st = svcStopPending then show_pending ''Stopping'' d
      else show_other st d)
     in if st \<noteq> svcStartPending \<and> st \<noteq> svcStopPending then d\<lparr>toggleOn := True\<rparr> else d)"

definition win_poll_tick :: "werr + nat \<Rightarrow> win_tray \<Rightarrow> win_tray" where
  "win_poll_tick r t = (case r of
     Inl err \<Rightarrow> if \<not> lastFailed t then t\<lparr>winShown := (show_error (winShown t))\<lparr>reloadOn := False\<rparr>, lastFailed := True\<rparr> else t
   | Inr st \<Rightarrow> let t = t\<lparr>lastFailed := False\<rparr> in
       if \<not> haveLast t \<or> st \<noteq> lastState t then t\<lparr>haveLast := True, lastState := st, winShown := show_state st (winShown t)\<rparr>
       else t)"

datatype win_event = PollTick | DashboardClick | ToggleClick | ReloadClick | RestartClick | LoginClick

definition win_tray_step :: "whost \<Rightarrow> (wlog \<Rightarrow> string \<Rightarrow> int) \<Rightarrow> string \<Rightarrow> win_event \<Rightarrow> win_tray \<times> wlog \<Rightarrow> win_tray \<times> wlog" where
  "win_tray_step w answer name ev s = (case s of (t, l) \<Rightarrow> (case ev of
     PollTick \<Rightarrow> (case queryServiceState w name l of (r, l) \<Rightarrow> (win_poll_tick r t, l))
   | DashboardClick \<Rightarrow> (t, showDashboard w answer name l)
   | ToggleClick \<Rightarrow> (t, elevateToggle w name l)
   | ReloadClick \<Rightarrow> (t, snd (elevateSelf w name ''reload'' l))
   | RestartClick \<Rightarrow> (t, snd (elevateSelf w name ''restart'' l))
   | LoginClick \<Rightarrow> (case toggleRunAtLogin w l of (b, l) \<Rightarrow> (t\<lparr>winShown := (winShown t)\<lparr>loginCheck := b\<rparr>\<rparr>, l))))"

definition win_tray_run :: "whost \<Rightarrow> (wlog \<Rightarrow> string \<Rightarrow> int) \<Rightarrow> string \<Rightarrow> win_event list \<Rightarrow> win_tray \<times> wlog \<Rightarrow> win_tray \<times> wlog" where
  "win_tray_run w answer name evs s = foldl (\<lambda>s ev. win_tray_step w answer name ev s) s evs"

text \<open>\<^verbatim>\<open>onReady\<close>, up to the loops.\<close>

definition tray_ready :: "whost \<Rightarrow> wlog \<Rightarrow> win_tray \<times> wlog" where
  "tray_ready w l = (case runAtLoginEnabled w l of (r, l) \<Rightarrow>
     (\<lparr>lastState = 0, haveLast = False, lastFailed = False,
       winShown = display.extend first_display (win_display.fields True False (login_enabled r))\<rparr>, l))"

end
