(* ===== verification/TrayWindowsProps.thy ===== *)
theory TrayWindowsProps
  imports TrayWindows WinFilesProps
begin

text \<open>
  What the tray of Windows does: waiting for the service ends, an elevated start gets the
  arguments it is meant to get, and when the display is that of the service's state.
\<close>

section \<open>Control returns\<close>

lemma length_rounds [simp]: "length (rounds n) = 2 * n"
  by (induction n) simp_all

lemma wait_returns:
  assumes "steady w"
  shows "\<exists>e l'. waitForServiceState w want 30000 l = Some (e, l') \<and> length l' \<le> length l + 241
    \<and> (e = None \<longrightarrow> serviceState w l' = want)"
  using wait_loop_returns [OF assms, of "clock w l + 30000" l 120 want] by (fastforce simp: waitForServiceState_def)

text \<open>What a successful action has seen last.\<close>

definition wanted :: "string \<Rightarrow> nat option" where
  "wanted action = (if action = ''stop'' then Some svcStopped
     else if action = ''start'' \<or> action = ''restart'' then Some svcRunning else None)"

lemma control_action_returns:
  assumes "steady w"
  shows "\<exists>e l'. control_action w action l = Some (e, l') \<and> length l' \<le> length l + 484
    \<and> (e = None \<longrightarrow> pred_option (\<lambda>st. serviceState w l' = st) (wanted action))"
proof -
  have start: "\<exists>e l'. (case wdo w op kk of (Some e, l) \<Rightarrow> Some (Some e, l) | (None, l) \<Rightarrow> waitForServiceState w want 30000 l) = Some (e, l')
      \<and> length l' \<le> length kk + 242 \<and> (e = None \<longrightarrow> serviceState w l' = want)" for op kk want
  proof (cases "failure w kk op")
    case None
    then show ?thesis using wait_returns [OF assms, of want "kk @ [op]"] by (auto simp: wdo_def)
  qed (simp add: wdo_def)
  consider "action = ''start''" | "action = ''stop''" | "action = ''restart''" | "action \<notin> set [''start'', ''stop'', ''restart'']" by auto
  then show ?thesis
  proof cases
    case 1
    then show ?thesis using start [where op = ScmStart and kk = l and want = svcRunning] by (fastforce simp: control_action_def wanted_def)
  next
    case 2
    then show ?thesis using start [where op = ScmStop and kk = l and want = svcStopped] by (fastforce simp: control_action_def wanted_def)
  next
    case 3
    obtain e1 l1 where w1: "waitForServiceState w svcStopped 30000 (l @ [ScmStop]) = Some (e1, l1)" "length l1 \<le> length l + 242"
      using wait_returns [OF assms, of svcStopped "l @ [ScmStop]"] by auto
    then show ?thesis using start [where op = ScmStart and kk = l1 and want = svcRunning] 3 by (fastforce simp: control_action_def wanted_def)
  next
    case 4
    then show ?thesis by (simp add: control_action_def wanted_def wdo_def)
  qed
qed

text \<open>C36. Controlling the service returns: if the clock does not go back and counts the sleeps, every
  action of the tray on the service ends, after at most 488 operations on the machine (120
  rounds of 250 ms for each wait of 30 seconds, two waits for a restart), and if start, stop or
  restart succeeded, then the service was in the wanted state at the last look, after which the
  tray only closed its handles.\<close>

theorem control_returns:
  assumes "steady w"
  shows "\<exists>e l'. controlService w name action l = Some (e, l') \<and> length l' \<le> length l + 488
    \<and> (e = None \<longrightarrow> (\<exists>m. l' = m @ [ScmClose, ScmDisconnect] \<and> pred_option (\<lambda>st. serviceState w m = st) (wanted action)))"
proof (cases "failure w l ScmConnect = None \<and> failure w (l @ [ScmConnect]) (ScmOpen name) = None")
  case True
  obtain e m where "control_action w action (l @ [ScmConnect, ScmOpen name]) = Some (e, m)"
    "length m \<le> length l + 486" "e = None \<longrightarrow> pred_option (\<lambda>st. serviceState w m = st) (wanted action)"
    using control_action_returns [OF assms, of action "l @ [ScmConnect, ScmOpen name]"] by auto
  then show ?thesis using True by (auto simp: controlService_def wdo_def)
next
  case False
  then show ?thesis by (auto simp: controlService_def wdo_def split: option.splits)
qed

text \<open>A machine where the service answers at once with the state it was asked for, and whose clock
  counts the sleeps.\<close>

definition quick_machine :: whost where
  "quick_machine = good_machine\<lparr>clock := (\<lambda>l. \<Sum>op\<leftarrow>l. slept op),
     serviceState := (\<lambda>l. if ScmStart \<in> set l then svcRunning else svcStopped)\<rparr>"

lemma quick_steady: "steady quick_machine"
  by (simp add: steady_def quick_machine_def)

lemma control_returns_witness:
  "\<exists>l'. controlService quick_machine ''gov-pass'' ''start'' [] = Some (None, l') \<and> length l' \<le> 488
    \<and> (\<exists>m. l' = m @ [ScmClose, ScmDisconnect] \<and> serviceState quick_machine m = svcRunning)"
proof -
  have "fst (the (controlService quick_machine ''gov-pass'' ''start'' [])) = None"
    by (simp add: controlService_def control_action_def waitForServiceState_def wait_loop_cases wdo_def
        quick_machine_def good_machine_def slept_def)
  then show ?thesis using control_returns [OF quick_steady, of "''gov-pass''" "''start''" "[]"]
    by (fastforce simp: wanted_def)
qed

section \<open>Elevation\<close>

lemma set_quote_runes: "set (quote_runes n rs) \<subseteq> set (concat rs) \<union> {bslash, dquote}"
  by (induction n rs rule: quote_runes.induct) auto

lemma set_quoteArg: "valid_utf8 s \<Longrightarrow> set (quoteArg s) \<subseteq> set s \<union> {bslash, dquote}"
  using set_quote_runes [of 0 "runes s"] by (auto simp: quoteArg_def valid_utf8_def)

lemma utf16_or_nil_id: "CHR 0x00 \<notin> set s \<Longrightarrow> utf16_or_nil s = s"
  by (simp add: utf16_or_nil_def utf16_def)

lemma ascii_valid: "list_all (\<lambda>c. (of_char c :: nat) < 128) s \<Longrightarrow> valid_utf8 s"
proof (induction s)
  case (Cons c s)
  then show ?case by (simp add: valid_utf8_def rune_width_def)
qed (simp add: valid_utf8_def)

text \<open>C37. An elevated start gets its arguments: where the program's path is known and not blank, and
  the service name and the action are UTF-8 without null bytes, the tray starts itself elevated
  with one operation, on a parameter string that the started program's runtime splits into
  exactly the two flags with the service name and the action, whatever blanks, quotes and
  backslashes they contain.\<close>

theorem elevated_arguments:
  assumes "exeFile w = Inr exe" "TrimSpace exe \<noteq> []"
    and "list_all (\<lambda>s. valid_utf8 s \<and> CHR 0x00 \<notin> set s) [TrimSpace exe, name, action]"
  shows "\<exists>params. elevateSelf w name action l = wdo w (RunElevated (TrimSpace exe) params) l
    \<and> commandLineToArgv params = [''--service-name'', name, ''--action'', action]"
proof -
  let ?args = "[''--service-name'', name, ''--action'', action]"
  have v: "list_all valid_utf8 ?args" using assms(3) ascii_valid [of "''--service-name''"] ascii_valid [of "''--action''"] by simp
  have "CHR 0x00 \<notin> set (quoteArg s)" if "valid_utf8 s" "CHR 0x00 \<notin> set s" for s
    using set_quoteArg [OF that(1)] that(2) by (auto simp: bslash_def dquote_def)
  then have "CHR 0x00 \<notin> set (quoteArgs ?args)" using v assms(3) by (simp add: quoteArgs_def)
  then show ?thesis using assms commandLine_quoteArgs [OF v]
    by (intro exI [of _ "quoteArgs ?args"]) (simp add: elevateSelf_def utf16_or_nil_id)
qed

lemma elevated_arguments_witness:
  "\<exists>params. elevateSelf good_machine ''a \"b'' ''start'' [] = wdo good_machine (RunElevated ''C:/g/splitter.exe'' params) []
    \<and> commandLineToArgv params = [''--service-name'', ''a \"b'', ''--action'', ''start'']"
proof -
  have "exeFile good_machine = Inr ''C:/g/splitter.exe''" "TrimSpace ''C:/g/splitter.exe'' = ''C:/g/splitter.exe''"
    by (simp_all add: good_machine_def TrimSpace_def is_space_def)
  then show ?thesis using elevated_arguments [of good_machine "''C:/g/splitter.exe''" "''a \"b''" "''start''" "[]"]
    by (simp add: ascii_valid)
qed

section \<open>The display\<close>

text \<open>What an answer is to look like: the table of the menu, row by row.  The toggle's title is left
  open in the rows in which it stays what it was, as is whether the toggle is enabled on an
  error.\<close>

definition row :: "tray_icon \<Rightarrow> string \<Rightarrow> string \<Rightarrow> bool \<Rightarrow> bool \<Rightarrow> win_display \<Rightarrow> bool" where
  "row icon tool status reload restart d \<longleftrightarrow> trayIcon d = icon \<and> tooltip d = tool \<and> statusTitle d = status
     \<and> reloadOn d = reload \<and> restartOn d = restart"

definition win_looks :: "werr + nat \<Rightarrow> win_display \<Rightarrow> bool" where
  "win_looks r d \<longleftrightarrow> (case r of
     Inl e \<Rightarrow> row IconErr (''gov-pass '' @ dash @ '' Status Unknown'') ''Status: Unknown'' False False d
       \<and> toggleTitle d = ''Start Service'' @ ellipsis
   | Inr st \<Rightarrow>
       if st = svcRunning then row IconOn (''gov-pass '' @ dash @ '' Active'') (black_circle @ '' Status: Active'') True True d
         \<and> toggleTitle d = ''Deactivate Protection'' @ ellipsis \<and> toggleOn d
       else if st = svcStopped then row IconOff (''gov-pass '' @ dash @ '' Stopped'') (white_circle @ '' Status: Inactive'') False True d
         \<and> toggleTitle d = ''Activate Protection'' @ ellipsis \<and> toggleOn d
       else if st = svcStartPending then row IconOff (''gov-pass '' @ dash @ '' Starting'')
         (dotted_circle @ '' Status: Starting'' @ ellipsis) False False d \<and> \<not> toggleOn d
       else if st = svcStopPending then row IconOff (''gov-pass '' @ dash @ '' Stopping'')
         (dotted_circle @ '' Status: Stopping'' @ ellipsis) False False d \<and> \<not> toggleOn d
       else row IconOff (''gov-pass '' @ dash @ '' Unknown'') (''Status: '' @ stateString st) False True d \<and> toggleOn d)"

lemma looks_after [simp]: "win_looks (Inr st) (show_state st d)" "win_looks (Inl e) ((show_error d)\<lparr>reloadOn := False\<rparr>)"
  by (simp_all add: win_looks_def row_def show_state_def Let_def show_pending_def show_other_def show_active_def
      show_stopped_def show_error_def tip_def svcStopped_def svcStartPending_def svcStopPending_def svcRunning_def)

lemma looks_icon: "win_looks (Inl e) d \<Longrightarrow> trayIcon d = IconErr" "win_looks (Inr st) d \<Longrightarrow> trayIcon d \<noteq> IconErr"
  by (simp_all add: win_looks_def row_def split: if_splits)

lemma login_keeps: "win_looks r (d\<lparr>loginCheck := b\<rparr>) = win_looks r d"
  by (simp add: win_looks_def row_def split: sum.split)

text \<open>The variables remember what is shown, except that the error may still be there.\<close>

definition win_tray_inv :: "win_tray \<Rightarrow> bool" where
  "win_tray_inv t \<longleftrightarrow> (lastFailed t \<longrightarrow> win_looks (Inl (Msg [])) (winShown t))
     \<and> (haveLast t \<longrightarrow> win_looks (Inr (lastState t)) (winShown t) \<or> win_looks (Inl (Msg [])) (winShown t))"

definition stale :: "win_tray \<Rightarrow> werr + nat \<Rightarrow> bool" where
  "stale t r \<longleftrightarrow> haveLast t \<and> r = Inr (lastState t) \<and> trayIcon (winShown t) = IconErr"

lemma win_poll_shows:
  assumes "win_tray_inv t"
  shows "win_tray_inv (win_poll_tick r t)" "win_looks r (winShown (win_poll_tick r t)) \<longleftrightarrow> \<not> stale t r"
proof -
  have e: "win_looks (Inl e) d \<longleftrightarrow> win_looks (Inl (Msg [])) d" for e d by (simp add: win_looks_def)
  show "win_tray_inv (win_poll_tick r t)"
    using assms by (cases r) (auto simp: win_tray_inv_def win_poll_tick_def Let_def)
  show "win_looks r (winShown (win_poll_tick r t)) \<longleftrightarrow> \<not> stale t r"
  proof (cases r)
    case (Inl err)
    then show ?thesis using assms e [of err "winShown t"] by (auto simp: win_tray_inv_def win_poll_tick_def stale_def)
  next
    case (Inr st)
    then show ?thesis using assms looks_icon(2) [of "lastState t" "winShown t"] looks_icon(1) [of "Msg []" "winShown t"]
      by (auto simp: win_tray_inv_def win_poll_tick_def stale_def Let_def)
  qed
qed

lemma win_tray_step_inv: "win_tray_inv (fst s) \<Longrightarrow> win_tray_inv (fst (win_tray_step w answer name ev s))"
  by (cases s; cases ev) (auto simp: win_tray_step_def win_poll_shows split: prod.split,
      auto simp: win_tray_inv_def login_keeps split: prod.splits)

lemma win_tray_run_snoc: "win_tray_run w answer name (evs @ [ev]) s = win_tray_step w answer name ev (win_tray_run w answer name evs s)"
  by (simp add: win_tray_run_def)

lemma win_tray_run_inv: "win_tray_inv (fst s) \<Longrightarrow> win_tray_inv (fst (win_tray_run w answer name evs s))"
proof (induction evs rule: rev_induct)
  case Nil
  then show ?case by (simp add: win_tray_run_def)
qed (simp add: win_tray_run_snoc win_tray_step_inv)

lemma tray_ready_inv: "win_tray_inv (fst (tray_ready w l))"
  by (simp add: tray_ready_def win_tray_inv_def split: prod.split)

text \<open>C38. When the tray of Windows shows the truth: after any ticks and clicks in any order, one more
  tick leaves the display as the table of the menu has it for that tick's answer (icon, tooltip,
  status line, the toggle's title and what is enabled, a row each for an error, a running, a
  stopped, a starting, a stopping service and any other state), except in exactly one case: the answer is the state that was last seen and the icon is
  still that of an error in between.\<close>

theorem windows_tray_shows_state:
  "let (t, l) = win_tray_run w answer name evs (tray_ready w l0); r = fst (queryServiceState w name l) in
   win_looks r (winShown (fst (win_tray_run w answer name (evs @ [PollTick]) (tray_ready w l0)))) \<longleftrightarrow> \<not> stale t r"
proof (cases "win_tray_run w answer name evs (tray_ready w l0)")
  case (Pair t l)
  then have "win_tray_inv t" using win_tray_run_inv [OF tray_ready_inv, of w answer name evs w l0] by simp
  then show ?thesis using Pair by (simp add: Let_def win_tray_run_snoc win_tray_step_def win_poll_shows split: prod.split)
qed

text \<open>The exception happens: the service runs, one query fails, the service still runs, and from then on
  no tick changes the display of an error.\<close>

lemma win_poll_stuck:
  assumes "haveLast t" "winShown t = (show_error d)\<lparr>reloadOn := False\<rparr>" "\<not> lastFailed t"
  shows "win_poll_tick (Inr (lastState t)) t = t"
  using assms by (simp add: win_poll_tick_def)

lemma windows_tray_stuck:
  "fold win_poll_tick ([Inr svcRunning, Inl e] @ replicate (Suc n) (Inr svcRunning))
     \<lparr>lastState = 0, haveLast = False, lastFailed = False, winShown = d\<rparr>
   = \<lparr>lastState = svcRunning, haveLast = True, lastFailed = False,
      winShown = (show_error (show_state svcRunning d))\<lparr>reloadOn := False\<rparr>\<rparr>"
proof -
  let ?t = "\<lparr>lastState = svcRunning, haveLast = True, lastFailed = False,
      winShown = (show_error (show_state svcRunning d))\<lparr>reloadOn := False\<rparr>\<rparr>"
  have "fold win_poll_tick (replicate n (Inr svcRunning)) ?t = ?t"
    by (induction n) (simp_all add: win_poll_tick_def)
  then show ?thesis by (simp add: win_poll_tick_def)
qed

end
