(* ===== verification/MsiHelper.thy ===== *)
theory MsiHelper
  imports WinScm
begin

text \<open>
  The helper of the Windows installer (\<^verbatim>\<open>cmd/gov-pass-msi-helper/main_windows.go\<close>): each
  action does its best and ignores failures.  The properties are that every run ends, and what
  it may delete.
\<close>

definition runKeyPath :: string where
  "runKeyPath = ''Software'' @ [backslash] @ ''Microsoft'' @ [backslash] @ ''Windows'' @ [backslash] @ ''CurrentVersion'' @ [backslash] @ ''Run''"

definition runValueKey :: string where "runValueKey = ''gov-pass-tray''"
definition trayExeName :: string where "trayExeName = ''gov-pass-tray.exe''"
definition winDivertSvcName :: string where "winDivertSvcName = ''WinDivert''"

definition killTrayBestEffort :: "whost \<Rightarrow> wlog \<Rightarrow> wlog" where
  "killTrayBestEffort w l = (
     let taskkill = (case systemDir w of Inl e \<Rightarrow> ''taskkill.exe''
           | Inr dir \<Rightarrow> if TrimSpace dir \<noteq> [] then joinPath w dir ''taskkill.exe'' else ''taskkill.exe'')
     in quietly w (Command taskkill [''/IM'', trayExeName, ''/F'']) l)"

definition cleanAutorunBestEffort :: "whost \<Rightarrow> string \<Rightarrow> wlog \<Rightarrow> wlog" where
  "cleanAutorunBestEffort w root l = (case wdo w (RegOpen root runKeyPath) l of
     (Some e, l) \<Rightarrow> l
   | (None, l) \<Rightarrow> quietly w (RegDelete runValueKey) l @ [RegClose])"

definition equal_fold :: "string \<Rightarrow> string \<Rightarrow> bool" where
  "equal_fold s t \<longleftrightarrow> ToLower s = ToLower t"

definition purge_base :: "whost \<Rightarrow> wlog \<Rightarrow> string" where
  "purge_base w l = (let base = TrimSpace (getenv w l ''ProgramData'')
     in if base = [] then ''C:'' @ [backslash] @ ''ProgramData'' else base)"

definition purgeProgramDataBestEffort :: "whost \<Rightarrow> wlog \<Rightarrow> wstatus" where
  "purgeProgramDataBestEffort w l = (let base = purge_base w l; dir = joinPath w base ''gov-pass'' in
     if equal_fold (cleanPath w dir) (cleanPath w base) then (Some (Msg ''refusing to remove ProgramData root''), l)
     else if \<not> equal_fold (basePath w dir) ''gov-pass'' then (Some (Msg ''refusing to remove unexpected directory''), l)
     else (None, quietly w (RemoveAll dir) l))"

text \<open>A service that was opened, and the deferred calls.\<close>

definition with_service :: "whost \<Rightarrow> string \<Rightarrow> (wlog \<Rightarrow> wlog option) \<Rightarrow> wlog \<Rightarrow> wlog option" where
  "with_service w name f l = (case wdo w ScmConnect l of
     (Some e, l) \<Rightarrow> Some l
   | (None, l) \<Rightarrow> (case wdo w (ScmOpen name) l of
       (Some e, l) \<Rightarrow> Some (l @ [ScmDisconnect])
     | (None, l) \<Rightarrow> map_option (\<lambda>l. l @ [ScmClose, ScmDisconnect]) (f l)))"

text \<open>The wait is the loop of \<^const>\<open>wait_loop\<close> for the stopped state, whose result is dropped.\<close>

definition stopServiceBestEffort :: "whost \<Rightarrow> string \<Rightarrow> int \<Rightarrow> wlog \<Rightarrow> wlog option" where
  "stopServiceBestEffort w name timeout = with_service w name (\<lambda>l. case wdo w ScmQuery l of (err, l) \<Rightarrow>
     if err = None \<and> serviceState w l = svcStopped then Some l
     else let l = quietly w ScmStop l in map_option snd (wait_loop w svcStopped (clock w l + timeout) l))"

definition deleteServiceBestEffort :: "whost \<Rightarrow> string \<Rightarrow> wlog \<Rightarrow> wlog option" where
  "deleteServiceBestEffort w name = with_service w name (\<lambda>l. Some (quietly w ScmDelete l))"

text \<open>The exit code; 2 comes with a message about the unknown action.\<close>

definition msi_main :: "whost \<Rightarrow> string \<Rightarrow> wlog \<Rightarrow> (nat \<times> wlog) option" where
  "msi_main w action l = (let act = ToLower (TrimSpace action) in
     if act = ''kill-tray'' then Some (0, killTrayBestEffort w l)
     else if act = ''clean-autorun-hkcu'' then Some (0, cleanAutorunBestEffort w ''HKCU'' l)
     else if act = ''clean-autorun-hklm'' then Some (0, cleanAutorunBestEffort w ''HKLM'' l)
     else if act = ''purge-programdata'' then Some (0, snd (purgeProgramDataBestEffort w l))
     else if act = ''stop-windivert'' then map_option (Pair 0) (stopServiceBestEffort w winDivertSvcName 10000 l)
     else if act = ''delete-windivert'' then map_option (Pair 0) (deleteServiceBestEffort w winDivertSvcName l)
     else Some (2, l))"

section \<open>Properties\<close>

lemma stop_returns:
  assumes "steady w"
  shows "\<exists>k. stopServiceBestEffort w name 10000 l = Some (l @ k) \<and> length k \<le> 87 \<and> (\<forall>d. RemoveAll d \<notin> set k)"
proof (cases "failure w l ScmConnect = None \<and> failure w (l @ [ScmConnect]) (ScmOpen name) = None")
  case True
  let ?q = "l @ [ScmConnect, ScmOpen name, ScmQuery]"
  have r: "RemoveAll d \<notin> set (rounds n)" for d n by (induction n) simp_all
  have n: "length (rounds n) = 2 * n" for n by (induction n) simp_all
  obtain e j k where w: "wait_loop w svcStopped (clock w (?q @ [ScmStop]) + 10000) (?q @ [ScmStop]) = Some (e, ?q @ [ScmStop] @ k)"
    "j \<le> 40" "k = rounds j \<or> k = rounds j @ [ScmQuery]"
    using wait_loop_returns [OF assms, of "clock w (?q @ [ScmStop]) + 10000" "?q @ [ScmStop]" 40 svcStopped] by fastforce
  then have "length k \<le> 81" "\<forall>d. RemoveAll d \<notin> set k" using r n [of j] by auto
  then show ?thesis using True w(1) by (auto simp: stopServiceBestEffort_def with_service_def wdo_def Let_def)
qed (auto simp: stopServiceBestEffort_def with_service_def wdo_def split: option.splits)

lemma purge_removes:
  "snd (purgeProgramDataBestEffort w l) = l \<or> (\<exists>d. snd (purgeProgramDataBestEffort w l) = l @ [RemoveAll d]
    \<and> d = joinPath w (purge_base w l) ''gov-pass'' \<and> equal_fold (basePath w d) ''gov-pass''
    \<and> \<not> equal_fold (cleanPath w d) (cleanPath w (purge_base w l)))"
  by (simp add: purgeProgramDataBestEffort_def Let_def)

text \<open>The installer's helper ends and deletes little: if the clock does not go back and counts the
  sleeps, every run returns after at most 87 operations, with exit code 0 or, for an unknown
  action, with 2 and having done nothing; and it removes a directory tree only for the action
  purge-programdata, and then one whose last component is gov-pass and that is not the data
  directory itself.\<close>

theorem msi_helper_ends:
  assumes "steady w"
  shows "\<exists>code k. msi_main w action l = Some (code, l @ k) \<and> length k \<le> 87 \<and> code \<in> {0, 2} \<and> (code = 2 \<longrightarrow> k = [])
    \<and> (\<forall>d. RemoveAll d \<in> set k \<longrightarrow> ToLower (TrimSpace action) = ''purge-programdata''
        \<and> equal_fold (basePath w d) ''gov-pass'' \<and> \<not> equal_fold (cleanPath w d) (cleanPath w (purge_base w l)))"
proof -
  let ?act = "ToLower (TrimSpace action)"
  have delete: "\<exists>k. deleteServiceBestEffort w name l = Some (l @ k) \<and> length k \<le> 5 \<and> (\<forall>d. RemoveAll d \<notin> set k)" for name
    by (auto simp: deleteServiceBestEffort_def with_service_def wdo_def split: option.split)
  have autorun: "\<exists>k. cleanAutorunBestEffort w root l = l @ k \<and> length k \<le> 3 \<and> (\<forall>d. RemoveAll d \<notin> set k)" for root
    by (auto simp: cleanAutorunBestEffort_def wdo_def split: option.split)
  consider "?act = ''purge-programdata''" | "?act = ''stop-windivert''" | "?act = ''delete-windivert''"
    | "?act = ''clean-autorun-hkcu''" | "?act = ''clean-autorun-hklm''"
    | "?act \<notin> set [''purge-programdata'', ''stop-windivert'', ''delete-windivert'', ''clean-autorun-hkcu'', ''clean-autorun-hklm'']"
    by auto
  then show ?thesis
  proof cases
    case 1
    then show ?thesis using purge_removes [of w l] by (auto simp: msi_main_def)
  next
    case 2
    then show ?thesis using stop_returns [OF assms, of winDivertSvcName l] by (auto simp: msi_main_def)
  next
    case 3
    then show ?thesis using delete [of winDivertSvcName] by (auto simp: msi_main_def)
  next
    case 4
    then show ?thesis using autorun [of "''HKCU''"] by (auto simp: msi_main_def)
  next
    case 5
    then show ?thesis using autorun [of "''HKLM''"] by (auto simp: msi_main_def)
  next
    case 6
    then show ?thesis by (auto simp: msi_main_def killTrayBestEffort_def Let_def)
  qed
qed

end
