(* ===== verification/Stubs.thy ===== *)
theory Stubs
  imports AdapterChecksums AdapterRun WinDivert WinDriver
begin

text \<open>
  What stands in where a platform has no implementation: the stub adapter
  (\<^verbatim>\<open>internal/adapter/adapter.go\<close>), WinDivert and its driver on other systems
  (\<^verbatim>\<open>windivert_stub.go\<close>, \<^verbatim>\<open>driver_stub.go\<close>), and the tray on other systems.  The stub
  adapter keeps the contract of \<^const>\<open>transmitter\<close>: it sends nothing and says so.
\<close>

definition stub_Recv :: "'s \<Rightarrow> (go_error + packet) \<times> 's" where
  "stub_Recv s = (Inl ErrNotImplemented, s)"

definition stub_Send :: "packet \<Rightarrow> 's \<Rightarrow> go_error option \<times> 's" where
  "stub_Send pkt s = (Some ErrNotImplemented, s)"

definition stub_Drop :: "packet \<Rightarrow> 's \<Rightarrow> go_error option \<times> 's" where
  "stub_Drop pkt s = (Some ErrNotImplemented, s)"

definition stub_Flush :: "'s \<Rightarrow> go_error option \<times> 's" where
  "stub_Flush s = (None, s)"

definition stub_Close :: "'s \<Rightarrow> go_error option \<times> 's" where
  "stub_Close s = (None, s)"

interpretation stub_adapter: transmitter stub_Send stub_Drop "\<lambda>s :: packet list. s" "\<lambda>p. p" "\<lambda>_. True"
  by unfold_locales (simp_all add: stub_Send_def stub_Drop_def)

definition stub_NewWinDivert :: "string \<Rightarrow> wd_options \<Rightarrow> go_error + unit" where
  "stub_NewWinDivert filt opts = Inl ErrNotImplemented"

definition ErrNotSupported :: werr where
  "ErrNotSupported = Msg ''WinDivert driver is only supported on Windows''"

definition stub_Ensure :: "driverConfig \<Rightarrow> wlog \<Rightarrow> (werr + cleanup option) \<times> wlog" where
  "stub_Ensure c l = (Inl ErrNotSupported, l)"

text \<open>The exit code and what goes to the standard error.\<close>

definition tray_main_other :: "nat \<times> string" where
  "tray_main_other = (1, ''gov-pass tray UI is supported on Windows and Linux only.'' @ [CHR 0x0A])"

lemma stub_never_sends:
  "send_all (on_adapter stub_Send stub_Drop calc s0) ps w = (r, w') \<Longrightarrow> r = None \<longleftrightarrow> ps = []"
  "replay stub_Send stub_Drop l (s0 :: 's) = s0"
proof -
  show "send_all (on_adapter stub_Send stub_Drop calc s0) ps w = (r, w') \<Longrightarrow> r = None \<longleftrightarrow> ps = []"
    by (cases ps) (auto simp: send_on_adapter stub_Send_def)
  show "replay stub_Send stub_Drop l s0 = s0"
    by (induction "stub_Send :: packet \<Rightarrow> 's \<Rightarrow> _" "stub_Drop :: packet \<Rightarrow> 's \<Rightarrow> _" l s0 rule: replay.induct) (simp_all add: stub_Send_def stub_Drop_def)
qed

end
