(* ===== verification/Spec2Isabelle.thy ===== *)
theory Spec2Isabelle
  imports ReassemblyProps WorkerProps WorkerPolicy WorkerEnd EngineFailure NFQueueProps Divert LinuxMainProps WinDivertProps FreeBSDMain WinConfigProps WinServiceProps TrayLinux TrayWindowsProps MsiHelper Stubs
begin

text \<open>
  Verification library of gov-pass, a program that splits the TLS ClientHello of outgoing
  connections: it captures packets through an adapter of the operating system, holds the first
  packets of a flow, reassembles their payload, cuts it into small TCP segments, and sends these
  instead.  Whatever goes wrong, it fails open and sends what it has captured.

  The parts of the program and their theories.  File names are relative to \<^verbatim>\<open>src\<close>.

  Packets and flows.  GoPrelude: words, byte slices, checked indexing, the error values.  Packet
  (\<^verbatim>\<open>internal/packet/packet.go\<close>): decoder and header writers.  Checksum, AdapterChecksums
  (\<^verbatim>\<open>internal/packet/checksum.go\<close>, \<^verbatim>\<open>CalcChecksums\<close> of the adapters).  FlowTable, Sharder
  (\<^verbatim>\<open>internal/flow\<close>): the flow table, an association list with distinct keys for the Go map, and
  the choice of the worker.  TlsDetect (\<^verbatim>\<open>internal/tls/tls.go\<close>).  Reassembly, ReassemblyCorrect,
  ReassemblyProps (\<^verbatim>\<open>internal/reassembly/reassembly.go\<close>): the buffer, its invariant, and its
  refinement of a partial map from stream offsets to bytes.

  Engine.  EngineConfig (\<^verbatim>\<open>internal/engine/config.go\<close>).  Split, Worker, WorkerRun
  (\<^verbatim>\<open>internal/engine/worker.go\<close>): cutting a window, the handler of a packet, the loop with the
  collection of idle flows and the fail-open at shutdown.  WorkerInv, WorkerAccounting,
  WorkerInject, WorkerRunInv hold the invariants, WorkerProps, WorkerPolicy, WorkerEnd the
  properties, WorkerExamples an adapter that works.  Engine, EngineProps, EngineEnd, EngineFailure
  (\<^verbatim>\<open>internal/engine/engine.go\<close>): routing, reload, and \<^verbatim>\<open>Run\<close>, whose goroutines are interleaved by
  a list of actions.

  Adapters (\<^verbatim>\<open>internal/adapter\<close>).  Transmitter: the interface that the engine relies on, a locale
  interpreted for each of NFQueue, Divert, WinDivert and the stub of Stubs, in the theories
  NFQueueProps, Divert, WinDivertProps and Stubs; AdapterRun puts a worker on such an adapter and
  proves in the locale what the worker's fail-open transmits.  The callback or receive goroutine and \<^verbatim>\<open>Flush\<close>
  are cut at their atomic operations, and the flush is shown to lose no packet in any
  interleaving.

  Programs for Linux and FreeBSD.  GoStrings, GoDuration: the functions of \<^verbatim>\<open>strings\<close>, \<^verbatim>\<open>strconv\<close>,
  \<^verbatim>\<open>bufio\<close> and \<^verbatim>\<open>time\<close> that the programs use.  Settings: what the programs share.  Commands,
  LinuxRules, LinuxOffload, LinuxMain with LinuxRulesProps and LinuxMainProps
  (\<^verbatim>\<open>cmd/splitter/main_linux.go\<close>).  FreeBSDMain (\<^verbatim>\<open>cmd/splitter/main_freebsd.go\<close>).

  Program for Windows.  WinHost: the machine, with \<^verbatim>\<open>cmd/splitter/acl_windows.go\<close>.  WinFiles,
  WinDriver, WinFilesProps (\<^verbatim>\<open>internal/driver\<close>, \<^verbatim>\<open>cmd/splitter/windivert_ensure_windows.go\<close>): files,
  download and service of the driver.  WinConfig, WinConfigProps
  (\<^verbatim>\<open>cmd/splitter/config_windows.go\<close>).  WinService, WinServiceProps
  (\<^verbatim>\<open>cmd/splitter/main_windows.go\<close>, \<^verbatim>\<open>cmd/splitter/service_windows.go\<close>): the service as an inductive
  step relation of its request handler, its reload loop and the engine.

  Tray and installer.  Icon (\<^verbatim>\<open>cmd/gov-pass-tray/icon.go\<close>).  Tray: the display.  TrayLinux
  (\<^verbatim>\<open>cmd/gov-pass-tray/main_linux.go\<close>).  WinScm, CommandLine, TrayWindows, TrayWindowsProps
  (\<^verbatim>\<open>cmd/gov-pass-tray/main_windows.go\<close>).  MsiHelper (\<^verbatim>\<open>cmd/gov-pass-msi-helper/main_windows.go\<close>).
  Stubs: the files for other platforms.

  How state and effects are modelled.  A struct is a record, an error a value of a sum or an
  option, a panic \<open>None\<close>.  The operating system is a record of functions whose results may
  depend on all calls made before; the list of these calls is the state (the histories and logs
  of Commands, WinHost and the adapters).  A goroutine is a function or relation for one atomic
  step, and a run is a list of such steps or a path of the relation, in any order.  The log
  messages of the program are left out.

  What the lemmas show.  No captured packet is lost or sent twice by a handler, a worker, the
  engine or a flush; what is injected are segments of the flow that cover exactly the contiguous
  prefix of its stream, the window only in small segments; the buffer implements a map update for every order of fragments; counters
  and limits are kept; the shutdown is bounded and in order, and the failure of a worker stops
  the engine and is returned.  Installing adds exactly the rules of the options, and rules that
  were installed are removed last.  Settings come from flag, file or default in that order; a
  driver file is put in place only if the download had the pinned sum; the service's reports,
  exit code and reloads are as the service manager expects; the trays show what the last query
  said, with one exception on Windows (the display is compared with a table of its own); quoting and containers read back.

  Bounds.  Lengths below 65536 are those of an IPv4 packet.  Loops end by a measure or by
  recursion on their data.  The removal of iptables rules and the waits for a service repeat until
  the system answers, as \<^verbatim>\<open>partial_function\<close> or with fuel: they return if the number of rules is
  finite, and if the clock counts the sleeps: 120 rounds for a wait of 30 seconds.

  Not modelled.  The drawing of the icons (floating point and the image library: \<^verbatim>\<open>buildPNGCircle\<close>,
  \<^verbatim>\<open>clampByte\<close> and \<^verbatim>\<open>buildPNGTransparent\<close> are arguments), the menu library of the trays, the parsing
  of the command line by the package \<^verbatim>\<open>flag\<close> (the theories start from the parsed flags), signals
  other than as the end of the engine's context, the log, and the code of the packages
  \<^verbatim>\<open>go-nfqueue\<close>, \<^verbatim>\<open>netlink\<close>, \<^verbatim>\<open>svc\<close>, \<^verbatim>\<open>encoding/json\<close> and \<^verbatim>\<open>archive/zip\<close>, which are parameters.  In the
  trays a click's handler runs to its end before the next event; the display does not depend on
  when its commands run.  Case and white space are those of ASCII.  What modelling showed of the
  code is in the findings of the manifest; the lemmas for it stand beside the properties.
\<close>

end
